(* ===== verification/Prelude.thy ===== *)
theory Prelude
  imports Main "HOL-Library.Word" "HOL-Library.Sublist"
begin

unbundle bit_operations_syntax

text \<open>
  Shared vocabulary of the development: machine integers, byte strings, big-endian byte
  order, the outcome type of the parsers, and the lemmas on lists and words that the
  component theories have in common.

  Rust integers keep their width: \<^verbatim>\<open>u8\<close>, \<^verbatim>\<open>u16\<close>, \<^verbatim>\<open>u32\<close>, \<^verbatim>\<open>i32\<close> and \<^verbatim>\<open>u64\<close> are words
  (an \<^verbatim>\<open>i32\<close> is a word read by \<open>sint\<close>). A \<^verbatim>\<open>usize\<close> that only counts elements in memory is a
  \<open>nat\<close>; casts to and from it are written out. \<^verbatim>\<open>Bytes\<close>, \<^verbatim>\<open>BytesMut\<close> and \<^verbatim>\<open>&[u8]\<close> are lists of
  bytes. A Rust \<^verbatim>\<open>String\<close> is the list of its UTF-8 bytes, so that \<^verbatim>\<open>len()\<close> is \<open>length\<close>.
\<close>

subsection \<open>Types\<close>

type_synonym u8 = "8 word"
type_synonym u16 = "16 word"
type_synonym u32 = "32 word"
type_synonym i32 = "32 word"
type_synonym u64 = "64 word"
type_synonym bytes = "8 word list"
type_synonym str = "8 word list"

text \<open>A Rust string literal (ASCII) as its bytes.\<close>

definition str_lit :: "string \<Rightarrow> str" where
  "str_lit s = map of_char s"

lemma length_str_lit [simp]: "length (str_lit s) = length s"
  by (simp add: str_lit_def)

lemma str_lit_Nil [simp]: "str_lit [] = []"
  by (simp add: str_lit_def)

lemma str_lit_Cons: "str_lit (c # s) = of_char c # str_lit s"
  by (simp add: str_lit_def)

subsection \<open>Lemma collections\<close>

named_theorems streaming_intros \<open>cursor readers whose answer does not depend on later bytes\<close>
named_theorems safe_intros \<open>cursor readers that never read past the end of the buffer\<close>
named_theorems table_simps \<open>reading a slot table after an update\<close>

subsection \<open>The outcome of a parser\<close>

datatype packet_error =
    NotValid
  | NotValidStringEncoding
  | NotValidFirstPacket
  | NotMatching
  | EncodingError
  | TooLong

text \<open>
  \<^verbatim>\<open>Result<Option<T>, PacketError>\<close>, with a branch for a panic: \<open>Parsed v\<close> is \<^verbatim>\<open>Ok(Some(v))\<close>,
  \<open>Incomplete\<close> is \<^verbatim>\<open>Ok(None)\<close>, \<open>Failed e\<close> is \<^verbatim>\<open>Err(e)\<close> and \<open>Panicked\<close> is a run that ends in a
  Rust panic (reading past the end, or an integer overflow, as the release profile keeps
  overflow checks on).
\<close>

datatype 'a outcome = Incomplete | Failed packet_error | Panicked | Parsed 'a

text \<open>
  The information order on outcomes: \<open>Incomplete\<close> is below everything, the others are only
  below themselves. A parser that is monotone in it never takes back an answer when more
  bytes arrive.
\<close>

instantiation outcome :: (type) order_bot
begin

definition less_eq_outcome :: "'a outcome \<Rightarrow> 'a outcome \<Rightarrow> bool" where
  "less_eq_outcome x y \<longleftrightarrow> x = Incomplete \<or> x = y"

definition less_outcome :: "'a outcome \<Rightarrow> 'a outcome \<Rightarrow> bool" where
  "less_outcome x y \<longleftrightarrow> x = Incomplete \<and> y \<noteq> Incomplete"

definition bot_outcome :: "'a outcome" where
  "bot_outcome = Incomplete"

instance
  by standard (auto simp: less_eq_outcome_def less_outcome_def bot_outcome_def)

end

lemma outcome_le_decided: "x \<le> y \<Longrightarrow> x \<noteq> Incomplete \<Longrightarrow> y = (x :: 'a outcome)"
  by (auto simp: less_eq_outcome_def)

lemma Incomplete_le [simp]: "Incomplete \<le> (x :: 'a outcome)"
  by (simp add: less_eq_outcome_def)

subsection \<open>Big-endian bytes\<close>

primrec be_bytes :: "nat \<Rightarrow> 'a::len word \<Rightarrow> bytes" where
  "be_bytes 0 w = []"
| "be_bytes (Suc n) w = be_bytes n (drop_bit 8 w) @ [ucast w]"

definition of_be :: "bytes \<Rightarrow> 'a::len word" where
  "of_be bs = foldl (\<lambda>acc b. push_bit 8 acc OR ucast b) 0 bs"

lemma length_be_bytes [simp]: "length (be_bytes n w) = n"
  by (induction n arbitrary: w) auto

lemma of_be_Nil [simp]: "of_be [] = 0"
  by (simp add: of_be_def)

lemma of_be_snoc [simp]: "of_be (bs @ [b]) = push_bit 8 (of_be bs) OR ucast b"
  by (simp add: of_be_def)

lemma push_drop_byte:
  fixes w :: "'a::len word"
  shows "push_bit 8 (take_bit n (drop_bit 8 w)) OR ucast (ucast w :: u8) = take_bit (8 + n) w"
  by (rule bit_word_eqI) (auto simp: bit_simps)

lemma of_be_bytes: "of_be (be_bytes n w) = take_bit (8 * n) (w :: 'a::len word)"
proof (induction n arbitrary: w)
  case 0
  then show ?case by simp
next
  case (Suc n)
  then show ?case by (simp add: push_drop_byte)
qed

lemma of_be_bytes_all [simp]:
  "LENGTH('a) = 8 * n \<Longrightarrow> of_be (be_bytes n w) = (w :: 'a::len word)"
  by (simp add: of_be_bytes take_bit_word_eq_self)

lemma bit_of_be_high:
  "bit (of_be bs :: 'a::len word) k \<Longrightarrow> k < 8 * length bs"
proof (induction bs arbitrary: k rule: rev_induct)
  case Nil
  then show ?case by simp
next
  case (snoc b bs)
  from snoc.prems have "8 \<le> k \<and> bit (of_be bs :: 'a word) (k - 8) \<or> bit (ucast b :: 'a word) k"
    by (auto simp: bit_simps)
  then show ?case
  proof
    assume "8 \<le> k \<and> bit (of_be bs :: 'a word) (k - 8)"
    with snoc.IH[of "k - 8"] show ?thesis by auto
  next
    assume "bit (ucast b :: 'a word) k"
    then have "bit b k" by (simp add: bit_simps)
    then have "k < 8" by (auto dest: bit_imp_le_length)
    then show ?thesis by simp
  qed
qed

lemma be_bytes_of_be:
  assumes "8 * length bs \<le> LENGTH('a)"
  shows "be_bytes (length bs) (of_be bs :: 'a::len word) = bs"
  using assms
proof (induction bs rule: rev_induct)
  case Nil
  then show ?case by simp
next
  case (snoc b bs)
  let ?w = "of_be bs :: 'a word"
  have hi: "\<And>k. bit ?w k \<Longrightarrow> k < 8 * length bs"
    by (rule bit_of_be_high)
  have up: "drop_bit 8 (push_bit 8 ?w OR ucast b) = ?w"
  proof (rule bit_word_eqI)
    fix k
    assume "k < LENGTH('a)"
    show "bit (drop_bit 8 (push_bit 8 ?w OR ucast b)) k = bit ?w k"
      using snoc.prems hi[of k] by (auto simp: bit_simps dest: bit_imp_le_length)
  qed
  have low: "(ucast (push_bit 8 ?w OR ucast b :: 'a word) :: u8) = b"
    by (rule bit_word_eqI) (use snoc.prems in \<open>auto simp: bit_simps\<close>)
  have "be_bytes (length bs) ?w = bs"
    using snoc.prems by (intro snoc.IH) simp
  with up low show ?case by (simp del: drop_bit_or)
qed

subsection \<open>Masks\<close>

lemma and_7F: "w AND 0x7F = take_bit 7 (w :: 'a::len word)"
  by (simp add: take_bit_eq_mask mask_eq_exp_minus_1)

lemma bit_m128: "bit (- 128 :: 'a::len word) k \<longleftrightarrow> 7 \<le> k \<and> k < LENGTH('a)"
proof -
  have "- 128 = NOT (mask 7 :: 'a word)" by (simp add: mask_eq_exp_minus_1)
  then show ?thesis by (simp only: bit_simps possible_bit_word) auto
qed

lemma and_m128_zero: "w AND - 128 = 0 \<longleftrightarrow> drop_bit 7 (w :: 'a::len word) = 0"
proof
  assume "w AND - 128 = 0"
  then have "\<not> bit (w AND - 128) k" for k by simp
  then have "\<not> (bit w k \<and> 7 \<le> k \<and> k < LENGTH('a))" for k
    by (simp only: bit_and_iff bit_m128) simp
  then have "\<not> bit w (7 + k)" for k
    using bit_imp_le_length[of w "7 + k"] by (metis le_add1)
  then show "drop_bit 7 w = 0" by (auto intro!: bit_word_eqI simp: bit_drop_bit_eq)
next
  assume "drop_bit 7 w = 0"
  then have "\<not> bit (drop_bit 7 w) k" for k by simp
  then have "\<not> bit w (7 + k)" for k by (simp add: bit_drop_bit_eq)
  then have "\<not> (bit w k \<and> 7 \<le> k)" for k by (metis le_Suc_ex)
  then show "w AND - 128 = 0"
    by (intro bit_word_eqI) (simp only: bit_and_iff bit_m128 bit_0_eq bot_apply, simp)
qed

lemma and_80: "w AND 0x80 = 0 \<longleftrightarrow> \<not> bit (w :: u8) 7"
  using and_exp_eq_0_iff_not_bit[of w 7] by simp

text \<open>A length below \<open>2 ^ 31\<close> survives the casts \<^verbatim>\<open>as i32\<close> and \<^verbatim>\<open>as usize\<close>.\<close>

lemma i32_len: "n < 2 ^ 31 \<Longrightarrow> unat (scast (of_nat n :: i32) :: u64) = n"
proof -
  assume n: "n < 2 ^ 31"
  have "sint (of_nat n :: i32) = int n"
    using n by (simp add: signed_of_nat signed_take_bit_int_eq_self)
  then show ?thesis
    using n by (simp add: scast_eq unat_of_nat take_bit_nat_eq_self)
qed

subsection \<open>Lists\<close>

lemma take_drop_append_mid [simp]:
  "take (length ys) (drop (length xs) (xs @ ys @ zs)) = ys"
  by simp

lemma strict_prefix_length: "strict_prefix xs ys \<Longrightarrow> length xs < length ys"
  by (rule prefix_length_less)

lemma prefix_take_iff: "prefix xs ys \<longleftrightarrow> xs = take (length xs) ys"
  by (metis append_eq_conv_conj prefix_def take_is_prefix)

end
