(* ===== verification/Framing.thy ===== *)
theory Framing
  imports Prelude
begin

text \<open>
  Framed streams, independently of the packets they carry. A decoder looks at the receive
  buffer and answers with an outcome and the buffer that is left; a drain loop calls it until it
  answers \<open>Incomplete\<close> or an error. The locales state what a decoder owes its callers and prove
  once that the packets received do not depend on how the transport cuts the bytes.
\<close>

subsection \<open>Receiving chunks\<close>

text \<open>
  The state of a receiver: the packets delivered so far, the outcome that stopped the last drain
  (\<open>Incomplete\<close> while the stream is alive) and the unread buffer. After an error the stream is
  over: later bytes are only buffered.
\<close>

type_synonym 'p receiver = "'p list \<times> 'p outcome \<times> bytes"

definition feed :: "(bytes \<Rightarrow> 'p receiver) \<Rightarrow> 'p receiver \<Rightarrow> bytes \<Rightarrow> 'p receiver" where
  "feed dr st chunk = (case st of (ps, out, buf) \<Rightarrow>
     if out = Incomplete
     then (case dr (buf @ chunk) of (qs, out', rest) \<Rightarrow> (ps @ qs, out', rest))
     else (ps, out, buf @ chunk))"

definition receive :: "(bytes \<Rightarrow> 'p receiver) \<Rightarrow> bytes list \<Rightarrow> 'p receiver" where
  "receive dr chunks = foldl (feed dr) ([], Incomplete, []) chunks"

subsection \<open>Decoders\<close>

text \<open>
  A stream decoder never takes back an answer when bytes arrive (\<open>dec_more\<close>), and leaves the
  buffer alone while it has no answer (\<open>dec_wait\<close>); \<open>dr\<close> is its drain loop.
\<close>

locale stream_decoder =
  fixes dec :: "bytes \<Rightarrow> 'p outcome \<times> bytes"
    and dr :: "bytes \<Rightarrow> 'p receiver"
  assumes dec_more: "dec buf = (out, rest) \<Longrightarrow> out \<noteq> Incomplete
      \<Longrightarrow> dec (buf @ more) = (out, rest @ more)"
    and dec_wait: "dec buf = (Incomplete, rest) \<Longrightarrow> rest = buf"
    and dec_consumes: "dec buf = (Parsed p, rest) \<Longrightarrow> length rest < length buf"
    and dec_empty: "dec [] = (Incomplete, [])"
    and dr_unfold: "dr buf = (case dec buf of
        (Parsed p, rest) \<Rightarrow> (case dr rest of (ps, out, rest') \<Rightarrow> (p # ps, out, rest'))
      | (out, rest) \<Rightarrow> ([], out, rest))"
begin

lemma dr_parsed: "dec buf = (Parsed p, rest) \<Longrightarrow> dr rest = (ps, out, r) \<Longrightarrow> dr buf = (p # ps, out, r)"
  using dr_unfold[of buf] by simp

lemma dr_stop: "dec buf = (out, rest) \<Longrightarrow> (\<And>p. out \<noteq> Parsed p) \<Longrightarrow> dr buf = ([], out, rest)"
  using dr_unfold[of buf] by (cases out) auto

lemma dr_empty: "dr [] = ([], Incomplete, [])"
  by (rule dr_stop[OF dec_empty]) simp

lemma dr_not_parsed: "dr buf = (ps, out, rest) \<Longrightarrow> out \<noteq> Parsed p"
proof (induction buf arbitrary: ps out rest rule: length_induct)
  case (1 buf)
  obtain o1 r1 where d: "dec buf = (o1, r1)" by (cases "dec buf")
  show ?case
  proof (cases o1)
    case (Parsed q)
    obtain ps2 o2 r2 where e: "dr r1 = (ps2, o2, r2)" by (cases "dr r1")
    have "length r1 < length buf" using dec_consumes d Parsed by blast
    then have "o2 \<noteq> Parsed p" using "1.IH" e by blast
    then show ?thesis using dr_parsed[of buf q r1 ps2 o2 r2] d Parsed e "1.prems" by simp
  qed (use dr_stop[OF d] "1.prems" in auto)
qed

text \<open>Draining in two goes, with more bytes arriving in between, is draining once.\<close>

lemma dr_append:
  assumes "dr buf = (ps, out, rest)"
  shows "dr (buf @ more) = (if out = Incomplete
      then (case dr (rest @ more) of (qs, out', rest') \<Rightarrow> (ps @ qs, out', rest'))
      else (ps, out, rest @ more))"
  using assms
proof (induction buf arbitrary: ps rule: length_induct)
  case (1 buf)
  obtain o1 r1 where d: "dec buf = (o1, r1)" by (cases "dec buf")
  show ?case
  proof (cases o1)
    case (Parsed q)
    obtain ps2 o2 r2 where e: "dr r1 = (ps2, o2, r2)" by (cases "dr r1")
    have prems: "ps = q # ps2" "out = o2" "rest = r2"
      using dr_parsed[of buf q r1 ps2 o2 r2] d Parsed e "1.prems" by auto
    have "length r1 < length buf" using dec_consumes d Parsed by blast
    then have ih: "dr (r1 @ more) = (if out = Incomplete
        then (case dr (rest @ more) of (qs, out', rest') \<Rightarrow> (ps2 @ qs, out', rest'))
        else (ps2, out, rest @ more))"
      using "1.IH" e prems by blast
    have "dec (buf @ more) = (Parsed q, r1 @ more)" using dec_more d Parsed by simp
    then show ?thesis
      using ih prems by (simp add: dr_unfold[of "buf @ more"] split: prod.splits)
  next
    case Incomplete
    then have "ps = []" "out = Incomplete" "rest = buf"
      using dr_stop[OF d] "1.prems" dec_wait d by auto
    then show ?thesis by (simp split: prod.splits)
  next
    case (Failed e)
    then have "ps = []" "out = Failed e" "rest = r1" using dr_stop[OF d] "1.prems" by auto
    then show ?thesis using dr_stop[OF dec_more[OF d]] Failed by simp
  next
    case Panicked
    then have "ps = []" "out = Panicked" "rest = r1" using dr_stop[OF d] "1.prems" by auto
    then show ?thesis using dr_stop[OF dec_more[OF d]] Panicked by simp
  qed
qed

lemma feed_dr: "feed dr (dr buf) chunk = dr (buf @ chunk)"
  by (cases "dr buf") (simp add: feed_def dr_append split: prod.splits)

lemma receive_dr: "receive dr chunks = dr (concat chunks)"
proof -
  have "foldl (feed dr) (dr buf) chunks = dr (buf @ concat chunks)" for buf
    by (induction chunks arbitrary: buf) (simp_all add: feed_dr)
  from this[of "[]"] show ?thesis by (simp add: receive_def dr_empty)
qed

end

text \<open>
  A frame codec is a stream decoder with an encoder: what was encoded is decoded, with any bytes
  after it, and a frame that has not arrived in full is waited for.
\<close>

locale frame_codec = stream_decoder dec dr
  for dec :: "bytes \<Rightarrow> 'p outcome \<times> bytes" and dr :: "bytes \<Rightarrow> 'p receiver" +
  fixes enc :: "'p \<Rightarrow> bytes" and ok :: "'p \<Rightarrow> bool"
  assumes dec_enc: "ok p \<Longrightarrow> dec (enc p @ rest) = (Parsed p, rest)"
    and dec_short: "ok p \<Longrightarrow> strict_prefix bs (enc p) \<Longrightarrow> dec bs = (Incomplete, bs)"
begin

lemma dr_frames:
  "list_all ok ps \<Longrightarrow> dr (concat (map enc ps) @ rest)
     = (case dr rest of (qs, out, r) \<Rightarrow> (ps @ qs, out, r))"
proof (induction ps)
  case (Cons p ps)
  then have "dec (enc p @ (concat (map enc ps) @ rest)) = (Parsed p, concat (map enc ps) @ rest)"
    by (intro dec_enc) simp
  with Cons show ?case
    by (simp add: dr_unfold[of "enc p @ _"] split: prod.splits)
qed (simp split: prod.splits)

lemma receive_frames:
  assumes "list_all ok ps" and "concat chunks = concat (map enc ps)"
  shows "receive dr chunks = (ps, Incomplete, [])"
  using dr_frames[OF assms(1), of "[]"] by (simp add: receive_dr assms(2) dr_empty)

lemma receive_partial:
  assumes "list_all ok ps" "ok p" and "concat chunks = concat (map enc ps) @ bs"
    and "strict_prefix bs (enc p)"
  shows "receive dr chunks = (ps, Incomplete, bs)"
  using dr_frames[OF assms(1), of bs] dr_stop[OF dec_short[OF assms(2,4)]]
  by (simp add: receive_dr assms(3))

lemma enc_inj: "ok p \<Longrightarrow> ok q \<Longrightarrow> enc p = enc q \<Longrightarrow> p = q"
  using dec_enc[of p "[]"] dec_enc[of q "[]"] by simp

end

end
