(* ===== verification/Socket_Packet.thy ===== *)
theory Socket_Packet
  imports Framing
begin

text \<open>
  The packets of the tunnel between a CraftIP client and the proxy, and their wire format:
  \<^verbatim>\<open>crates/protocol/src/proxy.rs\<close>, \<^verbatim>\<open>socket_packet.rs\<close>, \<^verbatim>\<open>packet_codec.rs\<close> and the constants of
  \<^verbatim>\<open>config.rs\<close>. Every frame has a two byte header: the top bit marks a data frame (client id and
  raw bytes), the other fifteen bits are the length of what follows. All other packets are
  serialised by the crate bincode, which is a parameter: \<open>ser\<close> for \<^verbatim>\<open>bincode::serialize\<close> and \<open>deser\<close>
  for \<^verbatim>\<open>bincode::deserialize\<close>.
\<close>

subsection \<open>Data\<close>

definition MAXIMUM_PACKET_SIZE :: nat where "MAXIMUM_PACKET_SIZE = 1024 * 64"
definition MAXIMUM_CLIENTS :: nat where "MAXIMUM_CLIENTS = 255"
definition PROTOCOL_VERSION :: u16 where "PROTOCOL_VERSION = 1"
definition TIMEOUT_IN_SEC :: nat where "TIMEOUT_IN_SEC = 20"
definition PROXY_IDENTIFIER :: str where "PROXY_IDENTIFIER = str_lit ''CraftIP''"
definition KEY_SERVER_SUFFIX :: str where "KEY_SERVER_SUFFIX = str_lit ''.t.craftip.net''"

type_synonym client_id = nat
type_synonym minecraft_data_packet = bytes
type_synonym challenge = bytes
type_synonym signature = bytes

record server_public_key =
  public_key_bytes :: bytes

datatype proxy_authenticator = PublicKey server_public_key

record proxy_hello_packet =
  hello_version :: u16
  hello_hostname :: str
  hello_auth :: proxy_authenticator

record proxy_connected_response =
  connected_version :: u16

record proxy_data_packet =
  data_client_id :: client_id
  data_bytes :: minecraft_data_packet

definition proxy_data_packet_new :: "minecraft_data_packet \<Rightarrow> client_id \<Rightarrow> proxy_data_packet" where
  "proxy_data_packet_new d cid = \<lparr>data_client_id = cid, data_bytes = d\<rparr>"

datatype socket_packet =
    ProxyHello proxy_hello_packet
  | ProxyAuthRequest challenge
  | ProxyAuthResponse signature
  | ProxyHelloResponse proxy_connected_response
  | ProxyJoin client_id
  | ProxyDisconnect client_id
  | ProxyDisconnectAck client_id
  | ProxyError str
  | ProxyData proxy_data_packet
  | ProxyPing u16
  | ProxyPong u16
  | Unknown

subsection \<open>Encoding and decoding\<close>

text \<open>\<open>as u16\<close> truncates, hence the \<open>of_nat\<close>; the buffer only grows at its end.\<close>

definition encode_into ::
  "(socket_packet \<Rightarrow> bytes option) \<Rightarrow> socket_packet \<Rightarrow> bytes \<Rightarrow> packet_error + bytes" where
  "encode_into ser pkg buf = (case pkg of
     ProxyData data \<Rightarrow>
       (let len = length (data_bytes data) + 2;
            start = (of_nat len :: u16) OR push_bit 15 1
        in Inr (buf @ be_bytes 2 start @ be_bytes 2 (of_nat (data_client_id data) :: u16)
                @ data_bytes data))
   | _ \<Rightarrow> (case ser pkg of
       None \<Rightarrow> Inl EncodingError
     | Some packet \<Rightarrow> Inr (buf @ be_bytes 2 (of_nat (length packet) :: u16) @ packet)))"

text \<open>
  The answer, and the buffer after it. \<^verbatim>\<open>get_u16\<close> panics on less than two bytes and
  \<^verbatim>\<open>length - 2\<close> when the frame is shorter than the client id.
\<close>

definition decode_from ::
  "(bytes \<Rightarrow> socket_packet option) \<Rightarrow> bytes \<Rightarrow> socket_packet outcome \<times> bytes" where
  "decode_from deser buf =
    (if length buf < 2 then (Incomplete, buf) else
     let start = (of_be (take 2 buf) :: u16);
         len = unat (start AND NOT (push_bit 15 1));
         is_data_packet = (start AND push_bit 15 1 \<noteq> 0)
     in if length buf < len + 2 then (Incomplete, buf)
        else if len > MAXIMUM_PACKET_SIZE then (Failed TooLong, buf)
        else let buf' = drop 2 buf in
          if is_data_packet then
            (if length buf' < 2 \<or> len < 2 then (Panicked, buf')
             else let cid = (of_be (take 2 buf') :: u16);
                      data = take (len - 2) (drop 2 buf')
                  in (Parsed (ProxyData \<lparr>data_client_id = unat cid, data_bytes = data\<rparr>),
                      drop (len - 2) (drop 2 buf')))
          else (case deser (take len buf') of
              None \<Rightarrow> (Failed EncodingError, drop len buf')
            | Some result \<Rightarrow> (Parsed result, drop len buf')))"

subsection \<open>The codec\<close>

datatype packet_codec_error = MaxLineLengthExceeded | PacketCodec packet_error | Io

text \<open>\<open>None\<close> stands for a panic inside the decoder.\<close>

definition codec_decode ::
  "(bytes \<Rightarrow> socket_packet option) \<Rightarrow> bytes
     \<Rightarrow> (packet_codec_error + socket_packet option) option \<times> bytes" where
  "codec_decode deser buf =
    (if buf = [] then (Some (Inr None), buf)
     else case decode_from deser buf of
       (Incomplete, rest) \<Rightarrow> (Some (Inr None), rest)
     | (Failed e, rest) \<Rightarrow> (Some (Inl (PacketCodec e)), rest)
     | (Panicked, rest) \<Rightarrow> (None, rest)
     | (Parsed p, rest) \<Rightarrow> (Some (Inr (Some p)), rest))"

definition codec_encode ::
  "(socket_packet \<Rightarrow> bytes option) \<Rightarrow> socket_packet \<Rightarrow> bytes \<Rightarrow> packet_codec_error + bytes" where
  "codec_encode ser pkg buf = (case encode_into ser pkg buf of Inl e \<Rightarrow> Inl Io | Inr b \<Rightarrow> Inr b)"

definition codec_encode_bytes :: "bytes \<Rightarrow> bytes \<Rightarrow> packet_codec_error + bytes" where
  "codec_encode_bytes data buf = Inr (buf @ data)"

subsection \<open>The frame header\<close>

definition header :: "bytes \<Rightarrow> u16" where
  "header buf = of_be (take 2 buf)"

definition frame_len :: "bytes \<Rightarrow> nat" where
  "frame_len buf = unat (take_bit 15 (header buf))"

definition is_data_frame :: "bytes \<Rightarrow> bool" where
  "is_data_frame buf = bit (header buf) 15"

lemma bit_top: "bit (32768 :: u16) n \<longleftrightarrow> n = 15"
proof -
  have "(32768 :: u16) = push_bit 15 1" by simp
  then show ?thesis by (auto simp only: bit_simps) simp_all
qed

lemma and_top_bit: "(w :: u16) AND push_bit 15 1 \<noteq> 0 \<longleftrightarrow> bit w 15"
  using and_exp_eq_0_iff_not_bit[of w 15] by (simp add: push_bit_eq_mult)

lemma and_low_bits: "(w :: u16) AND NOT (push_bit 15 1) = take_bit 15 w"
proof -
  have "NOT (push_bit 15 1) = (mask 15 :: u16)" by (simp add: mask_eq_exp_minus_1)
  then show ?thesis by (simp only: take_bit_eq_mask)
qed

lemma frame_len_less: "frame_len buf < 2 ^ 15"
proof -
  have "frame_len buf = take_bit 15 (unat (header buf))"
    by (simp add: frame_len_def unsigned_take_bit_eq)
  also have "\<dots> < 2 ^ 15" by (rule take_bit_nat_less_exp)
  finally show ?thesis .
qed

text \<open>
  \<^verbatim>\<open>decode_from\<close> over the header: the branch \<^verbatim>\<open>TooLong\<close> is never taken, because fifteen bits
  cannot exceed \<^verbatim>\<open>MAXIMUM_PACKET_SIZE\<close>.
\<close>

lemma decode_from_header:
  "decode_from deser buf =
    (if length buf < 2 \<or> length buf < frame_len buf + 2 then (Incomplete, buf)
     else if is_data_frame buf then
       (if frame_len buf < 2 then (Panicked, drop 2 buf)
        else (Parsed (ProxyData \<lparr>data_client_id = unat (of_be (take 2 (drop 2 buf)) :: u16),
                                 data_bytes = take (frame_len buf - 2) (drop 4 buf)\<rparr>),
              drop (frame_len buf + 2) buf))
     else (case deser (take (frame_len buf) (drop 2 buf)) of
         None \<Rightarrow> (Failed EncodingError, drop (frame_len buf + 2) buf)
       | Some p \<Rightarrow> (Parsed p, drop (frame_len buf + 2) buf)))"
proof -
  have small: "\<not> frame_len buf > MAXIMUM_PACKET_SIZE"
    using frame_len_less[of buf] by (simp add: MAXIMUM_PACKET_SIZE_def)
  have len: "unat ((of_be (take 2 buf) :: u16) AND NOT (push_bit 15 1)) = frame_len buf"
    by (simp only: and_low_bits frame_len_def header_def)
  have top: "(of_be (take 2 buf) :: u16) AND push_bit 15 1 \<noteq> 0 \<longleftrightarrow> is_data_frame buf"
    by (simp only: and_top_bit is_data_frame_def header_def)
  show ?thesis
  proof (cases "length buf < 2 \<or> length buf < frame_len buf + 2")
    case True
    then show ?thesis unfolding decode_from_def Let_def len by auto
  next
    case False
    then show ?thesis
      unfolding decode_from_def Let_def len top
      by (cases "deser (take (frame_len buf) (drop 2 buf))") (auto simp: small add.commute)
  qed
qed

lemma header_append: "2 \<le> length buf \<Longrightarrow> header (buf @ ext) = header buf"
  by (simp add: header_def)

lemma frame_len_append: "2 \<le> length buf \<Longrightarrow> frame_len (buf @ ext) = frame_len buf"
  by (simp add: frame_len_def header_append)

lemma is_data_frame_append: "2 \<le> length buf \<Longrightarrow> is_data_frame (buf @ ext) = is_data_frame buf"
  by (simp add: is_data_frame_def header_append)

lemma decode_from_more:
  assumes "decode_from deser buf = (out, rest)" "out \<noteq> Incomplete"
  shows "decode_from deser (buf @ ext) = (out, rest @ ext)"
proof -
  let ?n = "frame_len buf"
  from assms have l: "2 \<le> length buf" "?n + 2 \<le> length buf"
    by (auto simp: decode_from_header split: if_splits)
  then have h: "frame_len (buf @ ext) = ?n" "is_data_frame (buf @ ext) = is_data_frame buf"
    by (simp_all add: frame_len_append is_data_frame_append)
  have d: "drop (?n + 2) (buf @ ext) = drop (?n + 2) buf @ ext" "drop 2 (buf @ ext) = drop 2 buf @ ext"
    and t: "take ?n (drop 2 (buf @ ext)) = take ?n (drop 2 buf)"
    using l by simp_all
  show ?thesis
  proof (cases "is_data_frame buf")
    case True
    have c: "2 \<le> ?n \<Longrightarrow> take 2 (drop 2 (buf @ ext)) = take 2 (drop 2 buf)"
      "2 \<le> ?n \<Longrightarrow> take (?n - 2) (drop 4 (buf @ ext)) = take (?n - 2) (drop 4 buf)"
      using l by simp_all
    show ?thesis
      using assms(1) l True c unfolding decode_from_header h d by (cases "?n < 2") auto
  next
    case False
    then show ?thesis
      using assms(1) l unfolding decode_from_header h d t
      by (cases "deser (take ?n (drop 2 buf))") auto
  qed
qed

lemma decode_from_wait: "decode_from deser buf = (Incomplete, rest) \<Longrightarrow> rest = buf"
  by (auto simp: decode_from_header split: if_splits option.splits)

lemma decode_from_consumes: "decode_from deser buf = (Parsed p, rest) \<Longrightarrow> length rest < length buf"
  by (auto simp: decode_from_header split: if_splits option.splits)

lemma decode_from_empty: "decode_from deser [] = (Incomplete, [])"
  by (simp add: decode_from_def)

subsection \<open>The receive loop\<close>

text \<open>
  Decoding until the buffer holds no complete frame any more, as \<^verbatim>\<open>FramedRead\<close> does and as the test
  \<^verbatim>\<open>partial_decoding\<close> writes it out.
\<close>

function drain :: "(bytes \<Rightarrow> socket_packet option) \<Rightarrow> bytes \<Rightarrow> socket_packet receiver" where
  "drain deser buf = (case decode_from deser buf of
     (Parsed p, rest) \<Rightarrow> (case drain deser rest of (ps, out, rest') \<Rightarrow> (p # ps, out, rest'))
   | (out, rest) \<Rightarrow> ([], out, rest))"
  by auto
termination by (relation "measure (length \<circ> snd)") (auto dest!: sym[of "(_, _)"] decode_from_consumes)

declare drain.simps [simp del]

text \<open>The bytes one packet takes on the wire, and when a packet can be sent faithfully.\<close>

definition frame :: "(socket_packet \<Rightarrow> bytes option) \<Rightarrow> socket_packet \<Rightarrow> bytes" where
  "frame ser p = (case encode_into ser p [] of Inr bs \<Rightarrow> bs | Inl e \<Rightarrow> [])"

definition sendable ::
  "(socket_packet \<Rightarrow> bytes option) \<Rightarrow> (bytes \<Rightarrow> socket_packet option) \<Rightarrow> socket_packet \<Rightarrow> bool" where
  "sendable ser deser p = (case p of
     ProxyData d \<Rightarrow> length (data_bytes d) \<le> 32765 \<and> data_client_id d < 2 ^ 16
   | _ \<Rightarrow> (case ser p of
       None \<Rightarrow> False
     | Some bs \<Rightarrow> length bs < 2 ^ 15 \<and> deser bs = Some p))"

lemma encode_into_frame:
  "encode_into ser p [] = Inr f \<Longrightarrow> encode_into ser p buf = Inr (buf @ frame ser p)"
  by (cases p) (auto simp: encode_into_def frame_def Let_def split: option.splits)

lemma header_be [simp]: "header (be_bytes 2 w @ bs) = w"
  by (simp add: header_def)

lemma unat_low_bits: "unat (take_bit 15 (of_nat n :: u16)) = n mod 2 ^ 15"
proof -
  have "unat (take_bit 15 (of_nat n :: u16)) = take_bit 15 (n mod 2 ^ 16)"
    by (simp only: unsigned_take_bit_eq unat_of_nat) simp
  also have "\<dots> = n mod 2 ^ 15" by (simp add: take_bit_eq_mod mod_mod_cancel)
  finally show ?thesis .
qed

lemma header_data:
  fixes n :: nat
  defines "w \<equiv> (of_nat n :: u16) OR push_bit 15 1"
  shows "unat (take_bit 15 w) = n mod 2 ^ 15" and "bit w 15"
proof -
  have "take_bit 15 w = take_bit 15 (of_nat n :: u16)"
    unfolding w_def by (rule bit_word_eqI) (auto simp: bit_simps bit_top)
  then show "unat (take_bit 15 w) = n mod 2 ^ 15" by (simp only: unat_low_bits)
  show "bit w 15" unfolding w_def by (simp add: bit_simps bit_top)
qed

lemma header_packet:
  assumes "n < 2 ^ 15"
  shows "unat (take_bit 15 (of_nat n :: u16)) = n" and "\<not> bit (of_nat n :: u16) 15"
proof -
  show "unat (take_bit 15 (of_nat n :: u16)) = n"
    using assms by (simp only: unat_low_bits) simp
  show "\<not> bit (of_nat n :: u16) 15"
    using assms by (simp add: bit_of_nat_iff bit_nat_def)
qed

lemma frame_data: "frame ser (ProxyData d) =
    be_bytes 2 ((of_nat (length (data_bytes d) + 2) :: u16) OR push_bit 15 1)
      @ be_bytes 2 (of_nat (data_client_id d) :: u16) @ data_bytes d"
  by (simp add: frame_def encode_into_def Let_def)

lemma frame_packet: "ser p = Some bs \<Longrightarrow> (\<And>d. p \<noteq> ProxyData d)
    \<Longrightarrow> frame ser p = be_bytes 2 (of_nat (length bs) :: u16) @ bs"
  by (cases p) (auto simp: frame_def encode_into_def)

text \<open>A frame of a sendable packet announces its own length.\<close>

lemma sendable_cases:
  assumes "sendable ser deser p"
  obtains d where "p = ProxyData d" "length (data_bytes d) \<le> 32765" "data_client_id d < 2 ^ 16"
  | bs where "ser p = Some bs" "length bs < 2 ^ 15" "deser bs = Some p" "\<And>d. p \<noteq> ProxyData d"
  using assms by (cases p) (auto simp: sendable_def split: option.splits)

lemma sendable_frame_len:
  assumes "sendable ser deser p"
  shows "frame_len (frame ser p @ rest) + 2 = length (frame ser p)"
  using assms
proof (cases rule: sendable_cases)
  case (1 d)
  have "frame_len (frame ser p @ rest) = (length (data_bytes d) + 2) mod 2 ^ 15"
    by (simp only: 1(1) frame_data frame_len_def header_be append_assoc header_data(1))
  with 1 show ?thesis by (simp add: frame_data)
next
  case (2 bs)
  then show ?thesis by (simp add: frame_packet frame_len_def header_packet)
qed

lemma sendable_frame_ge2: "sendable ser deser p \<Longrightarrow> 2 \<le> length (frame ser p)"
  using sendable_frame_len[of ser deser p "[]"] by simp

lemma decode_frame:
  assumes "sendable ser deser p"
  shows "decode_from deser (frame ser p @ rest) = (Parsed p, rest)"
  using assms
proof (cases rule: sendable_cases)
  case (1 d)
  have n: "frame_len (frame ser p @ rest) = length (data_bytes d) + 2"
    using sendable_frame_len[OF assms, of rest] 1(1) by (simp add: frame_data)
  have dat: "is_data_frame (frame ser p @ rest)"
    by (simp only: 1(1) frame_data is_data_frame_def header_be append_assoc header_data(2))
  have "unat (of_nat (data_client_id d) :: u16) = data_client_id d"
    using 1(3) by (simp add: unat_of_nat)
  then show ?thesis
    unfolding decode_from_header n using dat by (simp add: 1(1) frame_data)
next
  case (2 bs)
  have f: "frame ser p = be_bytes 2 (of_nat (length bs) :: u16) @ bs"
    by (rule frame_packet) (use 2 in auto)
  have n: "frame_len (frame ser p @ rest) = length bs"
    using sendable_frame_len[OF assms, of rest] by (simp add: f)
  have "\<not> is_data_frame (frame ser p @ rest)"
    using 2(2) by (simp add: f is_data_frame_def header_packet)
  then show ?thesis
    unfolding decode_from_header n using 2 by (simp add: f)
qed

lemma decode_short:
  assumes "sendable ser deser p" "strict_prefix bs (frame ser p)"
  shows "decode_from deser bs = (Incomplete, bs)"
proof -
  obtain t where t: "frame ser p = bs @ t" "t \<noteq> []"
    using assms(2) by (auto simp: strict_prefix_def prefix_def)
  show ?thesis
  proof (cases "length bs < 2")
    case True
    then show ?thesis by (simp add: decode_from_header)
  next
    case False
    then have "frame_len bs + 2 = length (bs @ t)"
      using sendable_frame_len[OF assms(1), of "[]"] by (simp add: t(1) frame_len_append)
    moreover have "0 < length t" using t(2) by simp
    ultimately have "length bs < frame_len bs + 2" by simp
    then show ?thesis by (simp add: decode_from_header)
  qed
qed

interpretation wire: frame_codec "decode_from deser" "drain deser" "frame ser" "sendable ser deser"
  for deser ser
  by (unfold_locales; (rule decode_from_more decode_from_wait decode_from_consumes
      decode_from_empty drain.simps decode_frame decode_short)?; assumption?)

lemma decode_from_failures_aux:
  "fst (decode_from deser buf) \<noteq> Failed TooLong
   \<and> (fst (decode_from deser buf) = Panicked \<longleftrightarrow>
       2 \<le> length buf \<and> is_data_frame buf \<and> frame_len buf < 2
         \<and> frame_len buf + 2 \<le> length buf)"
proof (cases "length buf < 2 \<or> length buf < frame_len buf + 2")
  case True
  then show ?thesis by (auto simp: decode_from_header)
next
  case False
  then show ?thesis
    by (cases "is_data_frame buf"; cases "frame_len buf < 2";
        cases "deser (take (frame_len buf) (drop 2 buf))") (simp_all add: decode_from_header)
qed

subsection \<open>Properties\<close>

text \<open>
  The bincode format (little-endian, a four byte variant index) of the packets the witnesses
  send, to instantiate the parameters \<open>ser\<close> and \<open>deser\<close>.
\<close>

definition sample_ser :: "socket_packet \<Rightarrow> bytes option" where
  "sample_ser p = (case p of
     ProxyPing n \<Rightarrow> Some ([9, 0, 0, 0] @ rev (be_bytes 2 n))
   | ProxyPong n \<Rightarrow> Some ([10, 0, 0, 0] @ rev (be_bytes 2 n))
   | ProxyJoin i \<Rightarrow> Some ([4, 0, 0, 0] @ rev (be_bytes 8 (of_nat i :: u64)))
   | _ \<Rightarrow> None)"

definition sample_deser :: "bytes \<Rightarrow> socket_packet option" where
  "sample_deser bs = (if length bs = 12 \<and> take 4 bs = [4, 0, 0, 0]
       then Some (ProxyJoin (unat (of_be (rev (drop 4 bs)) :: u64)))
     else if length bs \<noteq> 6 then None
     else if take 4 bs = [9, 0, 0, 0] then Some (ProxyPing (of_be (rev (drop 4 bs))))
     else if take 4 bs = [10, 0, 0, 0] then Some (ProxyPong (of_be (rev (drop 4 bs)))) else None)"

definition sample_data :: socket_packet where
  "sample_data = ProxyData \<lparr>data_client_id = 0x1234, data_bytes = str_lit ''12345''\<rparr>"

lemma rev_be_bytes_2: "rev (be_bytes 2 (n :: u16)) = [ucast n, ucast (drop_bit 8 n)]"
  by (simp add: numeral_2_eq_2)

lemma sample_sendable [simp]:
  "sendable sample_ser sample_deser (ProxyPing n)" "sendable sample_ser sample_deser (ProxyPong n)"
proof -
  have "of_be [ucast (drop_bit 8 n) :: u8, ucast n] = n"
    using of_be_bytes_all[of 2 n] by (simp add: numeral_2_eq_2)
  then show "sendable sample_ser sample_deser (ProxyPing n)"
    "sendable sample_ser sample_deser (ProxyPong n)"
    by (simp_all add: sendable_def sample_ser_def sample_deser_def rev_be_bytes_2)
qed

lemma sample_sendable_join [simp]: "i < 2 ^ 64 \<Longrightarrow> sendable sample_ser sample_deser (ProxyJoin i)"
proof -
  assume "i < 2 ^ 64"
  then have "unat (of_nat i :: u64) = i" by (simp add: unat_of_nat)
  then show "sendable sample_ser sample_deser (ProxyJoin i)"
    by (simp add: sendable_def sample_ser_def sample_deser_def)
qed

text \<open>
  C6. What is sent is what is received: for packets that can be sent (data of at most 32765 bytes
  with an id below \<open>2 ^ 16\<close>, other packets with a serialisation below \<open>2 ^ 15\<close> bytes that bincode
  reads back), however TCP cuts the stream of their frames, the receiver gets those packets, in
  order, and nothing is left over. While the last frame \<open>bs\<close> is incomplete, it gets the packets
  before it and keeps \<open>bs\<close>.
\<close>

theorem receive_any_chunking:
  assumes "list_all (sendable ser deser) ps" and "sendable ser deser p"
    and "concat chunks = concat (map (frame ser) ps) @ bs"
    and "strict_prefix bs (frame ser p)"
  shows "receive (drain deser) chunks = (ps, Incomplete, bs)"
  using assms by (rule wire.receive_partial)

theorem receive_any_chunking_witness:
  "receive (drain sample_deser)
     [take 5 (frame sample_ser (ProxyPing 1)), drop 5 (frame sample_ser (ProxyPing 1)) @ take 1 (frame sample_ser sample_data),
      drop 1 (frame sample_ser sample_data), take 3 (frame sample_ser (ProxyPong 7))]
   = ([ProxyPing 1, sample_data], Incomplete, take 3 (frame sample_ser (ProxyPong 7)))"
proof (rule receive_any_chunking)
  show "list_all (sendable sample_ser sample_deser) [ProxyPing 1, sample_data]"
    by (simp add: sample_data_def) (simp add: sendable_def)
  show "sendable sample_ser sample_deser (ProxyPong 7)" by simp
  have cut: "take n xs @ drop n xs @ ys = xs @ ys" for n :: nat and xs ys :: bytes
    by (metis append_assoc append_take_drop_id)
  show "concat [take 5 (frame sample_ser (ProxyPing 1)),
      drop 5 (frame sample_ser (ProxyPing 1)) @ take 1 (frame sample_ser sample_data), drop 1 (frame sample_ser sample_data),
      take 3 (frame sample_ser (ProxyPong 7))]
    = concat (map (frame sample_ser) [ProxyPing 1, sample_data])
      @ take 3 (frame sample_ser (ProxyPong 7))"
    by (simp only: concat.simps list.map append_assoc append_Nil2 cut)
  have eight: "length (frame sample_ser (ProxyPong 7)) = 8"
    by (simp add: frame_def encode_into_def sample_ser_def)
  then have "length (take 3 (frame sample_ser (ProxyPong 7))) = 3" by simp
  with eight have "take 3 (frame sample_ser (ProxyPong 7)) \<noteq> frame sample_ser (ProxyPong 7)"
    by (intro notI) simp
  then show "strict_prefix (take 3 (frame sample_ser (ProxyPong 7))) (frame sample_ser (ProxyPong 7))"
    by (simp add: strict_prefix_def take_is_prefix)
qed

text \<open>
  C27. The packets delivered are a function of the bytes, even of hostile ones: any chunking of a
  stream gives the packets, the error and the left-over bytes that one read of the whole stream
  gives.
\<close>

theorem receive_chunks: "receive (drain deser) chunks = drain deser (concat chunks)"
  by (rule wire.receive_dr)

text \<open>
  C28. When the decoder fails: it never answers \<^verbatim>\<open>TooLong\<close>, and it panics exactly on a complete
  data frame that announces less than the two bytes of its client id.
\<close>

theorem decode_from_failures:
  "fst (decode_from deser buf) \<noteq> Failed TooLong
   \<and> (fst (decode_from deser buf) = Panicked \<longleftrightarrow>
       2 \<le> length buf \<and> is_data_frame buf \<and> frame_len buf < 2
         \<and> frame_len buf + 2 \<le> length buf)"
  by (rule decode_from_failures_aux)

text \<open>
  What the receiver makes of a data packet of any size. The header has fifteen bits for the
  length, so the length announced is that of the data plus two, modulo \<open>2 ^ 15\<close>: with more than
  32765 bytes of data the receiver panics, or takes the first bytes as the data and reads the
  others as the next frames.
\<close>

lemma data_frame_decoded:
  fixes d :: proxy_data_packet
  defines "k \<equiv> (length (data_bytes d) + 2) mod 2 ^ 15"
  shows "decode_from deser (frame ser (ProxyData d) @ rest) =
    (if k < 2 then (Panicked, drop 2 (frame ser (ProxyData d)) @ rest)
     else (Parsed (ProxyData \<lparr>data_client_id = data_client_id d mod 2 ^ 16,
                              data_bytes = take (k - 2) (data_bytes d)\<rparr>),
           drop (k - 2) (data_bytes d) @ rest))"
proof -
  let ?buf = "frame ser (ProxyData d) @ rest"
  have n: "frame_len ?buf = k"
    by (simp only: k_def frame_data frame_len_def header_be append_assoc header_data(1))
  have dat: "is_data_frame ?buf"
    by (simp only: frame_data is_data_frame_def header_be append_assoc header_data(2))
  have "k \<le> length (data_bytes d) + 2" by (simp only: k_def mod_less_eq_dividend)
  moreover have "unat (of_nat (data_client_id d) :: u16) = data_client_id d mod 2 ^ 16"
    by (simp add: unat_of_nat)
  moreover have "length (frame ser (ProxyData d)) = length (data_bytes d) + 4"
    by (simp add: frame_data)
  ultimately show ?thesis
    unfolding decode_from_header n using dat by (simp add: frame_data)
qed

lemma data_frame_panics:
  "(length (data_bytes d) + 2) mod 2 ^ 15 < 2
    \<Longrightarrow> fst (decode_from deser (frame ser (ProxyData d) @ rest)) = Panicked"
  by (simp add: data_frame_decoded)

end
