(* ===== verification/Crypto.thy ===== *)
theory Crypto
  imports Socket_Packet
begin

text \<open>
  Keys, signatures and hostnames: \<^verbatim>\<open>crates/protocol/src/crypto.rs\<close>. The crates ring, base_x and
  hex are the parameter \<open>api\<close>; what the code relies on is collected in \<open>ring_ok\<close>.
\<close>

subsection \<open>The libraries\<close>

record ring_api =
  generate_pkcs8 :: "bytes \<Rightarrow> bytes option"
  pkcs8_public :: "bytes \<Rightarrow> bytes option"
  pkcs8_sign :: "bytes \<Rightarrow> bytes \<Rightarrow> bytes option"
  ed25519_verify :: "bytes \<Rightarrow> bytes \<Rightarrow> bytes \<Rightarrow> bool"
  sha256 :: "bytes \<Rightarrow> bytes"
  base_encode :: "str \<Rightarrow> bytes \<Rightarrow> str"
  base_decode :: "str \<Rightarrow> str \<Rightarrow> bytes option"
  hex_encode :: "bytes \<Rightarrow> str"
  hex_decode :: "str \<Rightarrow> bytes option"

definition BASE36_ENCODER_STRING :: str where
  "BASE36_ENCODER_STRING = str_lit ''0123456789abcdefghijklmnopqrstuvwxyz''"
definition PREFIX :: str where "PREFIX = str_lit ''CraftIPServerHost''"
definition HOSTNAME_LENGTH :: nat where "HOSTNAME_LENGTH = 20"

text \<open>
  What is relied on: a signature made with a key pair is accepted under its public key, keys and
  signatures have the lengths of Ed25519, a digest has 32 bytes, encodings are decoded back, and
  a base-36 text uses the given letters, at least one for each byte.
\<close>

definition ring_ok :: "ring_api \<Rightarrow> bool" where
  "ring_ok api \<longleftrightarrow>
     (\<forall>sk pk. pkcs8_public api sk = Some pk \<longrightarrow> length pk = 32 \<and>
        (\<forall>m. \<exists>s. pkcs8_sign api sk m = Some s \<and> length s = 64 \<and> ed25519_verify api pk m s))
   \<and> (\<forall>bs. length (sha256 api bs) = 32)
   \<and> (\<forall>bs. base_decode api BASE36_ENCODER_STRING (base_encode api BASE36_ENCODER_STRING bs) = Some bs
        \<and> set (base_encode api BASE36_ENCODER_STRING bs) \<subseteq> set BASE36_ENCODER_STRING
        \<and> length bs \<le> length (base_encode api BASE36_ENCODER_STRING bs))
   \<and> (\<forall>bs. hex_decode api (hex_encode api bs) = Some bs)"

subsection \<open>Keys\<close>

record server_private_key =
  private_key_bytes :: bytes

datatype key_error = InvalidHexString | InvalidBase36String | InvalidLength
datatype crypto_error = CryptoFailed

definition wf_private_key :: "server_private_key \<Rightarrow> bool" where
  "wf_private_key sk \<longleftrightarrow> length (private_key_bytes sk) = 83"

definition wf_public_key :: "server_public_key \<Rightarrow> bool" where
  "wf_public_key pk \<longleftrightarrow> length (public_key_bytes pk) = 32"

text \<open>The free function \<^verbatim>\<open>create_challenge\<close>: what is signed is the challenge behind a prefix.\<close>

definition prefixed_challenge :: "bytes \<Rightarrow> bytes" where
  "prefixed_challenge data = PREFIX @ data"

text \<open>In the functions below \<open>None\<close> is a panic: an \<^verbatim>\<open>unwrap\<close> or a slice copy of the wrong length.\<close>

definition private_key_default :: "ring_api \<Rightarrow> bytes \<Rightarrow> server_private_key option" where
  "private_key_default api rng = (case generate_pkcs8 api rng of
     None \<Rightarrow> None
   | Some key \<Rightarrow> if length key = 83 then Some \<lparr>private_key_bytes = key\<rparr> else None)"

definition private_key_try_from :: "ring_api \<Rightarrow> str \<Rightarrow> key_error + server_private_key" where
  "private_key_try_from api value = (case hex_decode api value of
     None \<Rightarrow> Inl InvalidHexString
   | Some key_vec \<Rightarrow> if length key_vec \<noteq> 83 then Inl InvalidLength
                      else Inr \<lparr>private_key_bytes = key_vec\<rparr>)"

definition sign :: "ring_api \<Rightarrow> server_private_key \<Rightarrow> bytes \<Rightarrow> signature option" where
  "sign api sk data = (case pkcs8_sign api (private_key_bytes sk) (prefixed_challenge data) of
     None \<Rightarrow> None
   | Some signature \<Rightarrow> if length signature = 64 then Some signature else None)"

definition get_public_key :: "ring_api \<Rightarrow> server_private_key \<Rightarrow> server_public_key option" where
  "get_public_key api sk = (case pkcs8_public api (private_key_bytes sk) of
     None \<Rightarrow> None
   | Some pk \<Rightarrow> if length pk = 32 then Some \<lparr>public_key_bytes = pk\<rparr> else None)"

definition private_key_to_string :: "ring_api \<Rightarrow> server_private_key \<Rightarrow> str" where
  "private_key_to_string api sk = hex_encode api (private_key_bytes sk)"

definition public_key_try_from :: "ring_api \<Rightarrow> str \<Rightarrow> key_error + server_public_key" where
  "public_key_try_from api value = (case base_decode api BASE36_ENCODER_STRING value of
     None \<Rightarrow> Inl InvalidBase36String
   | Some bs \<Rightarrow> if length bs \<noteq> 32 then Inl InvalidLength else Inr \<lparr>public_key_bytes = bs\<rparr>)"

definition public_key_to_string :: "ring_api \<Rightarrow> server_public_key \<Rightarrow> str" where
  "public_key_to_string api pk = base_encode api BASE36_ENCODER_STRING (public_key_bytes pk)"

definition get_host :: "ring_api \<Rightarrow> server_public_key \<Rightarrow> str" where
  "get_host api pk =
    (let checksum = sha256 api (PREFIX @ public_key_bytes pk)
     in take HOSTNAME_LENGTH (base_encode api BASE36_ENCODER_STRING checksum))"

definition get_hostname :: "ring_api \<Rightarrow> server_public_key \<Rightarrow> str" where
  "get_hostname api pk = get_host api pk @ KEY_SERVER_SUFFIX"

text \<open>\<^verbatim>\<open>rng.fill\<close> gives 64 random bytes or an error.\<close>

definition create_challenge :: "bytes option \<Rightarrow> crypto_error + challenge" where
  "create_challenge rng = (case rng of None \<Rightarrow> Inl CryptoFailed | Some r \<Rightarrow> Inr r)"

definition verify :: "ring_api \<Rightarrow> server_public_key \<Rightarrow> challenge \<Rightarrow> signature \<Rightarrow> bool" where
  "verify api pk data signature =
     ed25519_verify api (public_key_bytes pk) (prefixed_challenge data) signature"

subsection \<open>Lemmas\<close>

lemma sign_verifies:
  assumes "ring_ok api" "get_public_key api sk = Some pk"
  obtains s where "sign api sk data = Some s" "verify api pk data s" "length s = 64"
proof -
  from assms(2) have "pkcs8_public api (private_key_bytes sk) = Some (public_key_bytes pk)"
    by (auto simp: get_public_key_def split: option.splits if_splits)
  with assms(1) obtain s where "pkcs8_sign api (private_key_bytes sk) (prefixed_challenge data) = Some s"
    "length s = 64" "ed25519_verify api (public_key_bytes pk) (prefixed_challenge data) s"
    unfolding ring_ok_def by blast
  then show thesis by (intro that[of s]) (simp_all add: sign_def verify_def)
qed

lemma get_public_key_wf: "get_public_key api sk = Some pk \<Longrightarrow> wf_public_key pk"
  by (auto simp: get_public_key_def wf_public_key_def split: option.splits if_splits)

lemma length_get_host:
  assumes "ring_ok api"
  shows "length (get_host api pk) = 20"
proof -
  let ?d = "sha256 api (PREFIX @ public_key_bytes pk)"
  have "length ?d = 32" using assms by (simp add: ring_ok_def)
  moreover have "length ?d \<le> length (base_encode api BASE36_ENCODER_STRING ?d)"
    using assms unfolding ring_ok_def by blast
  ultimately have "32 \<le> length (base_encode api BASE36_ENCODER_STRING ?d)" by simp
  then show ?thesis by (simp add: get_host_def HOSTNAME_LENGTH_def Let_def)
qed

lemma get_host_letters: "ring_ok api \<Longrightarrow> set (get_host api pk) \<subseteq> set BASE36_ENCODER_STRING"
  unfolding ring_ok_def get_host_def Let_def by (meson order_trans set_take_subset)

lemma not_letter: "0x2E \<notin> set BASE36_ENCODER_STRING" "0x2D \<notin> set BASE36_ENCODER_STRING"
  by (simp_all add: BASE36_ENCODER_STRING_def str_lit_def)

text \<open>
  Keys can be written down and read back: the hex text of a private key and the base-36 text
  of a public key are parsed to the same key, and \<^verbatim>\<open>sign\<close> with a private key gives a signature that
  \<^verbatim>\<open>verify\<close> accepts under its public key, without a panic.
\<close>

lemma keys_roundtrip:
  assumes "ring_ok api" "wf_private_key sk" "get_public_key api sk = Some pk"
  shows "private_key_try_from api (private_key_to_string api sk) = Inr sk
    \<and> public_key_try_from api (public_key_to_string api pk) = Inr pk
    \<and> (\<exists>s. sign api sk data = Some s \<and> verify api pk data s)"
proof -
  have "hex_decode api (hex_encode api (private_key_bytes sk)) = Some (private_key_bytes sk)"
    and "base_decode api BASE36_ENCODER_STRING
      (base_encode api BASE36_ENCODER_STRING (public_key_bytes pk)) = Some (public_key_bytes pk)"
    using assms(1) by (auto simp: ring_ok_def)
  moreover obtain s where "sign api sk data = Some s" "verify api pk data s"
    using sign_verifies[OF assms(1,3)] by blast
  ultimately show ?thesis
    using assms(2) get_public_key_wf[OF assms(3)]
    by (simp add: private_key_try_from_def private_key_to_string_def public_key_try_from_def
        public_key_to_string_def wf_private_key_def wf_public_key_def)
qed

subsection \<open>A concrete library\<close>

text \<open>A small instance of the parameters, for the witnesses: two letters for each byte.\<close>

definition letter_index :: "str \<Rightarrow> u8 \<Rightarrow> nat" where
  "letter_index al c = length (takeWhile (\<lambda>x. x \<noteq> c) al)"

definition pair_encode :: "str \<Rightarrow> bytes \<Rightarrow> str" where
  "pair_encode al bs = concat (map (\<lambda>b. [al ! (unat b div 16), al ! (unat b mod 16)]) bs)"

fun pair_decode :: "str \<Rightarrow> str \<Rightarrow> bytes option" where
  "pair_decode al [] = Some []"
| "pair_decode al [c] = None"
| "pair_decode al (c # d # s) =
     map_option (Cons (of_nat (16 * letter_index al c + letter_index al d))) (pair_decode al s)"

definition sample_api :: ring_api where
  "sample_api = \<lparr>generate_pkcs8 = (\<lambda>r. Some (take 83 (r @ replicate 83 0))),
     pkcs8_public = (\<lambda>sk. Some (take 32 (sk @ replicate 32 0))),
     pkcs8_sign = (\<lambda>sk m. Some (take 32 (sk @ replicate 32 0) @ take 32 (m @ replicate 32 0))),
     ed25519_verify = (\<lambda>pk m s. s = pk @ take 32 (m @ replicate 32 0)),
     sha256 = (\<lambda>bs. take 32 (rev bs @ replicate 32 0)),
     base_encode = pair_encode, base_decode = pair_decode,
     hex_encode = pair_encode BASE36_ENCODER_STRING,
     hex_decode = pair_decode BASE36_ENCODER_STRING\<rparr>"

lemma letter_index_nth: "distinct al \<Longrightarrow> i < length al \<Longrightarrow> letter_index al (al ! i) = i"
proof (induction al arbitrary: i)
  case (Cons c al)
  then show ?case by (cases i) (auto simp: letter_index_def)
qed simp

lemma pair_decode_encode:
  assumes "distinct al" "16 \<le> length al"
  shows "pair_decode al (pair_encode al bs) = Some bs"
proof (induction bs)
  case (Cons b bs)
  have "unat b < 256" using unsigned_less[of b, where 'a = nat] by simp
  then have "unat b div 16 < length al" "unat b mod 16 < length al" using assms(2) by simp_all
  with assms(1) have "of_nat (16 * letter_index al (al ! (unat b div 16))
      + letter_index al (al ! (unat b mod 16))) = b"
    by (simp add: letter_index_nth)
  with Cons show ?case by (simp add: pair_encode_def)
qed (simp add: pair_encode_def)

lemma ring_ok_sample: "ring_ok sample_api"
proof -
  let ?al = BASE36_ENCODER_STRING
  have al: "distinct ?al" "16 \<le> length ?al"
    by (simp_all add: BASE36_ENCODER_STRING_def str_lit_def)
  have "set (pair_encode ?al bs) \<subseteq> set ?al \<and> length bs \<le> length (pair_encode ?al bs)" for bs
  proof (induction bs)
    case (Cons b bs)
    have "unat b < 256" using unsigned_less[of b, where 'a = nat] by simp
    then have "unat b div 16 < length ?al" "unat b mod 16 < length ?al" using al(2) by simp_all
    with Cons show ?case by (auto simp: pair_encode_def)
  qed (simp add: pair_encode_def)
  then show ?thesis
    by (simp add: ring_ok_def sample_api_def pair_decode_encode[OF al] min_def)
qed

definition sample_key :: server_private_key where
  "sample_key = \<lparr>private_key_bytes = replicate 83 7\<rparr>"

definition sample_public :: server_public_key where
  "sample_public = \<lparr>public_key_bytes = replicate 32 7\<rparr>"

lemma sample_get_public_key: "get_public_key sample_api sample_key = Some sample_public"
  by (simp add: get_public_key_def sample_api_def sample_key_def sample_public_def
      flip: replicate_add)

end
