(* ===== verification/Utf.thy ===== *)
theory Utf
  imports Prelude
begin

text \<open>
  The parts of Rust's \<^verbatim>\<open>str\<close> that the code uses: \<^verbatim>\<open>String::from_utf8\<close>, \<^verbatim>\<open>char::decode_utf16\<close>,
  \<^verbatim>\<open>str::encode_utf16\<close>, \<^verbatim>\<open>str::split_once\<close>, \<^verbatim>\<open>str::ends_with\<close>, \<^verbatim>\<open>str::starts_with\<close> and
  \<^verbatim>\<open>str::trim_end_matches\<close>. A \<^verbatim>\<open>char\<close> is a Unicode scalar value, here a number; a string is the
  list of its UTF-8 bytes. The lemmas show that UTF-8 and UTF-16 coding are inverse to each
  other on scalar values and that every string the decoders return is valid UTF-8, which is
  the invariant of Rust's \<^verbatim>\<open>String\<close>.
\<close>

definition is_scalar :: "nat \<Rightarrow> bool" where
  "is_scalar c \<longleftrightarrow> c < 0xD800 \<or> 0xE000 \<le> c \<and> c < 0x110000"

subsection \<open>UTF-8\<close>

definition utf8_char :: "nat \<Rightarrow> bytes" where
  "utf8_char c =
     (if c < 0x80 then [of_nat c]
      else if c < 0x800 then [of_nat (0xC0 + c div 64), of_nat (0x80 + c mod 64)]
      else if c < 0x10000 then
        [of_nat (0xE0 + c div 4096), of_nat (0x80 + c div 64 mod 64), of_nat (0x80 + c mod 64)]
      else
        [of_nat (0xF0 + c div 262144), of_nat (0x80 + c div 4096 mod 64),
         of_nat (0x80 + c div 64 mod 64), of_nat (0x80 + c mod 64)])"

definition utf8_encode :: "nat list \<Rightarrow> str" where
  "utf8_encode cs = concat (map utf8_char cs)"

definition cont_byte :: "u8 \<Rightarrow> bool" where
  "cont_byte b \<longleftrightarrow> 0x80 \<le> unat b \<and> unat b \<le> 0xBF"

text \<open>The second byte of a three or four byte sequence, by its first byte.\<close>

definition second3 :: "nat \<Rightarrow> nat \<Rightarrow> bool" where
  "second3 x y \<longleftrightarrow> 0x80 \<le> y \<and> y \<le> 0xBF \<and> (x = 0xE0 \<longrightarrow> 0xA0 \<le> y) \<and> (x = 0xED \<longrightarrow> y \<le> 0x9F)"

definition second4 :: "nat \<Rightarrow> nat \<Rightarrow> bool" where
  "second4 x y \<longleftrightarrow> 0x80 \<le> y \<and> y \<le> 0xBF \<and> (x = 0xF0 \<longrightarrow> 0x90 \<le> y) \<and> (x = 0xF4 \<longrightarrow> y \<le> 0x8F)"

definition utf8_next :: "u8 \<Rightarrow> bytes \<Rightarrow> (nat \<times> bytes) option" where
  "utf8_next b r =
     (let x = unat b in
      if x \<le> 0x7F then Some (x, r)
      else if 0xC2 \<le> x \<and> x \<le> 0xDF then
        (case r of
           b1 # r1 \<Rightarrow> if cont_byte b1 then Some ((x - 0xC0) * 64 + (unat b1 - 0x80), r1) else None
         | _ \<Rightarrow> None)
      else if 0xE0 \<le> x \<and> x \<le> 0xEF then
        (case r of
           b1 # b2 # r2 \<Rightarrow>
             if second3 x (unat b1) \<and> cont_byte b2
             then Some ((x - 0xE0) * 4096 + (unat b1 - 0x80) * 64 + (unat b2 - 0x80), r2) else None
         | _ \<Rightarrow> None)
      else if 0xF0 \<le> x \<and> x \<le> 0xF4 then
        (case r of
           b1 # b2 # b3 # r3 \<Rightarrow>
             if second4 x (unat b1) \<and> cont_byte b2 \<and> cont_byte b3
             then Some ((x - 0xF0) * 262144 + (unat b1 - 0x80) * 4096
                        + (unat b2 - 0x80) * 64 + (unat b3 - 0x80), r3) else None
         | _ \<Rightarrow> None)
      else None)"

lemma utf8_next_shorter: "utf8_next b r = Some (c, r') \<Longrightarrow> length r' \<le> length r"
  by (auto simp: utf8_next_def Let_def split: if_splits list.splits)

function utf8_decode :: "bytes \<Rightarrow> nat list option" where
  "utf8_decode [] = Some []"
| "utf8_decode (b # r) =
     (case utf8_next b r of
        None \<Rightarrow> None
      | Some (c, r') \<Rightarrow> map_option (Cons c) (utf8_decode r'))"
  by pat_completeness auto
termination
  by (relation "measure length") (auto dest: utf8_next_shorter)

text \<open>\<^verbatim>\<open>String::from_utf8\<close>: the bytes themselves when they are valid, an error otherwise.\<close>

definition utf8_valid :: "bytes \<Rightarrow> bool" where
  "utf8_valid bs \<longleftrightarrow> utf8_decode bs \<noteq> None"

definition from_utf8 :: "bytes \<Rightarrow> str option" where
  "from_utf8 bs = (if utf8_valid bs then Some bs else None)"

lemma unat_byte: "n < 256 \<Longrightarrow> unat (of_nat n :: u8) = n"
  by (simp add: unat_of_nat take_bit_nat_eq_self)

lemma of_nat_unat_eq: "unat b = n \<Longrightarrow> of_nat n = (b :: 'a::len word)"
  by auto

text \<open>Decoding a character of each width, on the fields of its bytes.\<close>

lemma utf8_next2:
  assumes "2 \<le> h" "h < 32" "l < 64"
  shows "utf8_next (of_nat (0xC0 + h)) (of_nat (0x80 + l) # t) = Some (h * 64 + l, t)"
proof -
  have "unat (of_nat (0xC0 + h) :: u8) = 0xC0 + h" "unat (of_nat (0x80 + l) :: u8) = 0x80 + l"
    using assms by (simp_all add: unat_byte del: of_nat_add)
  with assms show ?thesis
    by (simp add: utf8_next_def cont_byte_def del: of_nat_add)
qed

lemma utf8_next3:
  assumes "h < 16" "m < 64" "l < 64" "h = 0 \<longrightarrow> 32 \<le> m" "h = 13 \<longrightarrow> m < 32"
  shows "utf8_next (of_nat (0xE0 + h)) (of_nat (0x80 + m) # of_nat (0x80 + l) # t)
           = Some (h * 4096 + m * 64 + l, t)"
proof -
  have "unat (of_nat (0xE0 + h) :: u8) = 0xE0 + h" "unat (of_nat (0x80 + m) :: u8) = 0x80 + m"
    "unat (of_nat (0x80 + l) :: u8) = 0x80 + l"
    using assms by (simp_all add: unat_byte del: of_nat_add)
  moreover have "h = 13 \<longrightarrow> m \<le> 31" using assms(5) by linarith
  ultimately show ?thesis
    using assms(1-4) by (simp add: utf8_next_def second3_def cont_byte_def del: of_nat_add)
qed

lemma utf8_next4:
  assumes "h < 5" "m < 64" "k < 64" "l < 64" "h = 0 \<longrightarrow> 16 \<le> m" "h = 4 \<longrightarrow> m < 16"
  shows "utf8_next (of_nat (0xF0 + h))
           (of_nat (0x80 + m) # of_nat (0x80 + k) # of_nat (0x80 + l) # t)
           = Some (h * 262144 + m * 4096 + k * 64 + l, t)"
proof -
  have "unat (of_nat (0xF0 + h) :: u8) = 0xF0 + h" "unat (of_nat (0x80 + m) :: u8) = 0x80 + m"
    "unat (of_nat (0x80 + k) :: u8) = 0x80 + k" "unat (of_nat (0x80 + l) :: u8) = 0x80 + l"
    using assms by (simp_all add: unat_byte del: of_nat_add)
  moreover have "h = 4 \<longrightarrow> m \<le> 15" using assms(6) by linarith
  ultimately show ?thesis
    using assms(1-5) by (simp add: utf8_next_def second4_def cont_byte_def del: of_nat_add)
qed

lemma split3:
  fixes c :: nat
  defines "h \<equiv> c div 4096" and "m \<equiv> c div 64 mod 64" and "l \<equiv> c mod 64"
  shows "c = h * 4096 + m * 64 + l" and "m < 64" and "l < 64"
proof -
  have "c = c div 64 * 64 + l" by (simp add: l_def)
  moreover have "c div 64 = h * 64 + m"
    by (simp add: h_def m_def div_mult2_eq[of c 64 64, simplified])
  ultimately show "c = h * 4096 + m * 64 + l" by simp
qed (simp_all add: m_def l_def)

lemma scalar_fields3:
  fixes c :: nat
  shows "c < 0x10000 \<Longrightarrow> c div 4096 < 16"
    and "c div 4096 * 4096 + c div 64 mod 64 * 64 + c mod 64 = c"
    and "0x800 \<le> c \<Longrightarrow> c div 4096 = 0 \<longrightarrow> 32 \<le> c div 64 mod 64"
    and "is_scalar c \<Longrightarrow> c div 4096 = 13 \<longrightarrow> c div 64 mod 64 < 32"
  using split3[of c] unfolding is_scalar_def by linarith+

lemma split4:
  fixes c :: nat
  shows "c = c div 262144 * 262144 + c div 4096 mod 64 * 4096 + c div 64 mod 64 * 64 + c mod 64"
    and "c div 4096 mod 64 < 64"
proof -
  have "c div 4096 = c div 262144 * 64 + c div 4096 mod 64"
    by (simp add: div_mult2_eq[of c 4096 64, simplified])
  with split3(1)[of c]
  show "c = c div 262144 * 262144 + c div 4096 mod 64 * 4096 + c div 64 mod 64 * 64 + c mod 64"
    by linarith
qed simp

lemma scalar_fields4:
  fixes c :: nat
  shows "c < 0x110000 \<Longrightarrow> c div 262144 < 5"
    and "c div 262144 * 262144 + c div 4096 mod 64 * 4096 + c div 64 mod 64 * 64 + c mod 64 = c"
    and "0x10000 \<le> c \<Longrightarrow> c div 262144 = 0 \<longrightarrow> 16 \<le> c div 4096 mod 64"
    and "c < 0x110000 \<Longrightarrow> c div 262144 = 4 \<longrightarrow> c div 4096 mod 64 < 16"
  using split4[of c] split3(2,3)[of c] by linarith+

lemma utf8_char_Cons:
  assumes "is_scalar c"
  obtains b r where "utf8_char c = b # r" and "\<And>t. utf8_next b (r @ t) = Some (c, t)"
proof -
  consider (1) "c < 0x80" | (2) "0x80 \<le> c" "c < 0x800" | (3) "0x800 \<le> c" "c < 0x10000"
    | (4) "0x10000 \<le> c" "c < 0x110000"
    using assms unfolding is_scalar_def by linarith
  then show thesis
  proof cases
    case 1
    then show thesis
      by (intro that[of "of_nat c" "[]"]) (simp_all add: utf8_char_def utf8_next_def unat_byte)
  next
    case 2
    then have "utf8_char c = [of_nat (0xC0 + c div 64), of_nat (0x80 + c mod 64)]"
      by (simp add: utf8_char_def del: of_nat_add)
    moreover have "2 \<le> c div 64" "c div 64 < 32" using 2 by linarith+
    ultimately show thesis
      by (intro that) (assumption, simp add: utf8_next2 del: of_nat_add)
  next
    case 3
    then have "utf8_char c =
      [of_nat (0xE0 + c div 4096), of_nat (0x80 + c div 64 mod 64), of_nat (0x80 + c mod 64)]"
      by (simp add: utf8_char_def del: of_nat_add)
    with 3 show thesis
      using scalar_fields3[of c] assms
      by (intro that) (assumption, simp add: utf8_next3 del: of_nat_add)
  next
    case 4
    then have "utf8_char c =
      [of_nat (0xF0 + c div 262144), of_nat (0x80 + c div 4096 mod 64),
       of_nat (0x80 + c div 64 mod 64), of_nat (0x80 + c mod 64)]"
      by (simp add: utf8_char_def del: of_nat_add)
    with 4 show thesis
      using scalar_fields4[of c]
      by (intro that) (assumption, simp add: utf8_next4 del: of_nat_add)
  qed
qed

lemma utf8_decode_encode: "\<forall>c \<in> set cs. is_scalar c \<Longrightarrow> utf8_decode (utf8_encode cs) = Some cs"
proof (induction cs)
  case Nil
  then show ?case by (simp add: utf8_encode_def)
next
  case (Cons c cs)
  then obtain b r where "utf8_char c = b # r" "\<And>t. utf8_next b (r @ t) = Some (c, t)"
    using utf8_char_Cons[of c] by (metis list.set_intros(1))
  with Cons show ?case by (simp add: utf8_encode_def)
qed

lemma utf8_valid_encode: "\<forall>c \<in> set cs. is_scalar c \<Longrightarrow> utf8_valid (utf8_encode cs)"
  by (simp add: utf8_valid_def utf8_decode_encode)

text \<open>Conversely, what the decoder accepts is the encoding of scalar values.\<close>

lemma base64_step: "(l::nat) < 64 \<Longrightarrow> (a * 64 + l) mod 64 = l" "l < 64 \<Longrightarrow> (a * 64 + l) div 64 = a"
  by simp_all

lemma utf8_next_sound:
  assumes "utf8_next b r = Some (c, r')"
  shows "is_scalar c \<and> b # r = utf8_char c @ r'"
proof -
  define x where "x = unat b"
  have b: "b = of_nat x" by (simp add: x_def)
  have self: "of_nat (unat (d :: u8)) = d" for d by simp
  consider (1) "x \<le> 0x7F" | (2) "0xC2 \<le> x" "x \<le> 0xDF" | (3) "0xE0 \<le> x" "x \<le> 0xEF"
    | (4) "0xF0 \<le> x" "x \<le> 0xF4"
    using assms by (auto simp: utf8_next_def x_def Let_def split: if_splits)
  then show ?thesis
  proof cases
    case 1
    with assms have "c = x" "r' = r" by (auto simp: utf8_next_def x_def)
    with 1 b show ?thesis by (simp add: is_scalar_def utf8_char_def)
  next
    case 2
    with assms obtain b1 where r: "r = b1 # r'" and b1: "cont_byte b1"
      and c: "c = (x - 0xC0) * 64 + (unat b1 - 0x80)"
      by (auto simp: utf8_next_def x_def Let_def split: if_splits list.splits)
    have lt: "unat b1 - 0x80 < 64" using b1 by (auto simp: cont_byte_def)
    have "c div 64 = x - 0xC0" "c mod 64 = unat b1 - 0x80" using lt by (simp_all add: c)
    moreover have "0x80 \<le> c" "c < 0x800" using 2 lt unfolding c by linarith+
    ultimately show ?thesis
      using 2 b1 by (simp add: r b is_scalar_def utf8_char_def cont_byte_def self
          del: of_nat_add of_nat_diff)
  next
    case 3
    with assms obtain b1 b2 where r: "r = b1 # b2 # r'" and b1: "second3 x (unat b1)"
      and b2: "cont_byte b2"
      and c: "c = (x - 0xE0) * 4096 + (unat b1 - 0x80) * 64 + (unat b2 - 0x80)"
      by (auto simp: utf8_next_def x_def Let_def split: if_splits list.splits)
    have lt: "unat b1 - 0x80 < 64" "unat b2 - 0x80 < 64"
      using b1 b2 by (auto simp: cont_byte_def second3_def)
    have c': "c = ((x - 0xE0) * 64 + (unat b1 - 0x80)) * 64 + (unat b2 - 0x80)"
      by (simp add: c)
    have m: "c mod 64 = unat b2 - 0x80" and d: "c div 64 = (x - 0xE0) * 64 + (unat b1 - 0x80)"
      unfolding c' using lt by (simp_all only: base64_step)
    have "c div 4096 = c div 64 div 64" by (simp add: div_mult2_eq[symmetric])
    then have d2: "c div 64 mod 64 = unat b1 - 0x80" "c div 4096 = x - 0xE0"
      unfolding d using lt by (simp_all only: base64_step)
    have rng: "0x800 \<le> c" "c < 0x10000"
      using 3 lt b1 unfolding c second3_def by linarith+
    have "c < 0xD800 \<or> 0xE000 \<le> c"
    proof (cases "x \<le> 0xED")
      case True
      moreover have "x = 0xED \<Longrightarrow> unat b1 - 0x80 < 32"
        using b1 unfolding second3_def by linarith
      ultimately have "c < 0xD800" using 3 lt unfolding c by (cases "x = 0xED") auto
      then show ?thesis by simp
    next
      case False
      then have "0xE000 \<le> c" unfolding c by linarith
      then show ?thesis by simp
    qed
    with rng 3 b1 b2 show ?thesis
      by (simp add: r b is_scalar_def utf8_char_def m d2 cont_byte_def second3_def self
          del: of_nat_add of_nat_diff)
  next
    case 4
    with assms obtain b1 b2 b3 where r: "r = b1 # b2 # b3 # r'" and b1: "second4 x (unat b1)"
      and b2: "cont_byte b2" and b3: "cont_byte b3"
      and c: "c = (x - 0xF0) * 262144 + (unat b1 - 0x80) * 4096 + (unat b2 - 0x80) * 64
                + (unat b3 - 0x80)"
      by (auto simp: utf8_next_def x_def Let_def split: if_splits list.splits)
    have lt: "unat b1 - 0x80 < 64" "unat b2 - 0x80 < 64" "unat b3 - 0x80 < 64"
      using b1 b2 b3 by (auto simp: cont_byte_def second4_def)
    have c': "c = (((x - 0xF0) * 64 + (unat b1 - 0x80)) * 64 + (unat b2 - 0x80)) * 64
                + (unat b3 - 0x80)"
      by (simp add: c)
    have m: "c mod 64 = unat b3 - 0x80"
      and d: "c div 64 = ((x - 0xF0) * 64 + (unat b1 - 0x80)) * 64 + (unat b2 - 0x80)"
      unfolding c' using lt by (simp_all only: base64_step)
    have "c div 4096 = c div 64 div 64" by (simp add: div_mult2_eq[symmetric])
    then have d2: "c div 64 mod 64 = unat b2 - 0x80"
      "c div 4096 = (x - 0xF0) * 64 + (unat b1 - 0x80)"
      unfolding d using lt by (simp_all only: base64_step)
    have "c div 262144 = c div 4096 div 64" by (simp add: div_mult2_eq[symmetric])
    then have d3: "c div 4096 mod 64 = unat b1 - 0x80" "c div 262144 = x - 0xF0"
      unfolding d2(2) using lt by (simp_all only: base64_step)
    have "0x10000 \<le> c" "c < 0x110000"
      using 4 lt b1 unfolding c second4_def by linarith+
    with 4 b1 b2 b3 show ?thesis
      by (simp add: r b is_scalar_def utf8_char_def m d2(1) d3 cont_byte_def second4_def self
          del: of_nat_add of_nat_diff)
  qed
qed

lemma utf8_decode_sound:
  "utf8_decode bs = Some cs \<Longrightarrow> (\<forall>c \<in> set cs. is_scalar c) \<and> utf8_encode cs = bs"
proof (induction bs arbitrary: cs rule: utf8_decode.induct)
  case 1
  then show ?case by (simp add: utf8_encode_def)
next
  case (2 b r)
  then obtain c r' ds where n: "utf8_next b r = Some (c, r')" and d: "utf8_decode r' = Some ds"
    and cs: "cs = c # ds"
    by (auto split: option.splits)
  from 2(1)[OF n refl d] utf8_next_sound[OF n] show ?case
    by (simp add: cs utf8_encode_def)
qed

text \<open>Cutting a valid string at a NUL byte leaves a valid string.\<close>

lemma utf8_next_nul:
  assumes "utf8_next b (r @ 0 # y) = Some (c, r')" "b \<noteq> 0"
  obtains q where "r' = q @ 0 # y" "utf8_next b r = Some (c, q)"
  using assms
  by (auto simp: utf8_next_def Let_def cont_byte_def second3_def second4_def
      Cons_eq_append_conv append_eq_Cons_conv split: if_splits list.splits)

lemma utf8_valid_cut: "utf8_valid (x @ 0 # y) \<Longrightarrow> utf8_valid x"
proof (induction x rule: utf8_decode.induct)
  case 1
  then show ?case by (simp add: utf8_valid_def)
next
  case (2 b r)
  from "2.prems" obtain c r' where n: "utf8_next b (r @ 0 # y) = Some (c, r')"
    and v: "utf8_decode r' \<noteq> None"
    by (auto simp: utf8_valid_def split: option.splits)
  obtain q where q: "r' = q @ 0 # y" "utf8_next b r = Some (c, q)"
  proof (cases "b = 0")
    case True
    with n have "r' = r @ 0 # y" "c = 0" by (auto simp: utf8_next_def)
    with True show thesis by (intro that) (auto simp: utf8_next_def)
  next
    case False
    from utf8_next_nul[OF n False] show thesis using that by blast
  qed
  with "2.IH"[OF q(2) refl] v show ?case by (auto simp: utf8_valid_def)
qed

text \<open>ASCII strings.\<close>

lemma utf8_decode_ascii: "\<forall>b \<in> set s. unat b < 0x80 \<Longrightarrow> utf8_decode s = Some (map unat s)"
  by (induction s) (auto simp: utf8_next_def)

lemma utf8_valid_ascii: "\<forall>b \<in> set s. unat b < 0x80 \<Longrightarrow> utf8_valid s"
  by (simp add: utf8_valid_def utf8_decode_ascii)

subsection \<open>UTF-16\<close>

definition utf16_char :: "nat \<Rightarrow> u16 list" where
  "utf16_char c =
     (if c < 0x10000 then [of_nat c]
      else [of_nat (0xD800 + (c - 0x10000) div 1024), of_nat (0xDC00 + (c - 0x10000) mod 1024)])"

definition encode_utf16 :: "str \<Rightarrow> u16 list" where
  "encode_utf16 s = (case utf8_decode s of None \<Rightarrow> [] | Some cs \<Rightarrow> concat (map utf16_char cs))"

fun decode_utf16 :: "u16 list \<Rightarrow> nat list option" where
  "decode_utf16 [] = Some []"
| "decode_utf16 (u # us) =
     (let x = unat u in
      if x < 0xD800 \<or> 0xDFFF < x then map_option (Cons x) (decode_utf16 us)
      else if 0xDC00 \<le> x then None
      else (case us of
              [] \<Rightarrow> None
            | u2 # us' \<Rightarrow>
                if 0xDC00 \<le> unat u2 \<and> unat u2 \<le> 0xDFFF
                then map_option (Cons (0x10000 + (x - 0xD800) * 1024 + (unat u2 - 0xDC00)))
                       (decode_utf16 us')
                else None))"

text \<open>\<^verbatim>\<open>decode_utf16(..).collect::<Result<String, _>>()\<close>.\<close>

definition from_utf16 :: "u16 list \<Rightarrow> str option" where
  "from_utf16 us = map_option utf8_encode (decode_utf16 us)"

lemma decode_utf16_scalar: "decode_utf16 us = Some cs \<Longrightarrow> \<forall>c \<in> set cs. is_scalar c"
proof (induction us arbitrary: cs rule: decode_utf16.induct)
  case 1
  then show ?case by simp
next
  case (2 u us)
  have u: "unat u < 65536" using unsigned_less[of u, where 'a=nat] by simp
  show ?case
  proof (cases "unat u < 0xD800 \<or> 0xDFFF < unat u")
    case True
    with "2.prems" obtain ds where d: "decode_utf16 us = Some ds" and cs: "cs = unat u # ds"
      by (auto simp: Let_def)
    have "\<forall>c \<in> set ds. is_scalar c" by (rule "2.IH"(1)[OF refl True d])
    with True u show ?thesis by (auto simp: cs is_scalar_def)
  next
    case False
    with "2.prems" obtain u2 us' ds where us: "us = u2 # us'" and u2: "0xDC00 \<le> unat u2"
      "unat u2 \<le> 0xDFFF" and lo: "unat u < 0xDC00"
      and d: "decode_utf16 us' = Some ds"
      and cs: "cs = (0x10000 + (unat u - 0xD800) * 1024 + (unat u2 - 0xDC00)) # ds"
      by (auto simp: Let_def split: if_splits list.splits)
    have "\<forall>c \<in> set ds. is_scalar c"
      using False lo u2 d us by (intro "2.IH"(2)[OF refl]) auto
    moreover have "is_scalar (0x10000 + (unat u - 0xD800) * 1024 + (unat u2 - 0xDC00))"
      using lo u2 False unfolding is_scalar_def by linarith
    ultimately show ?thesis by (simp add: cs)
  qed
qed

lemma from_utf16_valid: "from_utf16 us = Some s \<Longrightarrow> utf8_valid s"
  by (auto simp: from_utf16_def utf8_valid_encode dest: decode_utf16_scalar)

lemma unat_u16: "n < 65536 \<Longrightarrow> unat (of_nat n :: u16) = n"
  by (simp add: unat_of_nat take_bit_nat_eq_self)

lemma decode_utf16_char:
  assumes "is_scalar c"
  shows "decode_utf16 (utf16_char c @ us) = map_option (Cons c) (decode_utf16 us)"
proof (cases "c < 0x10000")
  case True
  with assms show ?thesis by (auto simp: utf16_char_def unat_u16 is_scalar_def)
next
  case False
  define d where "d = c - 0x10000"
  have d: "d < 1048576" "c = 0x10000 + d" using assms False by (auto simp: is_scalar_def d_def)
  have hi: "d div 1024 < 1024" using d(1) by (simp add: less_mult_imp_div_less)
  have u: "unat (of_nat (0xD800 + d div 1024) :: u16) = 0xD800 + d div 1024"
    "unat (of_nat (0xDC00 + d mod 1024) :: u16) = 0xDC00 + d mod 1024"
    by (rule unat_u16, use hi mod_less_divisor[of 1024 d] in linarith)+
  have "d mod 1024 \<le> 1023" using mod_less_divisor[of 1024 d] by linarith
  with False hi show ?thesis
    by (simp add: utf16_char_def d_def[symmetric] u Let_def d(2) add.assoc del: of_nat_add)
qed

lemma decode_encode_utf16:
  assumes "utf8_valid s"
  shows "from_utf16 (encode_utf16 s) = Some s"
proof -
  from assms obtain cs where cs: "utf8_decode s = Some cs" by (auto simp: utf8_valid_def)
  from utf8_decode_sound[OF cs] have sc: "\<forall>c \<in> set cs. is_scalar c" and s: "utf8_encode cs = s"
    by auto
  from sc have "decode_utf16 (concat (map utf16_char cs)) = Some cs"
    by (induction cs) (auto simp: decode_utf16_char)
  then show ?thesis by (simp add: from_utf16_def encode_utf16_def cs s)
qed

subsection \<open>String operations\<close>

fun split_once :: "u8 \<Rightarrow> str \<Rightarrow> (str \<times> str) option" where
  "split_once d [] = None"
| "split_once d (b # s) =
     (if b = d then Some ([], s)
      else map_option (\<lambda>(before, after). (b # before, after)) (split_once d s))"

definition ends_with :: "str \<Rightarrow> str \<Rightarrow> bool" where
  "ends_with s suf \<longleftrightarrow> length suf \<le> length s \<and> drop (length s - length suf) s = suf"

definition starts_with :: "str \<Rightarrow> str \<Rightarrow> bool" where
  "starts_with s pre \<longleftrightarrow> take (length pre) s = pre"

definition trim_end_matches :: "str \<Rightarrow> u8 \<Rightarrow> str" where
  "trim_end_matches s d = rev (dropWhile (\<lambda>b. b = d) (rev s))"

lemma split_once_SomeD:
  "split_once d s = Some (x, y) \<Longrightarrow> s = x @ d # y \<and> d \<notin> set x"
  by (induction s arbitrary: x) (auto split: if_splits)

lemma split_once_append: "d \<notin> set x \<Longrightarrow> split_once d (x @ d # y) = Some (x, y)"
  by (induction x) auto

lemma split_once_None: "split_once d s = None \<longleftrightarrow> d \<notin> set s"
  by (induction s) auto

lemma ends_with_append [simp]: "ends_with (s @ suf) suf"
  by (simp add: ends_with_def)

lemma starts_with_append [simp]: "starts_with (pre @ s) pre"
  by (simp add: starts_with_def)

lemma trim_end_matches_snoc [simp]: "trim_end_matches (s @ [d]) d = trim_end_matches s d"
  by (simp add: trim_end_matches_def)

lemma trim_end_matches_id: "s = [] \<or> last s \<noteq> d \<Longrightarrow> trim_end_matches s d = s"
  by (cases s rule: rev_cases) (auto simp: trim_end_matches_def)

end
