(* ===== verification/Register.thy ===== *)
theory Register
  imports Crypto Utf "HOL-Library.AList"
begin

text \<open>
  The register of the proxy: \<^verbatim>\<open>server/src/register.rs\<close>. It maps the hostname of every connected
  server to the channel of its session, counts the Minecraft clients, and cleans up the hostname
  a client asks for. The \<^verbatim>\<open>HashMap\<close> is an association list with distinct keys, a channel is a
  number; every operation holds the lock of the field it touches from start to end, so each is
  one atomic step.
\<close>

type_synonym channel = nat

datatype distributor_error =
    ClientNotFound
  | ServerNotFound str
  | ServerAlreadyConnected
  | ServerNotConnected str
  | AuthError
  | Timeout
  | WrongPacket
  | TooManyClients
  | UnknownError str
  | IoError

subsection \<open>Hostnames\<close>

definition clean_up_hostname :: "str \<Rightarrow> str" where
  "clean_up_hostname hostname =
    (let hostname = trim_end_matches hostname 0x2E
     in if starts_with hostname (str_lit ''random-'')
        then (case split_once 0x2E hostname of None \<Rightarrow> [] | Some x \<Rightarrow> snd x)
        else hostname)"

lemma trim_dots: "trim_end_matches (h @ replicate n 0x2E) 0x2E = trim_end_matches h 0x2E"
proof (induction n)
  case (Suc n)
  have "h @ replicate (Suc n) 0x2E = (h @ replicate n 0x2E) @ [0x2E]"
    by (simp add: replicate_append_same)
  with Suc show ?case by (simp only: trim_end_matches_snoc)
qed simp

lemma clean_up_plain:
  assumes "h = [] \<or> last h \<noteq> 0x2E" and "\<not> starts_with h (str_lit ''random-'')"
  shows "clean_up_hostname (h @ replicate n 0x2E) = h"
  using assms by (simp add: clean_up_hostname_def trim_dots trim_end_matches_id)

lemma clean_up_random:
  assumes "h \<noteq> []" "last h \<noteq> 0x2E" "0x2E \<notin> set label"
  shows "clean_up_hostname (str_lit ''random-'' @ label @ [0x2E] @ h @ replicate n 0x2E) = h"
proof -
  let ?l = "str_lit ''random-'' @ label"
  have "trim_end_matches (?l @ [0x2E] @ h @ replicate n 0x2E) 0x2E = ?l @ 0x2E # h"
    using trim_dots[of "?l @ 0x2E # h" n] assms(1,2) by (simp add: trim_end_matches_id)
  moreover have "0x2E \<notin> set ?l" using assms(3) by (simp add: str_lit_def)
  then have "split_once 0x2E (?l @ 0x2E # h) = Some (?l, h)" by (rule split_once_append)
  ultimately show ?thesis by (simp add: clean_up_hostname_def)
qed

lemma get_hostname_shape:
  assumes "ring_ok api"
  shows "get_hostname api pk \<noteq> []" "last (get_hostname api pk) \<noteq> 0x2E"
    "\<not> starts_with (get_hostname api pk) (str_lit ''random-'')"
proof -
  show "get_hostname api pk \<noteq> []" "last (get_hostname api pk) \<noteq> 0x2E"
    by (simp_all add: get_hostname_def KEY_SERVER_SUFFIX_def str_lit_def)
  have l: "length (get_host api pk) = 20" using assms by (rule length_get_host)
  have "0x2D \<notin> set (take 7 (get_hostname api pk))"
    using get_host_letters[OF assms, of pk] not_letter(2) l
    by (auto simp: get_hostname_def dest!: in_set_takeD)
  moreover have "0x2D \<in> set (str_lit ''random-'')" by (simp add: str_lit_def)
  moreover have "length (str_lit ''random-'') = 7" by simp
  ultimately show "\<not> starts_with (get_hostname api pk) (str_lit ''random-'')"
    using \<open>length (str_lit ''random-'') = 7\<close> by (metis starts_with_def)
qed

text \<open>
  A player reaches the server of a key under its hostname, with or without the dots resolvers
  put at the end, and behind any \<^verbatim>\<open>random-\<close> label that is used to get around DNS caches.
\<close>

lemma clean_up_finds_hostname:
  assumes "ring_ok api" "0x2E \<notin> set label"
  shows "clean_up_hostname (get_hostname api pk @ replicate n 0x2E) = get_hostname api pk
    \<and> clean_up_hostname (str_lit ''random-'' @ label @ [0x2E] @ get_hostname api pk
        @ replicate n 0x2E) = get_hostname api pk"
  using clean_up_plain[of "get_hostname api pk" n] clean_up_random[of "get_hostname api pk" label n]
    get_hostname_shape[OF assms(1), of pk] assms(2) by blast

subsection \<open>The register\<close>

record register =
  servers :: "(str \<times> channel) list"
  client_count :: nat

definition USIZE_MAX :: nat where "USIZE_MAX = 2 ^ 64 - 1"

definition register_default :: register where
  "register_default = \<lparr>servers = [], client_count = 0\<rparr>"

definition get_server :: "register \<Rightarrow> str \<Rightarrow> channel option" where
  "get_server r hostname = map_of (servers r) hostname"

definition remove_server :: "register \<Rightarrow> str \<Rightarrow> register" where
  "remove_server r hostname = r\<lparr>servers := AList.delete hostname (servers r)\<rparr>"

definition add_server :: "register \<Rightarrow> str \<Rightarrow> channel \<Rightarrow> distributor_error + register" where
  "add_server r hostname tx =
    (if map_of (servers r) hostname \<noteq> None then Inl ServerAlreadyConnected
     else Inr (r\<lparr>servers := AList.update hostname tx (servers r)\<rparr>))"

definition get_server_count :: "register \<Rightarrow> nat" where
  "get_server_count r = length (servers r)"

definition add_client :: "register \<Rightarrow> register" where
  "add_client r = r\<lparr>client_count := min (client_count r + 1) USIZE_MAX\<rparr>"

definition remove_client :: "register \<Rightarrow> register" where
  "remove_client r = r\<lparr>client_count := client_count r - 1\<rparr>"

definition get_client_count :: "register \<Rightarrow> nat" where
  "get_client_count r = client_count r"

definition wf_register :: "register \<Rightarrow> bool" where
  "wf_register r \<longleftrightarrow> distinct (map fst (servers r)) \<and> client_count r \<le> USIZE_MAX"

lemma get_server_map: "get_server r = map_of (servers r)"
  by (rule ext) (simp add: get_server_def)

subsection \<open>The contract of a register\<close>

text \<open>
  What a session relies on: an entry can only be made for a free hostname, and making or removing
  one changes no other hostname.
\<close>

locale registry =
  fixes look :: "'s \<Rightarrow> 'h \<Rightarrow> 'c option"
    and ins :: "'s \<Rightarrow> 'h \<Rightarrow> 'c \<Rightarrow> 'e + 's"
    and del :: "'s \<Rightarrow> 'h \<Rightarrow> 's"
  assumes ins_free: "look s h = None \<Longrightarrow> \<exists>s'. ins s h c = Inr s' \<and> look s' = (look s)(h \<mapsto> c)"
    and ins_taken: "look s h \<noteq> None \<Longrightarrow> \<exists>e. ins s h c = Inl e"
    and look_del: "look (del s h) = (look s)(h := None)"
begin

lemma ins_InrD: "ins s h c = Inr s' \<Longrightarrow> look s h = None \<and> look s' = (look s)(h \<mapsto> c)"
  using ins_free[of s h c] ins_taken[of s h c] by (cases "look s h") auto

lemma ins_InlD: "ins s h c = Inl e \<Longrightarrow> look s h \<noteq> None"
  using ins_free[of s h c] by auto

text \<open>The owners of a register: the pairs of hostname and channel that a set of sessions holds.\<close>

lemma owners_ins:
  assumes "ins s h c = Inr s'" and "\<And>h' c'. look s h' = Some c' \<longleftrightarrow> (h', c') \<in> own"
  shows "look s' h' = Some c' \<longleftrightarrow> (h', c') \<in> insert (h, c) own"
  using ins_InrD[OF assms(1)] assms(2) by auto (metis option.distinct(1))+

lemma owners_del:
  assumes "\<And>h' c'. look s h' = Some c' \<longleftrightarrow> (h', c') \<in> own"
  shows "look (del s h) h' = Some c' \<longleftrightarrow> (h', c') \<in> {(k, d) \<in> own. k \<noteq> h}"
  using assms by (auto simp: look_del)

end

interpretation reg: registry get_server add_server remove_server
  by unfold_locales
    (auto simp: get_server_def add_server_def remove_server_def update_conv' delete_conv'
       fun_upd_def)

subsection \<open>Histories\<close>

text \<open>Any interleaving of operations by any number of tasks is a sequence of atomic steps.\<close>

datatype register_op = AddServer str channel | RemoveServer str | AddClient | RemoveClient

primrec run_op :: "register_op \<Rightarrow> register \<Rightarrow> register" where
  "run_op (AddServer h c) r = (case add_server r h c of Inl e \<Rightarrow> r | Inr r' \<Rightarrow> r')"
| "run_op (RemoveServer h) r = remove_server r h"
| "run_op AddClient r = add_client r"
| "run_op RemoveClient r = remove_client r"

text \<open>The specification: a map of hostnames in which the first entry wins, and a counter.\<close>

primrec spec_op ::
  "register_op \<Rightarrow> (str \<rightharpoonup> channel) \<times> nat \<Rightarrow> (str \<rightharpoonup> channel) \<times> nat" where
  "spec_op (AddServer h c) s = ([h \<mapsto> c] ++ fst s, snd s)"
| "spec_op (RemoveServer h) s = ((fst s)(h := None), snd s)"
| "spec_op AddClient s = (fst s, if snd s < USIZE_MAX then snd s + 1 else snd s)"
| "spec_op RemoveClient s = (fst s, if snd s = 0 then 0 else snd s - 1)"

definition register_abs :: "register \<Rightarrow> (str \<rightharpoonup> channel) \<times> nat" where
  "register_abs r = (get_server r, get_client_count r)"

lemma wf_register_default: "wf_register register_default"
  by (simp add: wf_register_def register_default_def)

lemma wf_register_run_op: "wf_register r \<Longrightarrow> wf_register (run_op ev r)"
  by (cases ev) (auto simp: wf_register_def add_server_def remove_server_def add_client_def
      remove_client_def distinct_update distinct_delete)

lemma run_op_spec:
  assumes "wf_register r"
  shows "register_abs (run_op ev r) = spec_op ev (register_abs r)"
proof (cases ev)
  case (AddServer h c)
  show ?thesis
  proof (cases "get_server r h")
    case None
    then show ?thesis
      by (auto simp: AddServer register_abs_def add_server_def get_server_def get_client_count_def
          update_conv' map_add_def fun_eq_iff split: option.splits)
  next
    case (Some u)
    then show ?thesis
      by (auto simp: AddServer register_abs_def add_server_def get_server_def map_add_def fun_eq_iff
          split: option.splits)
  qed
qed (use assms in \<open>auto simp: register_abs_def remove_server_def add_client_def remove_client_def
    get_server_def get_client_count_def delete_conv' wf_register_def fun_eq_iff\<close>)

lemma server_count_card: "wf_register r \<Longrightarrow> get_server_count r = card (dom (get_server r))"
  using distinct_card[of "map fst (servers r)"]
  by (simp add: get_server_count_def get_server_map wf_register_def dom_map_of_conv_image_fst)

lemma fold_run_op:
  "wf_register r \<Longrightarrow> wf_register (fold run_op ops r)
     \<and> register_abs (fold run_op ops r) = fold spec_op ops (register_abs r)"
  by (induction ops arbitrary: r) (simp_all add: wf_register_run_op run_op_spec)

text \<open>
  C25. The register refines a map of hostnames and a saturating counter: after any interleaving of
  operations it answers as the specification does, in which a hostname keeps its first channel
  until it is removed, and the server count is the number of hostnames with a channel.
\<close>

theorem register_refines_map:
  "register_abs (fold run_op ops register_default) = fold spec_op ops (Map.empty, 0)
   \<and> get_server_count (fold run_op ops register_default)
       = card (dom (get_server (fold run_op ops register_default)))"
proof -
  have "register_abs register_default = (Map.empty, 0)"
    by (simp add: register_abs_def register_default_def get_server_map get_client_count_def)
  then show ?thesis
    using fold_run_op[OF wf_register_default, of ops] server_count_card by auto
qed

end
