(* ===== verification/Distributor.thy ===== *)
theory Distributor
  imports Register
begin

text \<open>
  The table of Minecraft clients of one proxy session: \<^verbatim>\<open>Distributor\<close> in
  \<^verbatim>\<open>server/src/proxy_handler.rs\<close>, an array of \<^verbatim>\<open>MAXIMUM_CLIENTS\<close> optional channels indexed by
  client id. The same contract holds of the connection table of the CraftIP client (theory
  \<^verbatim>\<open>Client\<close>), so it is stated as a locale.
\<close>

subsection \<open>The contract of a table of client ids\<close>

locale id_table =
  fixes look :: "'t \<Rightarrow> client_id \<Rightarrow> 'c option"
    and put :: "'t \<Rightarrow> client_id \<Rightarrow> 'c \<Rightarrow> 't"
    and clear :: "'t \<Rightarrow> client_id \<Rightarrow> 't"
    and wf :: "'t \<Rightarrow> bool"
  assumes look_put: "wf t \<Longrightarrow> i < MAXIMUM_CLIENTS \<Longrightarrow> look (put t i c) = (look t)(i \<mapsto> c)"
    and look_clear: "wf t \<Longrightarrow> look (clear t i) = (look t)(i := None)"
    and look_bound: "wf t \<Longrightarrow> look t i = Some c \<Longrightarrow> i < MAXIMUM_CLIENTS"
    and wf_put: "wf t \<Longrightarrow> wf (put t i c)"
    and wf_clear: "wf t \<Longrightarrow> wf (clear t i)"
begin

lemma dom_bound: "wf t \<Longrightarrow> dom (look t) \<subseteq> {..<MAXIMUM_CLIENTS}"
  using look_bound by fastforce

lemma finite_dom: "wf t \<Longrightarrow> finite (dom (look t))"
  using dom_bound finite_subset by blast

lemma card_dom: "wf t \<Longrightarrow> card (dom (look t)) \<le> MAXIMUM_CLIENTS"
  using card_mono[OF _ dom_bound, of t] by simp

lemma card_put:
  "wf t \<Longrightarrow> i < MAXIMUM_CLIENTS
    \<Longrightarrow> card (dom (look (put t i c))) = (if look t i = None then 1 else 0) + card (dom (look t))"
  using finite_dom[of t] by (auto simp: look_put card_insert_if domIff insert_absorb)

lemma card_clear:
  "wf t \<Longrightarrow> card (dom (look (clear t i))) = card (dom (look t)) - (if look t i = None then 0 else 1)"
  using finite_dom[of t] by (auto simp: look_clear card_Diff_singleton_if domIff)

text \<open>A table is full exactly when every id is taken.\<close>

lemma full_iff: "wf t \<Longrightarrow> card (dom (look t)) = MAXIMUM_CLIENTS \<longleftrightarrow> (\<forall>i < MAXIMUM_CLIENTS. look t i \<noteq> None)"
proof -
  assume t: "wf t"
  have "card (dom (look t)) = MAXIMUM_CLIENTS \<longleftrightarrow> dom (look t) = {..<MAXIMUM_CLIENTS}"
    using card_subset_eq[OF _ dom_bound[OF t]] by auto
  also have "\<dots> \<longleftrightarrow> (\<forall>i < MAXIMUM_CLIENTS. look t i \<noteq> None)"
    using dom_bound[OF t] by (auto simp: domIff)
  finally show ?thesis .
qed

end

subsection \<open>The distributor\<close>

record distributor =
  clients_id :: "channel option list"

definition distributor_default :: distributor where
  "distributor_default = \<lparr>clients_id = replicate MAXIMUM_CLIENTS None\<rparr>"

text \<open>The \<^verbatim>\<open>for\<close> loop of \<^verbatim>\<open>insert\<close>: the first empty element takes the channel.\<close>

primrec insert_loop ::
  "channel \<Rightarrow> channel option list \<Rightarrow> (client_id \<times> channel option list) option" where
  "insert_loop tx [] = None"
| "insert_loop tx (e # es) =
    (if e = None then Some (0, Some tx # es)
     else map_option (\<lambda>(i, es'). (Suc i, e # es')) (insert_loop tx es))"

definition distributor_insert ::
  "distributor \<Rightarrow> channel \<Rightarrow> distributor_error + client_id \<times> distributor" where
  "distributor_insert d tx = (case insert_loop tx (clients_id d) of
     None \<Rightarrow> Inl TooManyClients
   | Some (i, es) \<Rightarrow> Inr (i, d\<lparr>clients_id := es\<rparr>))"

definition remove_by_id :: "distributor \<Rightarrow> client_id \<Rightarrow> bool \<times> distributor" where
  "remove_by_id d i =
    (if i < length (clients_id d) then (True, d\<lparr>clients_id := (clients_id d)[i := None]\<rparr>)
     else (False, d))"

definition get_by_id :: "distributor \<Rightarrow> client_id \<Rightarrow> channel option" where
  "get_by_id d i = (if i < length (clients_id d) then clients_id d ! i else None)"

definition wf_distributor :: "distributor \<Rightarrow> bool" where
  "wf_distributor d \<longleftrightarrow> length (clients_id d) = MAXIMUM_CLIENTS"

definition put_id :: "distributor \<Rightarrow> client_id \<Rightarrow> channel \<Rightarrow> distributor" where
  "put_id d i tx = d\<lparr>clients_id := (clients_id d)[i := Some tx]\<rparr>"

interpretation dist: id_table get_by_id put_id "\<lambda>d i. snd (remove_by_id d i)" wf_distributor
  by unfold_locales
    (auto simp: get_by_id_def put_id_def remove_by_id_def wf_distributor_def nth_list_update
      fun_eq_iff split: if_splits)

lemmas distributor_table [table_simps] = dist.look_put dist.look_clear dist.wf_put dist.wf_clear

lemma wf_distributor_default [simp]: "wf_distributor distributor_default"
  by (simp add: wf_distributor_def distributor_default_def)

lemma get_by_id_default [simp]: "get_by_id distributor_default = Map.empty"
  by (simp add: get_by_id_def distributor_default_def fun_eq_iff)

lemma remove_by_id_fst: "wf_distributor d \<Longrightarrow> fst (remove_by_id d i) \<longleftrightarrow> i < MAXIMUM_CLIENTS"
  by (simp add: remove_by_id_def wf_distributor_def)

lemma insert_loop_Some:
  "insert_loop tx es = Some (i, es') \<Longrightarrow>
     i < length es \<and> es ! i = None \<and> (\<forall>j < i. es ! j \<noteq> None) \<and> es' = es[i := Some tx]"
proof (induction es arbitrary: i es')
  case (Cons e es)
  show ?case
  proof (cases "e = None")
    case False
    with Cons.prems obtain k ks where k: "insert_loop tx es = Some (k, ks)" "i = Suc k" "es' = e # ks"
      by auto
    with Cons.IH[OF k(1)] False show ?thesis by (auto simp: nth_Cons split: nat.splits)
  qed (use Cons.prems in auto)
qed simp

lemma insert_loop_None: "insert_loop tx es = None \<longleftrightarrow> None \<notin> set es"
  by (induction es) auto

lemma insert_Inr:
  assumes "wf_distributor d" "distributor_insert d tx = Inr (i, d')"
  shows "i < MAXIMUM_CLIENTS" "get_by_id d i = None" "\<And>j. j < i \<Longrightarrow> get_by_id d j \<noteq> None"
    "d' = put_id d i tx" "wf_distributor d'" "get_by_id d' = (get_by_id d)(i \<mapsto> tx)"
proof -
  obtain es where es: "insert_loop tx (clients_id d) = Some (i, es)" "d' = d\<lparr>clients_id := es\<rparr>"
    using assms(2) by (auto simp: distributor_insert_def split: option.splits)
  note h = insert_loop_Some[OF es(1)]
  show i: "i < MAXIMUM_CLIENTS" using h assms(1) by (simp add: wf_distributor_def)
  show "get_by_id d i = None" using h by (simp add: get_by_id_def)
  show "\<And>j. j < i \<Longrightarrow> get_by_id d j \<noteq> None" using h by (simp add: get_by_id_def)
  show d': "d' = put_id d i tx" using h es(2) by (simp add: put_id_def)
  show "wf_distributor d'" unfolding d' by (rule dist.wf_put[OF assms(1)])
  show "get_by_id d' = (get_by_id d)(i \<mapsto> tx)" unfolding d' by (rule dist.look_put[OF assms(1) i])
qed

lemma insert_Inl:
  assumes "wf_distributor d" "distributor_insert d tx = Inl e"
  shows "e = TooManyClients" "\<And>j. j < MAXIMUM_CLIENTS \<Longrightarrow> get_by_id d j \<noteq> None"
proof -
  have n: "insert_loop tx (clients_id d) = None" "e = TooManyClients"
    using assms(2) by (auto simp: distributor_insert_def split: option.splits)
  then show "e = TooManyClients" by simp
  fix j
  assume "j < MAXIMUM_CLIENTS"
  then have j: "j < length (clients_id d)" using assms(1) by (simp add: wf_distributor_def)
  then have "clients_id d ! j \<in> set (clients_id d)" by (rule nth_mem)
  with n(1) have "clients_id d ! j \<noteq> None" by (metis insert_loop_None)
  with j show "get_by_id d j \<noteq> None" by (simp add: get_by_id_def)
qed

text \<open>
  \<^verbatim>\<open>insert\<close> hands out the smallest free id and touches no other client; it fails with
  \<^verbatim>\<open>TooManyClients\<close> exactly when all 255 ids are taken.
\<close>

lemma distributor_insert_spec:
  assumes "wf_distributor d"
  shows "case distributor_insert d tx of
      Inr (i, d') \<Rightarrow> i < MAXIMUM_CLIENTS \<and> get_by_id d i = None \<and> (\<forall>j < i. get_by_id d j \<noteq> None)
        \<and> get_by_id d' = (get_by_id d)(i \<mapsto> tx) \<and> wf_distributor d'
    | Inl e \<Rightarrow> e = TooManyClients \<and> card (dom (get_by_id d)) = MAXIMUM_CLIENTS"
  using insert_Inr[OF assms, of tx] insert_Inl[OF assms, of tx] dist.full_iff[OF assms]
  by (auto split: sum.splits)

end
