(* ===== verification/Proxy_Handler.thy ===== *)
theory Proxy_Handler
  imports Distributor
begin

text \<open>
  One proxy session, as \<^verbatim>\<open>server/src/proxy_handler.rs\<close> runs it: the hello packet, the
  authentication, and the two tasks that move packets between the tunnel of a CraftIP client and
  the Minecraft clients. What the network does (the frames that arrive, the sends that fail, the
  random numbers) is an argument of each step; what a step sends is part of its result.
\<close>

subsection \<open>States and messages\<close>

type_synonym oneshot = nat

datatype client_to_proxy =
    Packet client_id minecraft_data_packet
  | AddMinecraftClient oneshot channel
  | RemoveMinecraftClient client_id
  | AnswerPingPacket u16

text \<open>The type parameter of \<^verbatim>\<open>ProxyClient<State>\<close>; the register is shared state of the system.\<close>

record 'st proxy_client =
  pc_hostname :: str
  pc_state :: 'st

record not_authenticated =
  na_hello :: proxy_hello_packet

datatype authenticated = Authenticated
datatype disconnected = Disconnected

text \<open>What \<^verbatim>\<open>framed.next()\<close> gives.\<close>

datatype frame_event = Frame socket_packet | FrameError packet_codec_error | Eof

subsection \<open>Hello and authentication\<close>

text \<open>
  \<^verbatim>\<open>ProxyClient::new\<close> over the frames that arrive, each with the success of the answer sent to it;
  \<open>None\<close> while it still waits. The second component is what was sent.
\<close>

fun proxy_client_new ::
  "(frame_event \<times> bool) list
     \<Rightarrow> (distributor_error + not_authenticated proxy_client) option \<times> socket_packet list" where
  "proxy_client_new [] = (None, [])"
| "proxy_client_new ((ev, send_ok) # evs) = (case ev of
     Frame (ProxyHello packet) \<Rightarrow>
       (Some (Inr \<lparr>pc_hostname = hello_hostname packet, pc_state = \<lparr>na_hello = packet\<rparr>\<rparr>), [])
   | Frame (ProxyPing ping) \<Rightarrow>
       (if send_ok then (case proxy_client_new evs of (r, out) \<Rightarrow> (r, ProxyPong ping # out))
        else (Some (Inl IoError), []))
   | _ \<Rightarrow> (Some (Inl WrongPacket), []))"

text \<open>
  \<^verbatim>\<open>authenticate\<close>: \<open>rng\<close> is what the random generator gives, \<open>send_ok\<close> whether the challenge could
  be sent, \<open>reply\<close> the next frame. The sends of errors are ignored by the code when they fail.
\<close>

definition authenticate ::
  "ring_api \<Rightarrow> not_authenticated proxy_client \<Rightarrow> bytes option \<Rightarrow> bool \<Rightarrow> frame_event
     \<Rightarrow> (distributor_error + authenticated proxy_client) \<times> socket_packet list" where
  "authenticate api pc rng send_ok reply =
    (case hello_auth (na_hello (pc_state pc)) of PublicKey public_key \<Rightarrow>
      (case create_challenge rng of
         Inl e \<Rightarrow> (Inl AuthError, [])
       | Inr challenge \<Rightarrow>
         if \<not> send_ok then (Inl IoError, [])
         else (case reply of
             Frame (ProxyAuthResponse signature) \<Rightarrow>
               (if \<not> verify api public_key challenge signature
                   \<or> get_hostname api public_key \<noteq> pc_hostname pc
                then (Inl AuthError,
                      [ProxyAuthRequest challenge, ProxyError (str_lit ''Could not authenticate'')])
                else (Inr \<lparr>pc_hostname = pc_hostname pc, pc_state = Authenticated\<rparr>,
                      [ProxyAuthRequest challenge]))
           | _ \<Rightarrow> (Inl WrongPacket,
                   [ProxyAuthRequest challenge,
                    ProxyError (str_lit ''Client did follow the auth procedure'')]))))"

definition into_disconnected_unsafe :: "authenticated proxy_client \<Rightarrow> disconnected proxy_client" where
  "into_disconnected_unsafe pc = \<lparr>pc_hostname = pc_hostname pc, pc_state = Disconnected\<rparr>"

definition into_disconnected ::
  "register \<Rightarrow> authenticated proxy_client \<Rightarrow> register \<times> disconnected proxy_client" where
  "into_disconnected r pc = (remove_server r (pc_hostname pc), into_disconnected_unsafe pc)"

text \<open>
  \<^verbatim>\<open>handle\<close> up to the start of the two tasks: the session either ends (\<open>Inl\<close>) or serves (\<open>Inr\<close>).
  Its last line, once a task has ended, is \<open>into_disconnected\<close>.
\<close>

definition handle_start ::
  "register \<Rightarrow> authenticated proxy_client \<Rightarrow> channel \<Rightarrow> bool
     \<Rightarrow> register \<times> (disconnected proxy_client + authenticated proxy_client) \<times> socket_packet list" where
  "handle_start r pc tx send_ok = (case add_server r (pc_hostname pc) tx of
     Inl e \<Rightarrow> (r, Inl (into_disconnected_unsafe pc), [ProxyError (str_lit ''Already connected?'')])
   | Inr r' \<Rightarrow>
       if send_ok
       then (r', Inr pc, [ProxyHelloResponse \<lparr>connected_version = PROTOCOL_VERSION\<rparr>])
       else (case into_disconnected r' pc of (r'', pc') \<Rightarrow> (r'', Inl pc', [])))"

subsection \<open>The reader task\<close>

datatype read_event = Incoming frame_event | ReadTimeout

datatype reader_effect = SendToMinecraft channel minecraft_data_packet | SendToWriter client_to_proxy

text \<open>
  One turn of the loop of \<^verbatim>\<open>handle_reader\<close>: the distributor after it, what is sent on channels,
  and whether the loop goes on. A failed channel send is only logged.
\<close>

definition handle_reader ::
  "distributor \<Rightarrow> read_event \<Rightarrow> distributor \<times> reader_effect list \<times> bool" where
  "handle_reader d ev = (case ev of
     Incoming (Frame (ProxyDisconnect i)) \<Rightarrow> (snd (remove_by_id d i), [], True)
   | Incoming (Frame (ProxyData packet)) \<Rightarrow>
       (case get_by_id d (data_client_id packet) of
          None \<Rightarrow> (d, [], True)
        | Some tx \<Rightarrow> (d, [SendToMinecraft tx (data_bytes packet)], True))
   | Incoming (Frame (ProxyPing packet)) \<Rightarrow> (d, [SendToWriter (AnswerPingPacket packet)], True)
   | Incoming (Frame packet) \<Rightarrow> (d, [], True)
   | Incoming Eof \<Rightarrow> (d, [], False)
   | Incoming (FrameError e) \<Rightarrow> (d, [], False)
   | ReadTimeout \<Rightarrow> (d, [], False))"

subsection \<open>The writer task\<close>

text \<open>
  One message of the \<^verbatim>\<open>'feed\<close> loop of \<^verbatim>\<open>handle_writer\<close>. \<open>id_ok\<close> tells whether the waiting
  \<^verbatim>\<open>MCClient\<close> still takes its id, \<open>feed_ok\<close> whether the frame could be fed to the socket. The
  result has the distributor, the id sent back, the frame fed, and whether the task goes on.
\<close>

definition writer_response ::
  "distributor \<Rightarrow> client_to_proxy \<Rightarrow> bool
     \<Rightarrow> distributor \<times> (oneshot \<times> client_id) option \<times> socket_packet option option" where
  "writer_response d packet id_ok = (case packet of
     AddMinecraftClient id_sender tx \<Rightarrow>
       (case distributor_insert d tx of
          Inl e \<Rightarrow> (d, None, None)
        | Inr (i, d') \<Rightarrow> if id_ok then (d', Some (id_sender, i), Some (Some (ProxyJoin i)))
                         else (d', None, None))
   | Packet i pkg \<Rightarrow> (d, None, Some (Some (ProxyData (proxy_data_packet_new pkg i))))
   | AnswerPingPacket ping \<Rightarrow> (d, None, Some (Some (ProxyPong ping)))
   | RemoveMinecraftClient i \<Rightarrow>
       (case remove_by_id d i of (existed, d') \<Rightarrow>
          (d', None, Some (if existed then Some (ProxyDisconnect i) else None))))"

definition handle_writer ::
  "distributor \<Rightarrow> client_to_proxy \<Rightarrow> bool \<Rightarrow> bool
     \<Rightarrow> distributor \<times> (oneshot \<times> client_id) option \<times> socket_packet list \<times> bool" where
  "handle_writer d packet id_ok feed_ok = (case writer_response d packet id_ok of
     (d', reply, None) \<Rightarrow> (d', reply, [], False)
   | (d', reply, Some None) \<Rightarrow> (d', reply, [], True)
   | (d', reply, Some (Some resp)) \<Rightarrow>
       if feed_ok then (d', reply, [resp], True) else (d', reply, [], False))"

subsection \<open>The session\<close>

text \<open>
  A serving session: the distributor both tasks lock, the messages waiting in the channel of the
  register, and the history of what it sent: frames to the CraftIP client, ids to Minecraft
  clients, data to the channels of Minecraft clients. \<open>running\<close> turns false when a task ends.
\<close>

record session =
  s_dist :: distributor
  s_queue :: "client_to_proxy list"
  s_frames :: "socket_packet list"
  s_ids :: "(oneshot \<times> client_id) list"
  s_delivered :: "(channel \<times> minecraft_data_packet) list"
  s_running :: bool

definition session_new :: session where
  "session_new = \<lparr>s_dist = distributor_default, s_queue = [], s_frames = [], s_ids = [],
     s_delivered = [], s_running = True\<rparr>"

text \<open>
  The events of a session: some task puts a message on the channel, the reader task makes a turn,
  the writer task takes the next message, or its flush fails.
\<close>

datatype session_event =
    Enqueue client_to_proxy
  | ReaderTurn read_event
  | WriterTurn bool bool
  | FlushFailed

definition apply_effect :: "reader_effect \<Rightarrow> session \<Rightarrow> session" where
  "apply_effect eff s = (case eff of
     SendToMinecraft tx d \<Rightarrow> s\<lparr>s_delivered := s_delivered s @ [(tx, d)]\<rparr>
   | SendToWriter m \<Rightarrow> s\<lparr>s_queue := s_queue s @ [m]\<rparr>)"

definition session_step :: "session_event \<Rightarrow> session \<Rightarrow> session" where
  "session_step ev s =
    (if \<not> s_running s then s else case ev of
       Enqueue m \<Rightarrow> s\<lparr>s_queue := s_queue s @ [m]\<rparr>
     | ReaderTurn rd \<Rightarrow>
         (case handle_reader (s_dist s) rd of (d, effs, go) \<Rightarrow>
            (fold apply_effect effs s)\<lparr>s_dist := d, s_running := go\<rparr>)
     | WriterTurn id_ok feed_ok \<Rightarrow>
         (case s_queue s of
            [] \<Rightarrow> s
          | m # ms \<Rightarrow>
              (case handle_writer (s_dist s) m id_ok feed_ok of (d, reply, frames, go) \<Rightarrow>
                 s\<lparr>s_dist := d, s_queue := ms, s_frames := s_frames s @ frames,
                   s_ids := s_ids s @ (case reply of None \<Rightarrow> [] | Some r \<Rightarrow> [r]),
                   s_running := go\<rparr>))
     | FlushFailed \<Rightarrow> s\<lparr>s_running := False\<rparr>)"

end
