(* ===== verification/Proxy_Session.thy ===== *)
theory Proxy_Session
  imports Proxy_Handler
begin

text \<open>
  What the hello, the authentication and a serving session guarantee (definitions in theory
  \<^verbatim>\<open>Proxy_Handler\<close>): who is authenticated, which channel gets which data, and that the messages
  of the Minecraft clients reach the tunnel in order, none lost and none twice.
\<close>

subsection \<open>Hello\<close>

definition pings :: "u16 list \<Rightarrow> (frame_event \<times> bool) list" where
  "pings ns = map (\<lambda>n. (Frame (ProxyPing n), True)) ns"

lemma proxy_client_new_pings:
  "proxy_client_new (pings ns @ evs)
     = (fst (proxy_client_new evs), map ProxyPong ns @ snd (proxy_client_new evs))"
  by (induction ns) (simp_all add: pings_def split: prod.splits)

lemma proxy_client_new_InrD:
  "proxy_client_new evs = (Some (Inr pc), out) \<Longrightarrow>
     \<exists>ns packet ok rest. evs = pings ns @ (Frame (ProxyHello packet), ok) # rest
       \<and> out = map ProxyPong ns \<and> pc = \<lparr>pc_hostname = hello_hostname packet,
                                        pc_state = \<lparr>na_hello = packet\<rparr>\<rparr>"
proof (induction evs arbitrary: out rule: proxy_client_new.induct)
  case (2 ev send_ok evs)
  show ?case
  proof (cases "\<exists>n. ev = Frame (ProxyPing n)")
    case True
    then obtain n where n: "ev = Frame (ProxyPing n)" by blast
    with "2.prems" obtain out' where r: "send_ok" "proxy_client_new evs = (Some (Inr pc), out')"
      "out = ProxyPong n # out'"
      by (auto split: if_splits prod.splits)
    from "2.IH"[OF n refl r(1,2)] n r obtain ns packet ok rest where
      "evs = pings ns @ (Frame (ProxyHello packet), ok) # rest" "out' = map ProxyPong ns"
      "pc = \<lparr>pc_hostname = hello_hostname packet, pc_state = \<lparr>na_hello = packet\<rparr>\<rparr>"
      by blast
    with n r show ?thesis
      by (intro exI[of _ "n # ns"] exI[of _ packet] exI[of _ ok] exI[of _ rest])
        (simp add: pings_def)
  next
    case False
    with "2.prems" obtain packet where "ev = Frame (ProxyHello packet)"
      "pc = \<lparr>pc_hostname = hello_hostname packet, pc_state = \<lparr>na_hello = packet\<rparr>\<rparr>" "out = []"
      by (auto split: frame_event.splits socket_packet.splits)
    then show ?thesis
      by (intro exI[of _ "[]"] exI[of _ packet] exI[of _ send_ok] exI[of _ evs])
        (simp add: pings_def)
  qed
qed simp

text \<open>
  \<^verbatim>\<open>ProxyClient::new\<close> accepts exactly the streams of pings followed by a hello: it answers every
  ping with a pong of the same number and takes over the hostname of the hello. In the other
  direction, whenever it succeeds the frames it consumed were pings and then a hello.
\<close>

lemma proxy_client_new_spec:
  "proxy_client_new evs = (Some (Inr pc), out) \<longleftrightarrow>
     (\<exists>ns packet ok rest. evs = pings ns @ (Frame (ProxyHello packet), ok) # rest
       \<and> out = map ProxyPong ns \<and> pc = \<lparr>pc_hostname = hello_hostname packet,
                                        pc_state = \<lparr>na_hello = packet\<rparr>\<rparr>)"
  using proxy_client_new_InrD[of evs pc out] by (auto simp: proxy_client_new_pings)

subsection \<open>Authentication\<close>

definition proves_key ::
  "ring_api \<Rightarrow> server_public_key \<Rightarrow> challenge \<Rightarrow> frame_event \<Rightarrow> bool" where
  "proves_key api pk challenge reply \<longleftrightarrow>
     (\<exists>signature. reply = Frame (ProxyAuthResponse signature) \<and> verify api pk challenge signature)"

lemma authenticate_Inr:
  "fst (authenticate api pc rng send_ok reply) = Inr pc' \<longleftrightarrow>
     (\<exists>pk challenge. hello_auth (na_hello (pc_state pc)) = PublicKey pk \<and> rng = Some challenge
        \<and> send_ok \<and> proves_key api pk challenge reply \<and> get_hostname api pk = pc_hostname pc
        \<and> pc' = \<lparr>pc_hostname = get_hostname api pk, pc_state = Authenticated\<rparr>)"
  by (cases "hello_auth (na_hello (pc_state pc))"; cases rng; cases reply)
    (auto simp: authenticate_def create_challenge_def proves_key_def split: socket_packet.splits)

subsection \<open>A serving session\<close>

definition session_run :: "session_event list \<Rightarrow> session" where
  "session_run evs = fold session_step evs session_new"

lemma session_run_Nil [simp]: "session_run [] = session_new"
  by (simp add: session_run_def)

lemma session_run_snoc [simp]: "session_run (evs @ [ev]) = session_step ev (session_run evs)"
  by (simp add: session_run_def)

lemma fold_apply_effect [simp]:
  "s_dist (fold apply_effect effs s) = s_dist s"
  "s_frames (fold apply_effect effs s) = s_frames s"
  "s_ids (fold apply_effect effs s) = s_ids s"
  "s_running (fold apply_effect effs s) = s_running s"
  by (induction effs arbitrary: s) (auto simp: apply_effect_def split: reader_effect.splits)

text \<open>The three things one turn of the reader can do.\<close>

lemma handle_reader_cases:
  obtains i where "rd = Incoming (Frame (ProxyDisconnect i))"
      "handle_reader d rd = (snd (remove_by_id d i), [], True)"
  | packet tx where "rd = Incoming (Frame (ProxyData packet))"
      "get_by_id d (data_client_id packet) = Some tx"
      "handle_reader d rd = (d, [SendToMinecraft tx (data_bytes packet)], True)"
  | n where "rd = Incoming (Frame (ProxyPing n))"
      "handle_reader d rd = (d, [SendToWriter (AnswerPingPacket n)], True)"
  | go where "handle_reader d rd = (d, [], go)"
proof (cases rd)
  case (Incoming e)
  show thesis
  proof (cases e)
    case (Frame p)
    show thesis
    proof (cases p)
      case (ProxyData packet)
      with Incoming Frame that show thesis
        by (cases "get_by_id d (data_client_id packet)") (auto simp: handle_reader_def)
    qed (use that Incoming Frame in \<open>auto simp: handle_reader_def\<close>)
  qed (use that Incoming in \<open>auto simp: handle_reader_def\<close>)
qed (use that in \<open>auto simp: handle_reader_def\<close>)

lemma handle_writer_dist:
  assumes "wf_distributor d" "handle_writer d m id_ok feed_ok = (d', reply, frames, go)"
  shows "wf_distributor d'"
    and "get_by_id d' i = Some tx \<Longrightarrow> get_by_id d i = Some tx \<or> (\<exists>o1. m = AddMinecraftClient o1 tx)"
proof -
  have "wf_distributor d' \<and> (get_by_id d' i = Some tx
      \<longrightarrow> get_by_id d i = Some tx \<or> (\<exists>o1. m = AddMinecraftClient o1 tx))"
  proof (cases m)
    case (AddMinecraftClient o1 ch)
    show ?thesis
    proof (cases "distributor_insert d ch")
      case (Inl e)
      then show ?thesis
        using assms by (auto simp: AddMinecraftClient handle_writer_def writer_response_def)
    next
      case (Inr p)
      obtain j d1 where p: "p = (j, d1)" by (cases p)
      have "d' = d1"
        using assms(2)
        by (auto simp: AddMinecraftClient handle_writer_def writer_response_def Inr p split: if_splits)
      then show ?thesis
        using insert_Inr[OF assms(1)] Inr p by (auto simp: AddMinecraftClient split: if_splits)
    qed
  next
    case (RemoveMinecraftClient j)
    then have "d' = snd (remove_by_id d j)"
      using assms(2)
      by (auto simp: handle_writer_def writer_response_def split: prod.splits if_splits)
    then show ?thesis
      using dist.wf_clear[OF assms(1), of j] dist.look_clear[OF assms(1), of j]
      by (auto split: if_splits)
  qed (use assms in \<open>auto simp: handle_writer_def writer_response_def split: if_splits\<close>)
  then show "wf_distributor d'"
    "get_by_id d' i = Some tx \<Longrightarrow> get_by_id d i = Some tx \<or> (\<exists>o1. m = AddMinecraftClient o1 tx)"
    by blast+
qed

text \<open>The parts of a history that have to agree.\<close>

definition data_frames :: "socket_packet list \<Rightarrow> (client_id \<times> minecraft_data_packet) list" where
  "data_frames fs = concat (map (\<lambda>f. case f of
     ProxyData p \<Rightarrow> [(data_client_id p, data_bytes p)] | _ \<Rightarrow> []) fs)"

definition pong_frames :: "socket_packet list \<Rightarrow> u16 list" where
  "pong_frames fs = concat (map (\<lambda>f. case f of ProxyPong n \<Rightarrow> [n] | _ \<Rightarrow> []) fs)"

definition join_frames :: "socket_packet list \<Rightarrow> client_id list" where
  "join_frames fs = concat (map (\<lambda>f. case f of ProxyJoin i \<Rightarrow> [i] | _ \<Rightarrow> []) fs)"

definition queued_data :: "client_to_proxy list \<Rightarrow> (client_id \<times> minecraft_data_packet) list" where
  "queued_data ms = concat (map (\<lambda>m. case m of Packet i d \<Rightarrow> [(i, d)] | _ \<Rightarrow> []) ms)"

definition queued_pings :: "client_to_proxy list \<Rightarrow> u16 list" where
  "queued_pings ms = concat (map (\<lambda>m. case m of AnswerPingPacket n \<Rightarrow> [n] | _ \<Rightarrow> []) ms)"

definition queued_adds :: "client_to_proxy list \<Rightarrow> oneshot list" where
  "queued_adds ms = concat (map (\<lambda>m. case m of AddMinecraftClient o1 tx \<Rightarrow> [o1] | _ \<Rightarrow> []) ms)"

definition enqueued :: "session_event list \<Rightarrow> client_to_proxy list" where
  "enqueued evs = concat (map (\<lambda>ev. case ev of
     Enqueue m \<Rightarrow> [m]
   | ReaderTurn (Incoming (Frame (ProxyPing n))) \<Rightarrow> [AnswerPingPacket n]
   | _ \<Rightarrow> []) evs)"

lemmas history_defs = data_frames_def pong_frames_def join_frames_def queued_data_def
  queued_pings_def queued_adds_def

lemma history_append [simp]:
  "data_frames (fs @ gs) = data_frames fs @ data_frames gs"
  "pong_frames (fs @ gs) = pong_frames fs @ pong_frames gs"
  "join_frames (fs @ gs) = join_frames fs @ join_frames gs"
  "queued_data (ms @ ns) = queued_data ms @ queued_data ns"
  "queued_pings (ms @ ns) = queued_pings ms @ queued_pings ns"
  "queued_adds (ms @ ns) = queued_adds ms @ queued_adds ns"
  "enqueued (evs @ evs') = enqueued evs @ enqueued evs'"
  by (simp_all add: history_defs enqueued_def)

lemma history_Nil [simp]:
  "data_frames [] = []" "pong_frames [] = []" "join_frames [] = []" "queued_data [] = []"
  "queued_pings [] = []" "queued_adds [] = []" "enqueued [] = []"
  by (simp_all add: history_defs enqueued_def)

text \<open>What one turn of the writer adds to the history is what it took from the queue.\<close>

lemma handle_writer_history:
  assumes "handle_writer d m id_ok feed_ok = (d', reply, frames, True)"
  shows "data_frames frames = queued_data [m]" "pong_frames frames = queued_pings [m]"
    "map fst (case reply of None \<Rightarrow> [] | Some r \<Rightarrow> [r]) = queued_adds [m]"
    "join_frames frames = map snd (case reply of None \<Rightarrow> [] | Some r \<Rightarrow> [r])"
  using assms
  by (cases m; auto simp: handle_writer_def writer_response_def history_defs proxy_data_packet_new_def
      split: sum.splits if_splits prod.splits)+

definition fifo :: "session_event list \<Rightarrow> session \<Rightarrow> bool" where
  "fifo evs s \<longleftrightarrow>
     data_frames (s_frames s) @ queued_data (s_queue s) = queued_data (enqueued evs)
   \<and> pong_frames (s_frames s) @ queued_pings (s_queue s) = queued_pings (enqueued evs)
   \<and> map fst (s_ids s) @ queued_adds (s_queue s) = queued_adds (enqueued evs)
   \<and> join_frames (s_frames s) = map snd (s_ids s)"

lemma session_step_stopped: "\<not> s_running s \<Longrightarrow> session_step ev s = s"
  by (simp add: session_step_def)

lemma fifo_step:
  assumes "s_running s \<longrightarrow> fifo evs s"
  shows "s_running (session_step ev s) \<longrightarrow> fifo (evs @ [ev]) (session_step ev s)"
proof (cases "s_running s")
  case True
  with assms have f: "fifo evs s" by simp
  show ?thesis
  proof (cases ev)
    case (Enqueue m)
    with f True show ?thesis by (simp add: session_step_def fifo_def enqueued_def)
  next
    case (ReaderTurn rd)
    have e: "s_running (session_step ev s) \<Longrightarrow> session_step ev s =
        (fold apply_effect (fst (snd (handle_reader (s_dist s) rd))) s)
          \<lparr>s_dist := fst (handle_reader (s_dist s) rd), s_running := True\<rparr>"
      using True by (auto simp: ReaderTurn session_step_def split: prod.splits)
    show ?thesis
    proof (cases rule: handle_reader_cases[of rd "s_dist s"])
      case (3 n)
      with e f show ?thesis
        by (auto simp: ReaderTurn fifo_def enqueued_def apply_effect_def)
    next
      case (4 go)
      have "enqueued [ev] = [] \<or> (\<exists>n. rd = Incoming (Frame (ProxyPing n)))"
        by (auto simp: ReaderTurn enqueued_def split: read_event.splits frame_event.splits
            socket_packet.splits)
      moreover have "rd \<noteq> Incoming (Frame (ProxyPing n))" for n
        using 4 by (auto simp: handle_reader_def)
      ultimately have "enqueued [ev] = []" by blast
      with e f 4 show ?thesis by (auto simp: fifo_def)
    qed (use e f in \<open>auto simp: ReaderTurn fifo_def enqueued_def apply_effect_def\<close>)
  next
    case (WriterTurn id_ok feed_ok)
    show ?thesis
    proof (cases "s_queue s")
      case Nil
      with f True show ?thesis by (simp add: WriterTurn session_step_def fifo_def enqueued_def)
    next
      case (Cons m ms)
      obtain d reply frames go where w: "handle_writer (s_dist s) m id_ok feed_ok = (d, reply, frames, go)"
        by (metis prod_cases4)
      have q: "queued_data (m # ms) = queued_data [m] @ queued_data ms"
        "queued_pings (m # ms) = queued_pings [m] @ queued_pings ms"
        "queued_adds (m # ms) = queued_adds [m] @ queued_adds ms"
        by (simp_all add: history_defs)
      have "enqueued [ev] = []" by (simp add: WriterTurn enqueued_def)
      with f True handle_writer_history[of "s_dist s" m id_ok feed_ok d reply frames] show ?thesis
        by (cases go) (simp_all add: WriterTurn session_step_def Cons w fifo_def q)
    qed
  qed (simp add: session_step_def True)
qed (simp add: session_step_stopped)

lemma session_fifo_inv: "s_running (session_run evs) \<longrightarrow> fifo evs (session_run evs)"
proof (induction evs rule: rev_induct)
  case Nil
  show ?case by (simp add: session_new_def fifo_def)
next
  case (snoc ev evs)
  then show ?case using fifo_step[of "session_run evs" evs ev] by simp
qed

text \<open>
  C4. A running session loses nothing, doubles nothing and reorders nothing: the data of all
  Minecraft clients is what was framed, in the order it was put on the channel, followed by what
  still waits; every ping of the CraftIP client is answered by its pong in order; and every
  Minecraft client that asked for an id got exactly one, announced by a join frame of that id.
\<close>

theorem session_fifo:
  assumes "s_running (session_run evs)"
  shows "data_frames (s_frames (session_run evs)) @ queued_data (s_queue (session_run evs))
      = queued_data (enqueued evs)
    \<and> pong_frames (s_frames (session_run evs)) @ queued_pings (s_queue (session_run evs))
      = queued_pings (enqueued evs)
    \<and> map fst (s_ids (session_run evs)) @ queued_adds (s_queue (session_run evs))
      = queued_adds (enqueued evs)
    \<and> join_frames (s_frames (session_run evs)) = map snd (s_ids (session_run evs))"
  using session_fifo_inv[of evs] assms by (simp add: fifo_def)

definition sample_events :: "session_event list" where
  "sample_events = [Enqueue (AddMinecraftClient 4 5), Enqueue (AnswerPingPacket 9),
     WriterTurn True True, Enqueue (Packet 0 [1, 2]), WriterTurn True True,
     ReaderTurn (Incoming (Frame (ProxyData \<lparr>data_client_id = 0, data_bytes = [3]\<rparr>)))]"

lemma sample_session:
  "session_run sample_events = \<lparr>s_dist = put_id distributor_default 0 5,
     s_queue = [Packet 0 [1, 2]], s_frames = [ProxyJoin 0, ProxyPong 9], s_ids = [(4, 0)],
     s_delivered = [(5, [3])], s_running = True\<rparr>"
proof -
  have ins: "distributor_insert distributor_default 5 = Inr (0, put_id distributor_default 0 5)"
    by (simp add: distributor_insert_def distributor_default_def put_id_def MAXIMUM_CLIENTS_def
        numeral_eq_Suc)
  have get: "get_by_id (put_id distributor_default 0 5) 0 = Some 5"
    by (subst dist.look_put) (simp_all add: MAXIMUM_CLIENTS_def)
  show ?thesis
    by (simp add: session_run_def sample_events_def session_step_def session_new_def ins get
        handle_writer_def writer_response_def handle_reader_def apply_effect_def)
qed

theorem session_fifo_witness:
  "data_frames [ProxyJoin 0, ProxyPong 9] @ queued_data [Packet 0 [1, 2]]
      = queued_data (enqueued sample_events)
    \<and> pong_frames [ProxyJoin 0, ProxyPong 9] @ queued_pings [Packet 0 [1, 2]]
      = queued_pings (enqueued sample_events)
    \<and> map fst [(4 :: oneshot, 0 :: client_id)] @ queued_adds [Packet 0 [1, 2]]
      = queued_adds (enqueued sample_events)
    \<and> join_frames [ProxyJoin 0, ProxyPong 9] = map snd [(4 :: oneshot, 0 :: client_id)]"
  using session_fifo[of sample_events] by (simp add: sample_session)

subsection \<open>Who gets which data\<close>

definition owns_id :: "session_event list \<Rightarrow> session \<Rightarrow> channel \<Rightarrow> client_id \<Rightarrow> bool" where
  "owns_id evs s tx i \<longleftrightarrow>
     (\<exists>o1. Enqueue (AddMinecraftClient o1 tx) \<in> set evs \<and> (o1, i) \<in> set (s_ids s))"

definition addressed :: "session_event list \<Rightarrow> session \<Rightarrow> bool" where
  "addressed evs s \<longleftrightarrow> wf_distributor (s_dist s)
   \<and> (\<forall>o1 tx. AddMinecraftClient o1 tx \<in> set (s_queue s) \<longrightarrow> Enqueue (AddMinecraftClient o1 tx) \<in> set evs)
   \<and> (s_running s \<longrightarrow> (\<forall>i tx. get_by_id (s_dist s) i = Some tx \<longrightarrow> owns_id evs s tx i))
   \<and> (\<forall>tx d. (tx, d) \<in> set (s_delivered s) \<longrightarrow> (\<exists>i. owns_id evs s tx i
        \<and> ReaderTurn (Incoming (Frame (ProxyData \<lparr>data_client_id = i, data_bytes = d\<rparr>))) \<in> set evs))"

lemma owns_id_mono:
  "owns_id evs s tx i \<Longrightarrow> set (s_ids s) \<subseteq> set (s_ids s') \<Longrightarrow> owns_id (evs @ [ev]) s' tx i"
  by (auto simp: owns_id_def)

lemma addressedI:
  assumes "addressed evs s" "wf_distributor (s_dist s')" "set (s_ids s) \<subseteq> set (s_ids s')"
    and "\<And>o1 tx. AddMinecraftClient o1 tx \<in> set (s_queue s') \<Longrightarrow>
      AddMinecraftClient o1 tx \<in> set (s_queue s) \<or> ev = Enqueue (AddMinecraftClient o1 tx)"
    and "\<And>i tx. s_running s' \<Longrightarrow> get_by_id (s_dist s') i = Some tx \<Longrightarrow>
      s_running s \<and> get_by_id (s_dist s) i = Some tx \<or> owns_id (evs @ [ev]) s' tx i"
    and "\<And>tx d. (tx, d) \<in> set (s_delivered s') \<Longrightarrow> (tx, d) \<in> set (s_delivered s)
      \<or> (\<exists>i. owns_id evs s tx i
          \<and> ev = ReaderTurn (Incoming (Frame (ProxyData \<lparr>data_client_id = i, data_bytes = d\<rparr>))))"
  shows "addressed (evs @ [ev]) s'"
proof -
  have old: "owns_id evs s tx i \<Longrightarrow> owns_id (evs @ [ev]) s' tx i" for tx i
    using owns_id_mono[OF _ assms(3)] by blast
  show ?thesis
    unfolding addressed_def
  proof (intro conjI allI impI)
    show "Enqueue (AddMinecraftClient o1 tx) \<in> set (evs @ [ev])"
      if "AddMinecraftClient o1 tx \<in> set (s_queue s')" for o1 tx
      using assms(1) assms(4)[OF that] unfolding addressed_def by auto
    show "owns_id (evs @ [ev]) s' tx i"
      if "s_running s'" "get_by_id (s_dist s') i = Some tx" for i tx
      using assms(1) assms(5)[OF that] old unfolding addressed_def by blast
    show "\<exists>i. owns_id (evs @ [ev]) s' tx i \<and> ReaderTurn (Incoming (Frame (ProxyData
        \<lparr>data_client_id = i, data_bytes = d\<rparr>))) \<in> set (evs @ [ev])"
      if "(tx, d) \<in> set (s_delivered s')" for tx d
      using assms(1) assms(6)[OF that] old unfolding addressed_def by (metis Un_iff list.set_intros(1) set_append)
  qed (rule assms(2))
qed

lemma handle_writer_owner:
  assumes "wf_distributor d" "handle_writer d m id_ok feed_ok = (d', reply, frames, True)"
    and "get_by_id d' i = Some tx"
  shows "get_by_id d i = Some tx \<or> (\<exists>o1. m = AddMinecraftClient o1 tx \<and> reply = Some (o1, i))"
proof (cases m)
  case (AddMinecraftClient o1 ch)
  obtain j d1 where p: "distributor_insert d ch = Inr (j, d1)" "d' = d1" "reply = Some (o1, j)"
    using assms(2) by (auto simp: AddMinecraftClient handle_writer_def writer_response_def
        split: sum.splits if_splits prod.splits)
  with insert_Inr(6)[OF assms(1) p(1)] assms(3) show ?thesis
    by (auto simp: AddMinecraftClient split: if_splits)
next
  case (RemoveMinecraftClient j)
  then have "d' = snd (remove_by_id d j)"
    using assms(2) by (auto simp: handle_writer_def writer_response_def split: prod.splits if_splits)
  then show ?thesis using dist.look_clear[OF assms(1), of j] assms(3) by (auto split: if_splits)
qed (use assms in \<open>auto simp: handle_writer_def writer_response_def split: if_splits\<close>)

lemma addressed_step: "addressed evs s \<Longrightarrow> addressed (evs @ [ev]) (session_step ev s)"
proof -
  assume a: "addressed evs s"
  then have wf: "wf_distributor (s_dist s)" by (simp add: addressed_def)
  show ?thesis
  proof (cases "s_running s")
    case True
    show ?thesis
    proof (cases ev)
      case (ReaderTurn rd)
      obtain d effs go where r: "handle_reader (s_dist s) rd = (d, effs, go)"
        by (metis prod_cases3)
      have st: "session_step ev s = (fold apply_effect effs s)\<lparr>s_dist := d, s_running := go\<rparr>"
        by (simp add: session_step_def True ReaderTurn r)
      show ?thesis
      proof (cases rule: handle_reader_cases[of rd "s_dist s"])
        case (1 i)
        then have d: "d = snd (remove_by_id (s_dist s) i)" "effs = []" using r by auto
        show ?thesis
          by (rule addressedI[OF a]) (use d dist.wf_clear[OF wf] dist.look_clear[OF wf] True in
              \<open>auto simp: st split: if_splits\<close>)
      next
        case (2 packet tx)
        then have d: "d = s_dist s" "effs = [SendToMinecraft tx (data_bytes packet)]" using r by auto
        have "owns_id evs s tx (data_client_id packet)"
          using a True 2(2) by (simp add: addressed_def)
        moreover have "ev = ReaderTurn (Incoming (Frame (ProxyData
            \<lparr>data_client_id = data_client_id packet, data_bytes = data_bytes packet\<rparr>)))"
          by (simp add: ReaderTurn 2(1))
        ultimately show ?thesis
          unfolding st by (intro addressedI[OF a]) (use d wf True in \<open>auto simp: apply_effect_def\<close>)
      next
        case (3 n)
        then have d: "d = s_dist s" "effs = [SendToWriter (AnswerPingPacket n)]" using r by auto
        show ?thesis
          by (rule addressedI[OF a]) (use d wf True in \<open>auto simp: st apply_effect_def\<close>)
      next
        case (4 go')
        then have d: "d = s_dist s" "effs = []" using r by auto
        show ?thesis by (rule addressedI[OF a]) (use d wf True in \<open>auto simp: st\<close>)
      qed
    next
      case (WriterTurn id_ok feed_ok)
      show ?thesis
      proof (cases "s_queue s")
        case Nil
        then have "session_step ev s = s" by (simp add: session_step_def WriterTurn)
        then show ?thesis by (intro addressedI[OF a]) (use wf True in auto)
      next
        case (Cons m ms)
        obtain d reply frames go where w: "handle_writer (s_dist s) m id_ok feed_ok = (d, reply, frames, go)"
          by (metis prod_cases4)
        have st: "session_step ev s = s\<lparr>s_dist := d, s_queue := ms, s_frames := s_frames s @ frames,
            s_ids := s_ids s @ (case reply of None \<Rightarrow> [] | Some r \<Rightarrow> [r]), s_running := go\<rparr>"
          by (simp add: session_step_def True WriterTurn Cons w)
        show ?thesis
        proof (rule addressedI[OF a])
          show "wf_distributor (s_dist (session_step ev s))"
            using handle_writer_dist(1)[OF wf w] by (simp add: st)
          fix i tx
          assume h: "s_running (session_step ev s)" "get_by_id (s_dist (session_step ev s)) i = Some tx"
          then have go by (simp add: st)
          with h w have "get_by_id (s_dist s) i = Some tx
              \<or> (\<exists>o1. m = AddMinecraftClient o1 tx \<and> reply = Some (o1, i))"
            by (intro handle_writer_owner[OF wf]) (auto simp: st)
          then show "s_running s \<and> get_by_id (s_dist s) i = Some tx
              \<or> owns_id (evs @ [ev]) (session_step ev s) tx i"
            using a True Cons by (fastforce simp: owns_id_def st addressed_def)
        qed (auto simp: st Cons)
      qed
    qed (rule addressedI[OF a]; use wf True in \<open>auto simp: session_step_def\<close>)+
  next
    case False
    then show ?thesis by (intro addressedI[OF a]) (use wf in \<open>auto simp: session_step_stopped\<close>)
  qed
qed

lemma session_addressed: "addressed evs (session_run evs)"
proof (induction evs rule: rev_induct)
  case Nil
  show ?case by (simp add: addressed_def session_new_def)
qed (simp add: addressed_step)

text \<open>
  C3. Data from the tunnel only goes to the Minecraft client it is addressed to: whatever the
  CraftIP client and the Minecraft clients do, data delivered to a channel came in a frame for an
  id that was given to the Minecraft client of that channel, in answer to its request.
\<close>

theorem session_delivery:
  assumes "(tx, d) \<in> set (s_delivered (session_run evs))"
  shows "\<exists>o1 i. Enqueue (AddMinecraftClient o1 tx) \<in> set evs
     \<and> (o1, i) \<in> set (s_ids (session_run evs))
     \<and> ReaderTurn (Incoming (Frame (ProxyData \<lparr>data_client_id = i, data_bytes = d\<rparr>))) \<in> set evs"
  using session_addressed[of evs] assms by (fastforce simp: addressed_def owns_id_def)

theorem session_delivery_witness:
  "\<exists>o1 i. Enqueue (AddMinecraftClient o1 5) \<in> set sample_events
     \<and> (o1, i) \<in> set (s_ids (session_run sample_events))
     \<and> ReaderTurn (Incoming (Frame (ProxyData \<lparr>data_client_id = i, data_bytes = [3]\<rparr>)))
         \<in> set sample_events"
  by (rule session_delivery) (simp add: sample_session)

subsection \<open>Ids that are used again, and a full table\<close>

lemma insert_free_0:
  assumes "wf_distributor d" "get_by_id d 0 = None"
  shows "distributor_insert d tx = Inr (0, put_id d 0 tx)"
proof (cases "distributor_insert d tx")
  case (Inl e)
  then show ?thesis using insert_Inl(2)[OF assms(1) Inl, of 0] assms(2)
    by (simp add: MAXIMUM_CLIENTS_def)
next
  case (Inr p)
  obtain i d' where p: "p = (i, d')" by (cases p)
  note h = insert_Inr[OF assms(1) Inr[unfolded p]]
  have "i = 0" using h(3)[of 0] assms(2) by auto
  then show ?thesis using Inr p h(4) by simp
qed

definition stale_events :: "oneshot \<Rightarrow> channel \<Rightarrow> oneshot \<Rightarrow> channel \<Rightarrow> session_event list" where
  "stale_events o1 a o2 b =
     [Enqueue (AddMinecraftClient o1 a), WriterTurn True True,
      ReaderTurn (Incoming (Frame (ProxyDisconnect 0))),
      Enqueue (AddMinecraftClient o2 b), WriterTurn True True,
      Enqueue (RemoveMinecraftClient 0)]"

lemma stale_run:
  "get_by_id (s_dist (session_run (stale_events o1 a o2 b))) = [0 \<mapsto> b]
   \<and> session_step (WriterTurn True True) (session_run (stale_events o1 a o2 b))
     = \<lparr>s_dist = snd (remove_by_id (s_dist (session_run (stale_events o1 a o2 b))) 0), s_queue = [],
        s_frames = [ProxyJoin 0, ProxyJoin 0, ProxyDisconnect 0], s_ids = [(o1, 0), (o2, 0)],
        s_delivered = [], s_running = True\<rparr>"
proof -
  let ?d1 = "put_id distributor_default 0 a"
  let ?d2 = "snd (remove_by_id ?d1 0)"
  let ?d3 = "put_id ?d2 0 b"
  have wf: "wf_distributor ?d1" "wf_distributor ?d2" "wf_distributor ?d3"
    by (simp_all add: table_simps)
  have zero: "0 < MAXIMUM_CLIENTS" by (simp add: MAXIMUM_CLIENTS_def)
  have i1: "distributor_insert distributor_default a = Inr (0, ?d1)"
    by (rule insert_free_0) simp_all
  have g2: "get_by_id ?d2 = Map.empty"
    by (auto simp: table_simps zero)
  have i2: "distributor_insert ?d2 b = Inr (0, ?d3)"
    by (rule insert_free_0) (simp_all add: wf g2)
  have g3: "get_by_id ?d3 = [0 \<mapsto> b]" by (simp add: table_simps zero)
  have t: "fst (remove_by_id ?d3 0)" by (simp add: remove_by_id_fst[OF wf(3)] zero)
  have r: "session_run (stale_events o1 a o2 b) = \<lparr>s_dist = ?d3,
      s_queue = [RemoveMinecraftClient 0], s_frames = [ProxyJoin 0, ProxyJoin 0],
      s_ids = [(o1, 0), (o2, 0)], s_delivered = [], s_running = True\<rparr>"
    by (simp add: session_run_def stale_events_def session_step_def session_new_def i1 i2
        handle_writer_def writer_response_def handle_reader_def)
  obtain d4 where d4: "remove_by_id ?d3 0 = (True, d4)" using t by (cases "remove_by_id ?d3 0") simp
  show ?thesis
    unfolding r using g3 by (simp add: session_step_def handle_writer_def writer_response_def d4)
qed

text \<open>
  C31. A late removal evicts the next owner of an id. Client \<open>a\<close> gets id 0, the CraftIP client
  disconnects id 0, client \<open>b\<close> gets the free id 0, and then the removal that the handler of \<open>a\<close>
  always sends when it ends is processed: \<open>b\<close>'s channel is dropped and the CraftIP client is told to
  disconnect it, although \<open>b\<close> never left.
\<close>

theorem stale_removal_evicts:
  "get_by_id (s_dist (session_run (stale_events o1 a o2 b))) 0 = Some b
   \<and> get_by_id (s_dist (session_run (stale_events o1 a o2 b @ [WriterTurn True True]))) 0 = None
   \<and> s_frames (session_run (stale_events o1 a o2 b @ [WriterTurn True True]))
      = [ProxyJoin 0, ProxyJoin 0, ProxyDisconnect 0]
   \<and> s_running (session_run (stale_events o1 a o2 b @ [WriterTurn True True]))"
proof -
  let ?s = "session_run (stale_events o1 a o2 b)"
  have "wf_distributor (s_dist ?s)" using session_addressed[of "stale_events o1 a o2 b"]
    by (simp add: addressed_def)
  then have "get_by_id (snd (remove_by_id (s_dist ?s) 0)) 0 = None" by (simp add: dist.look_clear)
  then show ?thesis using stale_run[of o1 a o2 b] by simp
qed

definition joining :: "nat \<Rightarrow> session_event list" where
  "joining n = concat (map (\<lambda>k. [Enqueue (AddMinecraftClient k k), WriterTurn True True]) [0..<n])"

lemma joining_Suc:
  "session_run (joining (Suc n)) =
     session_step (WriterTurn True True)
       (session_step (Enqueue (AddMinecraftClient n n)) (session_run (joining n)))"
  by (simp add: joining_def session_run_def)

lemma joining_below:
  "n \<le> MAXIMUM_CLIENTS \<Longrightarrow> s_running (session_run (joining n)) \<and> s_queue (session_run (joining n)) = []
     \<and> wf_distributor (s_dist (session_run (joining n)))
     \<and> (\<forall>i. get_by_id (s_dist (session_run (joining n))) i = (if i < n then Some i else None))"
proof (induction n)
  case 0
  then show ?case by (simp add: joining_def session_new_def)
next
  case (Suc n)
  let ?s = "session_run (joining n)"
  from Suc have ih: "s_running ?s" "s_queue ?s = []" "wf_distributor (s_dist ?s)"
    "\<And>i. get_by_id (s_dist ?s) i = (if i < n then Some i else None)"
    by auto
  have free: "get_by_id (s_dist ?s) n = None" "n < MAXIMUM_CLIENTS" using ih(4) Suc.prems by simp_all
  then obtain p where p: "distributor_insert (s_dist ?s) n = Inr p"
    using insert_Inl(2)[OF ih(3), of n] by (cases "distributor_insert (s_dist ?s) n") auto
  obtain i d where id: "p = (i, d)" by (cases p)
  note h = insert_Inr[OF ih(3) p[unfolded id]]
  have "i = n" using h(2) h(3)[of n] ih(4) free by (metis linorder_neqE_nat option.distinct(1))
  with h ih free show ?case
    by (auto simp: joining_Suc session_step_def handle_writer_def writer_response_def p id)
qed

lemma joining_above: "MAXIMUM_CLIENTS < n \<Longrightarrow> \<not> s_running (session_run (joining n))"
proof (induction n)
  case (Suc n)
  let ?s = "session_run (joining n)"
  show ?case
  proof (cases "n = MAXIMUM_CLIENTS")
    case True
    then have ih: "s_running ?s" "s_queue ?s = []" "wf_distributor (s_dist ?s)"
      "\<forall>i < MAXIMUM_CLIENTS. get_by_id (s_dist ?s) i \<noteq> None"
      using joining_below[of n] by auto
    obtain e where "distributor_insert (s_dist ?s) n = Inl e"
      using insert_Inr(1,2)[OF ih(3)] ih(4)
      by (cases "distributor_insert (s_dist ?s) n") (metis prod.exhaust)+
    with ih show ?thesis
      by (simp add: joining_Suc session_step_def handle_writer_def writer_response_def)
  next
    case False
    with Suc show ?thesis by (simp add: joining_Suc session_step_stopped)
  qed
qed simp

text \<open>
  C33. A session serves 255 players at the same time, and no more: when \<open>n\<close> players join and none
  leaves, it is still running exactly for \<open>n \<le> 255\<close>. The 256th does not get an error of its own, it
  ends the session for all.
\<close>

theorem session_capacity: "s_running (session_run (joining n)) \<longleftrightarrow> n \<le> 255"
  using joining_below[of n] joining_above[of n] by (cases "n \<le> 255") (simp_all add: MAXIMUM_CLIENTS_def)

end
