(* ===== verification/Proxy_System.thy ===== *)
theory Proxy_System
  imports Proxy_Session
begin

text \<open>
  All proxy connections of the server together. Every accepted connection that identified itself
  as a proxy runs \<^verbatim>\<open>ProxyClient::new\<close>, \<^verbatim>\<open>authenticate\<close> and \<^verbatim>\<open>handle\<close> in turn, as
  \<^verbatim>\<open>process_socket_connection\<close> composes them, concurrently with the others; they share the
  register. A connection is named by the number of its channel, which is fresh for each.
\<close>

subsection \<open>The system\<close>

datatype phase =
    Fresh
  | Greeted "not_authenticated proxy_client"
  | Ready "authenticated proxy_client"
  | Serving "authenticated proxy_client" session
  | Closed

record system =
  sys_register :: register
  sys_conns :: "channel \<Rightarrow> phase"

definition system_init :: system where
  "system_init = \<lparr>sys_register = register_default, sys_conns = (\<lambda>c. Fresh)\<rparr>"

text \<open>
  What happens, with the inputs of the step. \<open>Abort\<close> is a timeout, an error or a panic before the
  connection serves; \<open>Finish\<close> is the end of \<^verbatim>\<open>handle\<close> after one of its tasks has ended.

  \<open>Start c ok\<close> enters the hostname and sends the welcome (\<open>ok\<close> is whether that works). When it does not,
  the entry is only removed by a later step, \<open>Finish\<close>: between the two the other connections run and
  see it, so the connection stands as one whose session has ended. With it, \<open>Start c False\<close> and \<open>Finish c\<close>
  together do what \<open>handle_start\<close> says.
\<close>

datatype label =
    Greet channel "(frame_event \<times> bool) list"
  | Auth channel "bytes option" bool frame_event
  | Start channel bool
  | Serve channel session_event
  | Finish channel
  | Abort channel

definition set_phase :: "channel \<Rightarrow> phase \<Rightarrow> system \<Rightarrow> system" where
  "set_phase c p sys = sys\<lparr>sys_conns := (sys_conns sys)(c := p)\<rparr>"

inductive sys_step :: "ring_api \<Rightarrow> system \<Rightarrow> label \<Rightarrow> system \<Rightarrow> bool" for api where
  greet: "sys_conns sys c = Fresh \<Longrightarrow> fst (proxy_client_new evs) = Some (Inr pc)
    \<Longrightarrow> sys_step api sys (Greet c evs) (set_phase c (Greeted pc) sys)"
| greet_error: "sys_conns sys c = Fresh \<Longrightarrow> fst (proxy_client_new evs) = Some (Inl e)
    \<Longrightarrow> sys_step api sys (Greet c evs) (set_phase c Closed sys)"
| auth: "sys_conns sys c = Greeted pc \<Longrightarrow> fst (authenticate api pc rng ok reply) = Inr pc'
    \<Longrightarrow> sys_step api sys (Auth c rng ok reply) (set_phase c (Ready pc') sys)"
| auth_error: "sys_conns sys c = Greeted pc \<Longrightarrow> fst (authenticate api pc rng ok reply) = Inl e
    \<Longrightarrow> sys_step api sys (Auth c rng ok reply) (set_phase c Closed sys)"
| start: "sys_conns sys c = Ready pc
    \<Longrightarrow> handle_start (sys_register sys) pc c ok = (r, Inr pc', out)
    \<Longrightarrow> sys_step api sys (Start c ok)
          (set_phase c (Serving pc' session_new) (sys\<lparr>sys_register := r\<rparr>))"
| start_taken: "sys_conns sys c = Ready pc
    \<Longrightarrow> add_server (sys_register sys) (pc_hostname pc) c = Inl e
    \<Longrightarrow> sys_step api sys (Start c ok) (set_phase c Closed sys)"
| start_unsent: "sys_conns sys c = Ready pc
    \<Longrightarrow> add_server (sys_register sys) (pc_hostname pc) c = Inr r
    \<Longrightarrow> sys_step api sys (Start c False)
          (set_phase c (Serving pc (session_new\<lparr>s_running := False\<rparr>)) (sys\<lparr>sys_register := r\<rparr>))"
| serve: "sys_conns sys c = Serving pc s
    \<Longrightarrow> sys_step api sys (Serve c ev) (set_phase c (Serving pc (session_step ev s)) sys)"
| finish: "sys_conns sys c = Serving pc s \<Longrightarrow> \<not> s_running s
    \<Longrightarrow> into_disconnected (sys_register sys) pc = (r, pc')
    \<Longrightarrow> sys_step api sys (Finish c) (set_phase c Closed (sys\<lparr>sys_register := r\<rparr>))"
| abort: "sys_conns sys c = Fresh \<or> (\<exists>pc. sys_conns sys c = Greeted pc)
    \<Longrightarrow> sys_step api sys (Abort c) (set_phase c Closed sys)"

inductive sys_reach :: "ring_api \<Rightarrow> label list \<Rightarrow> system \<Rightarrow> bool" for api where
  init: "sys_reach api [] system_init"
| step: "sys_reach api tr sys \<Longrightarrow> sys_step api sys l sys' \<Longrightarrow> sys_reach api (tr @ [l]) sys'"

inductive_cases sys_step_GreetE: "sys_step api sys (Greet c evs) sys'"
inductive_cases sys_step_StartE: "sys_step api sys (Start c ok) sys'"
inductive_cases sys_step_FinishE: "sys_step api sys (Finish c) sys'"
inductive_simps sys_step_Serve: "sys_step api sys (Serve c ev) sys'"

lemma set_phase_simps [simp]:
  "sys_register (set_phase c p sys) = sys_register sys"
  "sys_conns (set_phase c p sys) = (sys_conns sys)(c := p)"
  by (simp_all add: set_phase_def)

subsection \<open>The register and the serving sessions\<close>

definition owners :: "system \<Rightarrow> (str \<times> channel) set" where
  "owners sys = {(h, c). \<exists>pc s. sys_conns sys c = Serving pc s \<and> pc_hostname pc = h}"

lemma handle_start_Inr:
  "handle_start r pc c ok = (r', Inr pc', out) \<Longrightarrow> add_server r (pc_hostname pc) c = Inr r' \<and> pc' = pc"
  by (auto simp: handle_start_def into_disconnected_def split: sum.splits if_splits)

text \<open>The steps of a start that fails, taken together, are \<open>handle_start\<close>.\<close>

lemma handle_start_steps:
  "add_server r (pc_hostname pc) c = Inl e \<Longrightarrow>
     handle_start r pc c ok = (r, Inl (into_disconnected_unsafe pc), [ProxyError (str_lit ''Already connected?'')])"
  "add_server r (pc_hostname pc) c = Inr r' \<Longrightarrow>
     handle_start r pc c False = (fst (into_disconnected r' pc), Inl (snd (into_disconnected r' pc)), [])"
  by (simp_all add: handle_start_def split: prod.splits)

lemma owners_set_phase:
  "\<lbrakk>\<And>pc s. sys_conns sys c \<noteq> Serving pc s; \<And>pc s. p \<noteq> Serving pc s\<rbrakk>
     \<Longrightarrow> owners (set_phase c p sys) = owners sys"
  by (auto simp: owners_def)

definition consistent :: "system \<Rightarrow> bool" where
  "consistent sys \<longleftrightarrow> (\<forall>h c. get_server (sys_register sys) h = Some c \<longleftrightarrow> (h, c) \<in> owners sys)"

lemma consistent_enter:
  assumes "sys_conns sys c = Ready pc" "add_server (sys_register sys) (pc_hostname pc) c = Inr r"
    and "consistent sys"
  shows "consistent (set_phase c (Serving pc s) (sys\<lparr>sys_register := r\<rparr>))"
proof -
  have "owners (set_phase c (Serving pc s) (sys\<lparr>sys_register := r\<rparr>)) = insert (pc_hostname pc, c) (owners sys)"
    using assms(1) by (auto simp: owners_def)
  then show ?thesis
    using reg.owners_ins[OF assms(2), of "owners sys"] assms(3) by (simp add: consistent_def)
qed

lemma consistent_step: "sys_step api sys l sys' \<Longrightarrow> consistent sys \<Longrightarrow> consistent sys'"
proof (induction rule: sys_step.induct)
  case (start sys c pc ok r pc' out)
  have h: "add_server (sys_register sys) (pc_hostname pc) c = Inr r" "pc' = pc"
    using handle_start_Inr[OF start.hyps(2)] by auto
  show ?case unfolding h(2) using start.hyps(1) h(1) start.prems by (rule consistent_enter)
next
  case (start_taken sys c pc e ok)
  then have "owners (set_phase c Closed sys) = owners sys" by (intro owners_set_phase) auto
  with start_taken.prems show ?case by (simp add: consistent_def)
next
  case (start_unsent sys c pc r)
  then show ?case by (rule consistent_enter)
next
  case (finish sys c pc s r pc')
  have r: "r = remove_server (sys_register sys) (pc_hostname pc)"
    using finish.hyps(3) by (simp add: into_disconnected_def)
  have own: "(pc_hostname pc, c) \<in> owners sys" using finish.hyps(1) by (auto simp: owners_def)
  have "owners (set_phase c Closed (sys\<lparr>sys_register := r\<rparr>))
      = {(h, d) \<in> owners sys. h \<noteq> pc_hostname pc}"
  proof
    show "owners (set_phase c Closed (sys\<lparr>sys_register := r\<rparr>)) \<subseteq> {(h, d) \<in> owners sys. h \<noteq> pc_hostname pc}"
    proof clarify
      fix h d
      assume "(h, d) \<in> owners (set_phase c Closed (sys\<lparr>sys_register := r\<rparr>))"
      then have hd: "(h, d) \<in> owners sys" "d \<noteq> c" by (auto simp: owners_def split: if_splits)
      moreover have "h \<noteq> pc_hostname pc"
        using hd own finish.prems unfolding consistent_def by (metis option.inject)
      ultimately show "(h, d) \<in> owners sys \<and> h \<noteq> pc_hostname pc" by blast
    qed
    show "{(h, d) \<in> owners sys. h \<noteq> pc_hostname pc} \<subseteq> owners (set_phase c Closed (sys\<lparr>sys_register := r\<rparr>))"
      using finish.hyps(1) by (auto simp: owners_def)
  qed
  then show ?case
    using reg.owners_del[of "sys_register sys" "owners sys" "pc_hostname pc"] finish.prems
    by (simp add: consistent_def r)
next
  case (serve sys c pc s ev)
  then have "owners (set_phase c (Serving pc (session_step ev s)) sys) = owners sys"
    by (auto simp: owners_def)
  with serve.prems show ?case by (simp add: consistent_def)
next
  case (abort sys c)
  then have "owners (set_phase c Closed sys) = owners sys" by (intro owners_set_phase) auto
  with abort.prems show ?case by (simp add: consistent_def)
qed (simp_all add: consistent_def owners_set_phase)

lemma sys_reach_consistent: "sys_reach api tr sys \<Longrightarrow> consistent sys"
proof (induction rule: sys_reach.induct)
  case init
  then show ?case
    by (simp add: consistent_def owners_def system_init_def register_default_def get_server_def)
qed (rule consistent_step)

text \<open>
  C2. The register holds exactly the serving sessions: in every reachable state a hostname leads to
  a channel if and only if that connection is serving it. In particular a hostname is never served
  by two connections, a session that could not register does not take the entry of the one that
  did, and a session that ended leaves none behind.
\<close>

theorem registered_iff_serving:
  assumes "sys_reach api tr sys"
  shows "(get_server (sys_register sys) h = Some c \<longleftrightarrow>
            (\<exists>pc s. sys_conns sys c = Serving pc s \<and> pc_hostname pc = h))
    \<and> (sys_conns sys c = Serving pc1 s1 \<and> sys_conns sys c' = Serving pc2 s2
          \<and> pc_hostname pc1 = pc_hostname pc2 \<longrightarrow> c = c')"
proof -
  have k: "get_server (sys_register sys) h = Some c \<longleftrightarrow>
      (\<exists>pc s. sys_conns sys c = Serving pc s \<and> pc_hostname pc = h)" for h c
    using sys_reach_consistent[OF assms] by (simp add: consistent_def owners_def)
  show ?thesis using k[of h c] k[of "pc_hostname pc2" c] k[of "pc_hostname pc2" c'] by auto
qed

subsection \<open>Who can register\<close>

definition authenticated_as :: "ring_api \<Rightarrow> label list \<Rightarrow> channel \<Rightarrow> str \<Rightarrow> bool" where
  "authenticated_as api tr c h \<longleftrightarrow>
     (\<exists>pk challenge reply. Auth c (Some challenge) True reply \<in> set tr
        \<and> proves_key api pk challenge reply \<and> h = get_hostname api pk)"

definition all_authenticated :: "ring_api \<Rightarrow> label list \<Rightarrow> system \<Rightarrow> bool" where
  "all_authenticated api tr sys \<longleftrightarrow>
     (\<forall>c pc. sys_conns sys c = Ready pc \<or> (\<exists>s. sys_conns sys c = Serving pc s)
        \<longrightarrow> authenticated_as api tr c (pc_hostname pc))"

lemma authenticated_as_mono: "authenticated_as api tr c h \<Longrightarrow> authenticated_as api (tr @ [l]) c h"
  by (auto simp: authenticated_as_def)

lemma all_authenticated_step:
  "sys_step api sys l sys' \<Longrightarrow> all_authenticated api tr sys \<Longrightarrow> all_authenticated api (tr @ [l]) sys'"
proof (induction rule: sys_step.induct)
  case (auth sys c pc rng ok reply pc')
  then have "authenticated_as api (tr @ [Auth c rng ok reply]) c (pc_hostname pc')"
    by (fastforce simp: authenticate_Inr authenticated_as_def)
  with auth.prems authenticated_as_mono show ?case by (auto simp: all_authenticated_def)
next
  case (start sys c pc ok r pc' out)
  then have "pc' = pc" by (simp add: handle_start_Inr)
  with start show ?case
    unfolding all_authenticated_def by (auto intro: authenticated_as_mono)
qed (auto simp: all_authenticated_def intro: authenticated_as_mono)

lemma sys_reach_authenticated: "sys_reach api tr sys \<Longrightarrow> all_authenticated api tr sys"
proof (induction rule: sys_reach.induct)
  case init
  then show ?case by (simp add: all_authenticated_def system_init_def)
qed (rule all_authenticated_step)

text \<open>
  C1. Nobody serves a hostname without the key: if a hostname leads to a connection, that
  connection answered its challenge with a signature that verifies under a public key, and the
  hostname is the one of that key.
\<close>

theorem registered_authenticated:
  assumes "sys_reach api tr sys" and "get_server (sys_register sys) h = Some c"
  shows "\<exists>pk challenge signature.
     Auth c (Some challenge) True (Frame (ProxyAuthResponse signature)) \<in> set tr
     \<and> verify api pk challenge signature \<and> h = get_hostname api pk"
proof -
  obtain pc s where "sys_conns sys c = Serving pc s" "pc_hostname pc = h"
    using sys_reach_consistent[OF assms(1)] assms(2) by (auto simp: consistent_def owners_def)
  then have "authenticated_as api tr c h"
    using sys_reach_authenticated[OF assms(1)] by (auto simp: all_authenticated_def)
  then show ?thesis by (auto simp: authenticated_as_def proves_key_def)
qed

lemma handle_start_free:
  "get_server r (pc_hostname pc) = None \<Longrightarrow>
     \<exists>r' out. handle_start r pc c True = (r', Inr pc, out)
        \<and> get_server r' = (get_server r)(pc_hostname pc \<mapsto> c)"
  using reg.ins_free[of r "pc_hostname pc" c] by (auto simp: handle_start_def)

text \<open>
  C14. The owner of a key is not locked out: an authenticated connection can start to serve its
  hostname, and is then registered, exactly when no other connection serves it at that moment;
  so after the old session has ended, a reconnect succeeds.
\<close>

theorem start_iff_free:
  assumes "sys_reach api tr sys" and "sys_conns sys c = Ready pc"
  shows "(\<exists>sys'. sys_step api sys (Start c True) sys'
           \<and> get_server (sys_register sys') (pc_hostname pc) = Some c)
     \<longleftrightarrow> (\<forall>c' pc' s. sys_conns sys c' = Serving pc' s \<longrightarrow> pc_hostname pc' \<noteq> pc_hostname pc)"
proof -
  let ?h = "pc_hostname pc"
  have reg: "get_server (sys_register sys) h = Some d \<longleftrightarrow> (h, d) \<in> owners sys" for h d
    using sys_reach_consistent[OF assms(1)] by (simp add: consistent_def)
  have free: "(\<forall>c' pc' s. sys_conns sys c' = Serving pc' s \<longrightarrow> pc_hostname pc' \<noteq> ?h)
      \<longleftrightarrow> get_server (sys_register sys) ?h = None"
  proof -
    have "get_server (sys_register sys) ?h = None \<longleftrightarrow> (\<forall>d. (?h, d) \<notin> owners sys)"
      using reg[of ?h] by (metis not_None_eq)
    then show ?thesis by (auto simp: owners_def)
  qed
  show ?thesis
  proof (cases "get_server (sys_register sys) ?h")
    case None
    obtain r out where "handle_start (sys_register sys) pc c True = (r, Inr pc, out)"
      "get_server r = (get_server (sys_register sys))(?h \<mapsto> c)"
      using handle_start_free[OF None] by blast
    with sys_step.start[OF assms(2), of True r pc out] None free show ?thesis by fastforce
  next
    case (Some d)
    have "d \<noteq> c" using Some reg[of ?h d] assms(2) by (auto simp: owners_def)
    moreover have "get_server (sys_register sys') ?h = Some d"
      if "sys_step api sys (Start c True) sys'" for sys'
      using that Some assms(2)
      by (auto elim!: sys_step_StartE dest!: handle_start_Inr reg.ins_InrD)
    ultimately show ?thesis using free Some by (metis option.distinct(1) option.inject)
  qed
qed

subsection \<open>A run\<close>

definition sample_hello :: proxy_hello_packet where
  "sample_hello = \<lparr>hello_version = PROTOCOL_VERSION,
     hello_hostname = get_hostname sample_api sample_public, hello_auth = PublicKey sample_public\<rparr>"

definition sample_signature :: signature where
  "sample_signature = replicate 32 7 @ take 32 (PREFIX @ replicate 64 1)"

definition sample_labels :: "label list" where
  "sample_labels = [Greet 3 [(Frame (ProxyPing 1), True), (Frame (ProxyHello sample_hello), True)],
     Auth 3 (Some (replicate 64 1)) True (Frame (ProxyAuthResponse sample_signature))]"

definition sample_ready :: "authenticated proxy_client" where
  "sample_ready = \<lparr>pc_hostname = get_hostname sample_api sample_public, pc_state = Authenticated\<rparr>"

lemma sample_verify: "verify sample_api sample_public (replicate 64 1) sample_signature"
  by (simp add: verify_def sample_api_def sample_public_def sample_signature_def
      prefixed_challenge_def PREFIX_def)

lemma sample_reach_ready:
  "sys_reach sample_api sample_labels (set_phase 3 (Ready sample_ready) system_init)"
proof -
  let ?pc = "\<lparr>pc_hostname = hello_hostname sample_hello, pc_state = \<lparr>na_hello = sample_hello\<rparr>\<rparr>"
  let ?s1 = "set_phase 3 (Greeted ?pc) system_init"
  let ?evs = "[(Frame (ProxyPing 1), True), (Frame (ProxyHello sample_hello), True)]"
  let ?auth = "Auth 3 (Some (replicate 64 1)) True (Frame (ProxyAuthResponse sample_signature))"
  have "sys_step sample_api system_init (Greet 3 ?evs) ?s1"
    by (rule sys_step.greet) (simp_all add: system_init_def)
  then have r1: "sys_reach sample_api ([] @ [Greet 3 ?evs]) ?s1"
    by (rule sys_reach.step[OF sys_reach.init])
  have "fst (authenticate sample_api ?pc (Some (replicate 64 1)) True
      (Frame (ProxyAuthResponse sample_signature))) = Inr sample_ready"
    using sample_verify
    by (simp add: authenticate_Inr sample_hello_def proves_key_def sample_ready_def)
  then have "sys_step sample_api ?s1 ?auth (set_phase 3 (Ready sample_ready) ?s1)"
    by (intro sys_step.auth) simp_all
  from sys_reach.step[OF r1 this] show ?thesis
    by (simp add: sample_labels_def set_phase_def)
qed

definition sample_serving :: system where
  "sample_serving = set_phase 3 (Serving sample_ready session_new)
     (system_init\<lparr>sys_register := \<lparr>servers = [(pc_hostname sample_ready, 3)], client_count = 0\<rparr>\<rparr>)"

lemma sample_reach_serving:
  "sys_reach sample_api (sample_labels @ [Start 3 True]) sample_serving"
proof -
  have "sys_step sample_api (set_phase 3 (Ready sample_ready) system_init) (Start 3 True)
      (set_phase 3 (Serving sample_ready session_new)
        ((set_phase 3 (Ready sample_ready) system_init)\<lparr>sys_register :=
           \<lparr>servers = [(pc_hostname sample_ready, 3)], client_count = 0\<rparr>\<rparr>))"
    by (rule sys_step.start[where out = "[ProxyHelloResponse \<lparr>connected_version = PROTOCOL_VERSION\<rparr>]"])
      (simp_all add: handle_start_def add_server_def system_init_def register_default_def)
  from sys_reach.step[OF sample_reach_ready this] show ?thesis
    by (simp add: sample_serving_def set_phase_def)
qed

theorem registered_iff_serving_witness:
  "get_server (sys_register sample_serving) (pc_hostname sample_ready) = Some 3 \<longleftrightarrow>
      (\<exists>pc s. sys_conns sample_serving 3 = Serving pc s \<and> pc_hostname pc = pc_hostname sample_ready)"
  using registered_iff_serving[OF sample_reach_serving] by blast

theorem registered_authenticated_witness:
  "\<exists>pk challenge signature.
     Auth 3 (Some challenge) True (Frame (ProxyAuthResponse signature))
       \<in> set (sample_labels @ [Start 3 True])
     \<and> verify sample_api pk challenge signature
     \<and> pc_hostname sample_ready = get_hostname sample_api pk"
  by (rule registered_authenticated[OF sample_reach_serving])
    (simp add: sample_serving_def get_server_def)

theorem start_iff_free_witness:
  "\<exists>sys'. sys_step sample_api (set_phase 3 (Ready sample_ready) system_init) (Start 3 True) sys'
      \<and> get_server (sys_register sys') (pc_hostname sample_ready) = Some 3"
proof -
  have "sys_conns (set_phase 3 (Ready sample_ready) system_init) 3 = Ready sample_ready" by simp
  from start_iff_free[OF sample_reach_ready this] show ?thesis by (simp add: system_init_def)
qed

end
