(* ===== verification/Client.thy ===== *)
theory Client
  imports Proxy_System
begin

text \<open>
  The CraftIP client: \<^verbatim>\<open>crates/client/src/client.rs\<close> with the types of \<^verbatim>\<open>structs.rs\<close>. It connects to
  the proxy, proves that it has the private key, and then serves the tunnel: a reader that keeps
  the table of local connections, and a writer that sends what they produce.
\<close>

subsection \<open>Data\<close>

datatype stats = Connected | ClientsConnected nat | PingStat u16

datatype client_error =
    ClientIo
  | ProtocolError packet_codec_error
  | ProxyClosedConnection
  | UserClosedConnection
  | ClientTimeout
  | ClientProxyError str
  | MinecraftServerNotFound
  | UnexpectedPacket "frame_event option"
  | Other

datatype local_to_proxy =
    LocalPacket client_id minecraft_data_packet
  | LocalRemove client_id
  | LocalPing u16
  | LocalDeath str

datatype server_authentication = Key server_private_key

record server =
  server_name :: str
  server_local :: str
  server_auth :: server_authentication

definition STANDARD_LOCAL_PORT :: str where "STANDARD_LOCAL_PORT = str_lit ''25565''"

definition server_new_from_key :: "ring_api \<Rightarrow> server_private_key \<Rightarrow> server option" where
  "server_new_from_key api key = (case get_public_key api key of
     None \<Rightarrow> None
   | Some pk \<Rightarrow> Some \<lparr>server_name = get_hostname api pk, server_local = STANDARD_LOCAL_PORT,
                      server_auth = Key key\<rparr>)"

text \<open>\<open>stats_rx\<close> is \<open>None\<close> without a statistics channel, else whether its receiver still exists.\<close>

record client =
  connections :: "channel option list"
  connections_len :: nat
  stats_rx :: "bool option"
  server_cfg :: server

definition client_new :: "server \<Rightarrow> bool option \<Rightarrow> client" where
  "client_new cfg stats = \<lparr>connections = replicate MAXIMUM_CLIENTS None, connections_len = 0,
     stats_rx = stats, server_cfg = cfg\<rparr>"

subsection \<open>The table of connections\<close>

text \<open>
  How a task stops: by a panic, by returning an error, or by returning normally. An operation of
  the session gives such a stop or its result.
\<close>

datatype reason =
    DecodeFailed
  | ProxyHasClosed
  | ClientUnknown
  | UnexpectedMessage socket_packet
  | ConnectionTimedOut
  | ChannelClosed
  | SocketFailed

datatype stop = Panic | Bail reason | Exit

datatype client_effect =
    Spawn client_id channel
  | Deliver channel minecraft_data_packet
  | Stat stats
  | ToProxy local_to_proxy

definition notify :: "client \<Rightarrow> stop + client \<times> client_effect list" where
  "notify c = (case stats_rx c of
     None \<Rightarrow> Inr (c, [])
   | Some alive \<Rightarrow> if alive then Inr (c, [Stat (ClientsConnected (connections_len c))]) else Inl Panic)"

definition add_connection ::
  "client \<Rightarrow> client_id \<Rightarrow> channel \<Rightarrow> stop + client \<times> client_effect list" where
  "add_connection c i tx =
    notify (if i < length (connections c)
            then c\<lparr>connections := (connections c)[i := Some tx],
                   connections_len := min (connections_len c + 1) USIZE_MAX\<rparr>
            else c)"

definition remove_connection :: "client \<Rightarrow> client_id \<Rightarrow> stop + client \<times> client_effect list" where
  "remove_connection c i =
    (if i < length (connections c)
     then if connections c ! i = None then Inr (c, [])
          else notify (c\<lparr>connections := (connections c)[i := None],
                         connections_len := connections_len c - 1\<rparr>)
     else notify c)"

definition get_connection :: "client \<Rightarrow> client_id \<Rightarrow> channel option" where
  "get_connection c i = (if i < length (connections c) then connections c ! i else None)"

text \<open>\<open>alive\<close>: whether the task of the connection still receives. A dead one is removed.\<close>

definition send_to ::
  "client \<Rightarrow> client_id \<Rightarrow> minecraft_data_packet \<Rightarrow> bool \<Rightarrow> stop + client \<times> client_effect list" where
  "send_to c i msg alive = (case get_connection c i of
     None \<Rightarrow> Inl (Bail ClientUnknown)
   | Some tx \<Rightarrow> if alive then Inr (c, [Deliver tx msg]) else remove_connection c i)"

subsection \<open>Connecting and authenticating\<close>

text \<open>The bytes written on a new connection to the proxy.\<close>

definition identification :: bytes where
  "identification = PROXY_IDENTIFIER @ be_bytes 2 PROTOCOL_VERSION"

definition connect :: "bool \<Rightarrow> bool \<Rightarrow> bool \<Rightarrow> client_error + bytes" where
  "connect local_ok proxy_ok write_ok =
    (if \<not> local_ok then Inl MinecraftServerNotFound
     else if \<not> proxy_ok then Inl ClientIo
     else if \<not> write_ok then Inl ClientIo
     else Inr identification)"

text \<open>
  \<^verbatim>\<open>auth\<close> with the two frames that the proxy answers; \<open>send_ok\<close> tells for each of the two sends
  whether it succeeds. The packets sent are part of the result; the outer \<open>None\<close> is a panic in the
  crypto library.
\<close>

definition auth_hello :: "server \<Rightarrow> server_public_key \<Rightarrow> socket_packet" where
  "auth_hello cfg pk = ProxyHello \<lparr>hello_version = PROTOCOL_VERSION,
     hello_hostname = server_name cfg, hello_auth = PublicKey pk\<rparr>"

definition auth_finish ::
  "client \<Rightarrow> frame_event \<Rightarrow> (client_error + unit) \<times> stats list" where
  "auth_finish c reply = (case reply of
     Frame (ProxyHelloResponse r) \<Rightarrow>
       (case stats_rx c of
          None \<Rightarrow> (Inr (), [])
        | Some alive \<Rightarrow> if alive then (Inr (), [Connected]) else (Inl Other, []))
   | Frame (ProxyError e) \<Rightarrow> (Inl (ClientProxyError e), [])
   | Eof \<Rightarrow> (Inl ProxyClosedConnection, [])
   | FrameError e \<Rightarrow> (Inl (ProtocolError e), [])
   | e \<Rightarrow> (Inl (UnexpectedPacket (Some e)), []))"

definition auth ::
  "ring_api \<Rightarrow> client \<Rightarrow> bool \<times> bool \<Rightarrow> frame_event \<Rightarrow> frame_event
     \<Rightarrow> ((client_error + unit) \<times> socket_packet list \<times> stats list) option" where
  "auth api c send_ok reply1 reply2 =
    (case server_auth (server_cfg c) of Key private_key \<Rightarrow>
      (case get_public_key api private_key of
         None \<Rightarrow> None
       | Some pk \<Rightarrow>
          let hello = auth_hello (server_cfg c) pk in
          if \<not> fst send_ok then Some (Inl ClientIo, [], [])
          else (case reply1 of
              Eof \<Rightarrow> Some (Inl ProxyClosedConnection, [hello], [])
            | Frame (ProxyAuthRequest challenge) \<Rightarrow>
                (case sign api private_key challenge of
                   None \<Rightarrow> None
                 | Some signature \<Rightarrow>
                    if \<not> snd send_ok then Some (Inl ClientIo, [hello], [])
                    else (case auth_finish c reply2 of (res, stats) \<Rightarrow>
                           Some (res, [hello, ProxyAuthResponse signature], stats)))
            | e \<Rightarrow> Some (Inl (UnexpectedPacket (Some e)), [hello], []))))"

text \<open>\<^verbatim>\<open>ping\<close>: \<open>random\<close> is the low half of the clock.\<close>

definition ping :: "u16 \<Rightarrow> bool \<Rightarrow> frame_event \<Rightarrow> (client_error + unit) \<times> socket_packet list" where
  "ping random send_ok reply =
    (if \<not> send_ok then (Inl ClientIo, [])
     else (case reply of
         Frame (ProxyPong random_ret) \<Rightarrow>
           if random \<noteq> random_ret then (Inl (UnexpectedPacket (Some reply)), [ProxyPing random])
           else (Inr (), [ProxyPing random])
       | other \<Rightarrow> (Inl (UnexpectedPacket (Some other)), [ProxyPing random])))"

subsection \<open>The writer task\<close>

text \<open>
  One message of \<^verbatim>\<open>writer_handler\<close>: the ids told to the reader and the frames fed. \<open>reader_ok\<close>
  tells whether the reader still listens, \<open>feed_ok\<close> whether the socket takes the frame.
\<close>

definition writer_handler ::
  "local_to_proxy \<Rightarrow> bool \<Rightarrow> bool \<Rightarrow> (client_id list \<times> socket_packet list) \<times> stop option" where
  "writer_handler pkg reader_ok feed_ok =
    (let fed = (\<lambda>ids frame. if feed_ok then ((ids, [frame]), None)
                            else ((ids, []), Some (Bail SocketFailed))) in
     case pkg of
       LocalPacket i d \<Rightarrow> fed [] (ProxyData (proxy_data_packet_new d i))
     | LocalRemove i \<Rightarrow>
         if \<not> reader_ok then (([], []), Some Exit) else fed [i] (ProxyDisconnect i)
     | LocalDeath msg \<Rightarrow> (([], []), Some Exit)
     | LocalPing n \<Rightarrow> fed [] (ProxyPing n))"

subsection \<open>The reader task\<close>

text \<open>
  What \<^verbatim>\<open>select!\<close> can meet: a frame of the proxy, an id from the writer (\<open>None\<close> when the writer has
  ended), the ping timer, and the timeout. \<open>fresh\<close> is the channel of a new connection, \<open>alive\<close>
  whether the addressed connection still receives, \<open>now\<close> the clock in milliseconds as \<^verbatim>\<open>u16\<close>,
  \<open>writer_ok\<close> whether the writer still receives.
\<close>

datatype client_event =
    FromProxy frame_event
  | FromWriter "client_id option"
  | PingTimer
  | IdleTimeout

definition saturating_sub :: "u16 \<Rightarrow> u16 \<Rightarrow> u16" where
  "saturating_sub a b = (if b \<le> a then a - b else 0)"

definition reader_handler ::
  "client \<Rightarrow> channel \<Rightarrow> bool \<Rightarrow> u16 \<Rightarrow> bool \<Rightarrow> client_event \<Rightarrow> stop + client \<times> client_effect list" where
  "reader_handler c fresh alive now writer_ok ev = (case ev of
     FromProxy (Frame msg) \<Rightarrow> (case msg of
         ProxyJoin i \<Rightarrow> (case add_connection c i fresh of
             Inl s \<Rightarrow> Inl s
           | Inr (c', effs) \<Rightarrow> Inr (c', effs @ [Spawn i fresh]))
       | ProxyData packet \<Rightarrow> send_to c (data_client_id packet) (data_bytes packet) alive
       | ProxyDisconnect i \<Rightarrow> remove_connection c i
       | ProxyPong n \<Rightarrow> (case stats_rx c of
             None \<Rightarrow> Inr (c, [])
           | Some rx \<Rightarrow> if rx then Inr (c, [Stat (PingStat (saturating_sub now n))])
                        else Inl (Bail ChannelClosed))
       | e \<Rightarrow> Inl (Bail (UnexpectedMessage e)))
   | FromProxy (FrameError e) \<Rightarrow> Inl (Bail DecodeFailed)
   | FromProxy Eof \<Rightarrow> Inl (Bail ProxyHasClosed)
   | FromWriter (Some i) \<Rightarrow> remove_connection c i
   | FromWriter None \<Rightarrow> Inl Exit
   | PingTimer \<Rightarrow> if writer_ok then Inr (c, [ToProxy (LocalPing now)]) else Inl (Bail ChannelClosed)
   | IdleTimeout \<Rightarrow> Inl (Bail ConnectionTimedOut))"

text \<open>A run of the reader: it stops at the first event that stops it.\<close>

record client_input =
  in_event :: client_event
  in_fresh :: channel
  in_alive :: bool
  in_now :: u16
  in_writer_ok :: bool

fun client_run ::
  "client \<Rightarrow> client_input list \<Rightarrow> client \<times> client_effect list \<times> stop option" where
  "client_run c [] = (c, [], None)"
| "client_run c (i # is) =
     (case reader_handler c (in_fresh i) (in_alive i) (in_now i) (in_writer_ok i) (in_event i) of
        Inl s \<Rightarrow> (c, [], Some s)
      | Inr (c', effs) \<Rightarrow> (case client_run c' is of (c'', effs', s) \<Rightarrow> (c'', effs @ effs', s)))"

subsection \<open>The table keeps the contract of a table of ids\<close>

definition wf_client :: "client \<Rightarrow> bool" where
  "wf_client c \<longleftrightarrow> length (connections c) = MAXIMUM_CLIENTS"

definition put_connection :: "client \<Rightarrow> client_id \<Rightarrow> channel \<Rightarrow> client" where
  "put_connection c i tx = c\<lparr>connections := (connections c)[i := Some tx],
     connections_len := min (connections_len c + 1) USIZE_MAX\<rparr>"

definition clear_connection :: "client \<Rightarrow> client_id \<Rightarrow> client" where
  "clear_connection c i = c\<lparr>connections := (connections c)[i := None],
     connections_len := connections_len c - 1\<rparr>"

interpretation conn: id_table get_connection put_connection clear_connection wf_client
  by unfold_locales
    (auto simp: get_connection_def put_connection_def clear_connection_def wf_client_def
      nth_list_update fun_eq_iff split: if_splits)

lemmas connection_table [table_simps] = conn.look_put conn.look_clear conn.wf_put conn.wf_clear

lemma notify_Inr: "notify c = Inr (c', effs) \<Longrightarrow> c' = c"
  by (auto simp: notify_def split: option.splits if_splits)

lemma add_connection_Inr:
  "wf_client c \<Longrightarrow> add_connection c i tx = Inr (c', effs)
    \<Longrightarrow> c' = (if i < MAXIMUM_CLIENTS then put_connection c i tx else c)"
  by (auto simp: add_connection_def wf_client_def put_connection_def dest!: notify_Inr)

lemma remove_connection_Inr:
  "wf_client c \<Longrightarrow> remove_connection c i = Inr (c', effs)
    \<Longrightarrow> c' = (if get_connection c i \<noteq> None then clear_connection c i else c)"
  by (auto simp: remove_connection_def wf_client_def clear_connection_def get_connection_def
      split: if_splits dest!: notify_Inr)

lemma wf_client_new [simp]: "wf_client (client_new cfg st)"
  by (simp add: wf_client_def client_new_def)

lemma get_connection_new [simp]: "get_connection (client_new cfg st) = Map.empty"
  by (simp add: get_connection_def client_new_def fun_eq_iff)

end
