(* ===== verification/Cursor.thy ===== *)
theory Cursor
  imports Utf
begin

text \<open>
  The byte cursor of \<^verbatim>\<open>crates/protocol/src/cursor.rs\<close>: variable-length integers, UTF-8 and
  UTF-16 strings, and byte matching. A reader is a function from the cursor to the outcome and
  the cursor after it, as the Rust methods take \<^verbatim>\<open>&mut self\<close> and move the position even when they
  do not return a value. Reading an integer past the end, slicing or indexing the buffer past
  its end and advancing past its end are \<open>Panicked\<close>, as they are in Rust, so the checks of the
  length that the readers make are what keeps them from panicking.

  Two facts are proved of every reader: it is \<open>streaming\<close> (an answer other than \<^verbatim>\<open>Ok(None)\<close> is
  the same when more bytes follow) and \<open>safe\<close> (it never panics).
\<close>

record cursor =
  cbuf :: bytes
  cpos :: nat

type_synonym 'a reader = "cursor \<Rightarrow> 'a outcome \<times> cursor"

definition cursor_new :: "bytes \<Rightarrow> cursor" where
  "cursor_new bs = \<lparr>cbuf = bs, cpos = 0\<rparr>"

definition remaining :: "cursor \<Rightarrow> nat" where
  "remaining c = length (cbuf c) - cpos c"

definition wf_cursor :: "cursor \<Rightarrow> bool" where
  "wf_cursor c \<longleftrightarrow> cpos c \<le> length (cbuf c)"

subsection \<open>Integers of fixed width\<close>

definition get_be :: "nat \<Rightarrow> 'a::len word reader" where
  "get_be n c =
     (if remaining c < n then (Panicked, c)
      else (Parsed (of_be (take n (drop (cpos c) (cbuf c)))), c\<lparr>cpos := cpos c + n\<rparr>))"

definition get_u8 :: "u8 reader" where "get_u8 = get_be 1"
definition get_u16 :: "u16 reader" where "get_u16 = get_be 2"
definition get_u32 :: "u32 reader" where "get_u32 = get_be 4"

subsection \<open>Slices, indices and moves\<close>

text \<open>\<^verbatim>\<open>&self.get_ref().as_ref()[position..position + n]\<close>: out of range, the slice panics.\<close>

definition peek_slice :: "nat \<Rightarrow> bytes reader" where
  "peek_slice n c =
     (if length (cbuf c) < cpos c + n then (Panicked, c)
      else (Parsed (take n (drop (cpos c) (cbuf c))), c))"

text \<open>\<^verbatim>\<open>self.get_ref().as_ref()[position + i]\<close>.\<close>

definition byte_at :: "nat \<Rightarrow> u8 reader" where
  "byte_at i c =
     (if length (cbuf c) \<le> cpos c + i then (Panicked, c) else (Parsed (cbuf c ! (cpos c + i)), c))"

text \<open>\<^verbatim>\<open>self.advance(n)\<close>, which panics when fewer than \<open>n\<close> bytes remain.\<close>

definition advance :: "nat \<Rightarrow> unit reader" where
  "advance n c = (if remaining c < n then (Panicked, c) else (Parsed (), c\<lparr>cpos := cpos c + n\<rparr>))"

subsection \<open>Control flow of the readers\<close>

text \<open>The macro \<^verbatim>\<open>propagate!\<close>: return early on \<^verbatim>\<open>Err\<close> and on \<^verbatim>\<open>Ok(None)\<close>, else go on with the value.\<close>

definition propagate :: "'a reader \<Rightarrow> ('a \<Rightarrow> 'b reader) \<Rightarrow> 'b reader" where
  "propagate m f c =
     (case m c of
        (Failed e, c') \<Rightarrow> (Failed e, c')
      | (Incomplete, c') \<Rightarrow> (Incomplete, c')
      | (Panicked, c') \<Rightarrow> (Panicked, c')
      | (Parsed v, c') \<Rightarrow> f v c')"

text \<open>\<^verbatim>\<open>if self.remaining() < n { return Ok(None) }\<close> before the rest of a reader.\<close>

definition need :: "nat \<Rightarrow> 'a reader \<Rightarrow> 'a reader" where
  "need n m c = (if remaining c < n then (Incomplete, c) else m c)"

definition ok_some :: "'a \<Rightarrow> 'a reader" where
  "ok_some v c = (Parsed v, c)"

definition fail_with :: "packet_error \<Rightarrow> 'a reader" where
  "fail_with e c = (Failed e, c)"

subsection \<open>Reading\<close>

fun get_varint_loop :: "nat \<Rightarrow> i32 \<Rightarrow> nat \<Rightarrow> i32 reader" where
  "get_varint_loop 0 value position = fail_with NotValid"
| "get_varint_loop (Suc n) value position =
     need 1 (propagate get_u8 (\<lambda>current_byte.
       let value' = value OR push_bit position (ucast (current_byte AND 0x7F)) in
       if current_byte AND 0x80 = 0 then ok_some value'
       else get_varint_loop n value' (position + 7)))"

definition get_varint :: "i32 reader" where
  "get_varint = get_varint_loop 5 0 0"

text \<open>\<^verbatim>\<open>x as usize\<close> for an \<^verbatim>\<open>i32\<close>: sign extension to 64 bits, so a negative value becomes huge.\<close>

definition i32_as_usize :: "i32 \<Rightarrow> nat" where
  "i32_as_usize v = unat (scast v :: u64)"

definition utf8_or_error :: "bytes \<Rightarrow> str reader" where
  "utf8_or_error blob =
     (case from_utf8 blob of Some s \<Rightarrow> ok_some s | None \<Rightarrow> fail_with NotValidStringEncoding)"

definition get_utf8_string :: "str reader" where
  "get_utf8_string =
     propagate get_varint (\<lambda>v.
       let size = i32_as_usize v in
       need size
         (propagate (peek_slice size) (\<lambda>blob.
          propagate (advance size) (\<lambda>_. utf8_or_error blob))))"

text \<open>
  \<^verbatim>\<open>(0..size).map(|_| self.get_u16())\<close>, read by \<^verbatim>\<open>decode_utf16\<close>. The iterator is lazy and stops at
  the first lone surrogate, but then the position is set back, so reading all units gives the same
  result as long as none of the reads panics.
\<close>

primrec get_units :: "nat \<Rightarrow> u16 list reader" where
  "get_units 0 = ok_some []"
| "get_units (Suc n) =
     propagate get_u16 (\<lambda>u. propagate (get_units n) (\<lambda>us. ok_some (u # us)))"

text \<open>\<^verbatim>\<open>self.set_position(courser_start)\<close> before the error of \<^verbatim>\<open>get_utf16_string\<close>.\<close>

definition fail_at :: "nat \<Rightarrow> packet_error \<Rightarrow> 'a reader" where
  "fail_at start e c = (Failed e, c\<lparr>cpos := start\<rparr>)"

definition get_utf16_string :: "str reader" where
  "get_utf16_string c0 =
     need 2 (propagate get_u16 (\<lambda>w c.
       let size = unat w in
       if remaining c \<le> size * 2 then (Incomplete, c)
       else propagate (get_units size) (\<lambda>units.
              case from_utf16 units of
                Some s \<Rightarrow> ok_some s
              | None \<Rightarrow> fail_at (cpos c0) NotValidStringEncoding) c)) c0"

text \<open>The loop of \<^verbatim>\<open>match_bytes\<close> over \<^verbatim>\<open>bytes.iter().enumerate()\<close>, from index \<open>i\<close> on.\<close>

primrec match_loop :: "bytes \<Rightarrow> nat \<Rightarrow> bool reader" where
  "match_loop [] i = ok_some True"
| "match_loop (b # bs) i =
     propagate (byte_at i) (\<lambda>x. if x \<noteq> b then ok_some False else match_loop bs (Suc i))"

definition match_bytes :: "bytes \<Rightarrow> bool reader" where
  "match_bytes pat c =
     (if remaining c < length pat then (Parsed False, c)
      else propagate (match_loop pat 0) (\<lambda>eq.
             if \<not> eq then ok_some False
             else propagate (advance (length pat)) (\<lambda>_. ok_some True)) c)"

subsection \<open>Writing\<close>

text \<open>The writers append to the buffer inside the cursor; the position is not used.\<close>

fun put_varint_loop :: "nat \<Rightarrow> i32 \<Rightarrow> bytes \<Rightarrow> bytes" where
  "put_varint_loop 0 value buf = buf"
| "put_varint_loop (Suc n) value buf =
     (if value AND NOT 0x7F = 0 then buf @ [ucast value]
      else put_varint_loop n (drop_bit 7 value) (buf @ [ucast (value AND 0x7F) OR 0x80]))"

definition put_varint :: "i32 \<Rightarrow> bytes \<Rightarrow> bytes" where
  "put_varint value buf = put_varint_loop 5 value buf"

definition put_utf8_string :: "str \<Rightarrow> bytes \<Rightarrow> bytes" where
  "put_utf8_string s buf = put_varint (of_nat (length s)) buf @ s"

subsection \<open>Streaming and safe readers\<close>

definition streaming :: "'a reader \<Rightarrow> bool" where
  "streaming rd \<longleftrightarrow>
     (\<forall>c. wf_cursor c \<longrightarrow>
        cbuf (snd (rd c)) = cbuf c \<and> cpos c \<le> cpos (snd (rd c)) \<and> wf_cursor (snd (rd c)) \<and>
        (\<forall>ext. fst (rd c) \<noteq> Incomplete \<and> fst (rd c) \<noteq> Panicked \<longrightarrow>
           rd (c\<lparr>cbuf := cbuf c @ ext\<rparr>) = (fst (rd c), (snd (rd c))\<lparr>cbuf := cbuf c @ ext\<rparr>)))"

definition safe :: "'a reader \<Rightarrow> bool" where
  "safe rd \<longleftrightarrow> (\<forall>c. wf_cursor c \<longrightarrow> fst (rd c) \<noteq> Panicked)"

lemma streamingI:
  assumes "\<And>c r c'. wf_cursor c \<Longrightarrow> rd c = (r, c') \<Longrightarrow>
             cbuf c' = cbuf c \<and> cpos c \<le> cpos c' \<and> cpos c' \<le> length (cbuf c)"
    and "\<And>c ext r c'. wf_cursor c \<Longrightarrow> rd c = (r, c') \<Longrightarrow> r \<noteq> Incomplete \<Longrightarrow> r \<noteq> Panicked \<Longrightarrow>
             rd (c\<lparr>cbuf := cbuf c @ ext\<rparr>) = (r, c'\<lparr>cbuf := cbuf c @ ext\<rparr>)"
  shows "streaming rd"
  unfolding streaming_def
proof (intro allI impI conjI)
  fix c
  assume wf: "wf_cursor c"
  obtain r c' where rd: "rd c = (r, c')" by (cases "rd c")
  from assms(1)[OF wf rd] rd
  show "cbuf (snd (rd c)) = cbuf c" "cpos c \<le> cpos (snd (rd c))" "wf_cursor (snd (rd c))"
    by (simp_all add: wf_cursor_def)
  fix ext
  assume "fst (rd c) \<noteq> Incomplete \<and> fst (rd c) \<noteq> Panicked"
  with assms(2)[OF wf rd] rd
  show "rd (c\<lparr>cbuf := cbuf c @ ext\<rparr>) = (fst (rd c), (snd (rd c))\<lparr>cbuf := cbuf c @ ext\<rparr>)"
    by simp
qed

lemma streamingD:
  assumes "streaming rd" "wf_cursor c" "rd c = (r, c')"
  shows "cbuf c' = cbuf c" "cpos c \<le> cpos c'" "wf_cursor c'"
    and "r \<noteq> Incomplete \<Longrightarrow> r \<noteq> Panicked \<Longrightarrow>
           rd (c\<lparr>cbuf := cbuf c @ ext\<rparr>) = (r, c'\<lparr>cbuf := cbuf c @ ext\<rparr>)"
  using assms unfolding streaming_def by (metis fst_conv snd_conv)+

lemma wf_bound: "wf_cursor c \<Longrightarrow> cpos c \<le> length (cbuf c)"
  by (simp add: wf_cursor_def)

lemma streaming_bound:
  "streaming rd \<Longrightarrow> wf_cursor c \<Longrightarrow> rd c = (r, c') \<Longrightarrow> cpos c' \<le> length (cbuf c)"
  using streamingD(1,3)[of rd c r c'] by (simp add: wf_cursor_def)

lemma wf_cursor_new [simp]: "wf_cursor (cursor_new bs)"
  by (simp add: wf_cursor_def cursor_new_def)

lemma wf_cursor_ext [simp]: "wf_cursor c \<Longrightarrow> wf_cursor (c\<lparr>cbuf := cbuf c @ ext\<rparr>)"
  by (simp add: wf_cursor_def)

lemma remaining_ext: "wf_cursor c \<Longrightarrow> remaining (c\<lparr>cbuf := cbuf c @ ext\<rparr>) = remaining c + length ext"
  by (simp add: wf_cursor_def remaining_def)

lemma drop_ext: "wf_cursor c \<Longrightarrow> drop (cpos c) (cbuf c @ ext) = drop (cpos c) (cbuf c) @ ext"
  by (simp add: wf_cursor_def)

lemma length_drop_cursor: "length (drop (cpos c) (cbuf c)) = remaining c"
  by (simp add: remaining_def)

lemma streaming_ok_some [streaming_intros]: "streaming (ok_some v)"
  by (rule streamingI) (auto simp: ok_some_def wf_cursor_def)

lemma streaming_fail_with [streaming_intros]: "streaming (fail_with e)"
  by (rule streamingI) (auto simp: fail_with_def wf_cursor_def)

lemma streaming_get_be [streaming_intros]: "streaming (get_be n)"
  by (rule streamingI)
     (auto simp: get_be_def remaining_def wf_cursor_def split: if_splits)

lemma streaming_get_ints [streaming_intros]:
  "streaming get_u8" "streaming get_u16" "streaming get_u32"
  by (simp_all add: get_u8_def get_u16_def get_u32_def streaming_get_be)

lemma streaming_peek_slice [streaming_intros]: "streaming (peek_slice n)"
  by (rule streamingI) (auto simp: peek_slice_def wf_cursor_def split: if_splits)

lemma streaming_advance [streaming_intros]: "streaming (advance n)"
  by (rule streamingI) (auto simp: advance_def remaining_def wf_cursor_def split: if_splits)

lemma streaming_need [streaming_intros]: "streaming m \<Longrightarrow> streaming (need n m)"
  by (rule streamingI)
     (auto simp: need_def remaining_ext dest: wf_bound streamingD streaming_bound split: if_splits)

lemma streaming_if [streaming_intros]:
  "(b \<Longrightarrow> streaming m) \<Longrightarrow> (\<not> b \<Longrightarrow> streaming m') \<Longrightarrow> streaming (if b then m else m')"
  by simp

lemma streaming_Let [streaming_intros]: "(\<And>v. streaming (f v)) \<Longrightarrow> streaming (let v = x in f v)"
  by simp

lemma streaming_propagate [streaming_intros]:
  assumes "streaming m" "\<And>v. streaming (f v)"
  shows "streaming (propagate m f)"
proof (rule streamingI)
  fix c r c'
  assume wf: "wf_cursor c" and eq: "propagate m f c = (r, c')"
  obtain x c1 where m: "m c = (x, c1)" by (cases "m c")
  note d = streamingD[OF assms(1) wf m]
  show "cbuf c' = cbuf c \<and> cpos c \<le> cpos c' \<and> cpos c' \<le> length (cbuf c)"
  proof (cases x)
    case (Parsed v)
    with eq m have f: "f v c1 = (r, c')" by (simp add: propagate_def)
    from d streamingD[OF assms(2) d(3) f] show ?thesis by (auto simp: wf_cursor_def)
  qed (use eq m d in \<open>auto simp: propagate_def wf_cursor_def\<close>)
next
  fix c ext r c'
  assume wf: "wf_cursor c" and eq: "propagate m f c = (r, c')" and r: "r \<noteq> Incomplete" "r \<noteq> Panicked"
  obtain x c1 where m: "m c = (x, c1)" by (cases "m c")
  note d = streamingD[OF assms(1) wf m]
  show "propagate m f (c\<lparr>cbuf := cbuf c @ ext\<rparr>) = (r, c'\<lparr>cbuf := cbuf c @ ext\<rparr>)"
  proof (cases x)
    case (Parsed v)
    with eq m have f: "f v c1 = (r, c')" by (simp add: propagate_def)
    from d(4) Parsed have "m (c\<lparr>cbuf := cbuf c @ ext\<rparr>) = (Parsed v, c1\<lparr>cbuf := cbuf c1 @ ext\<rparr>)"
      by (simp add: d(1))
    with streamingD(4)[OF assms(2) d(3) f r] show ?thesis
      by (simp add: propagate_def d(1))
  qed (use eq m d(4) r in \<open>auto simp: propagate_def\<close>)
qed

lemma safe_ok_some [safe_intros]: "safe (ok_some v)"
  by (simp add: safe_def ok_some_def)

lemma safe_fail_with [safe_intros]: "safe (fail_with e)"
  by (simp add: safe_def fail_with_def)

lemma safe_if [safe_intros]:
  "(b \<Longrightarrow> safe m) \<Longrightarrow> (\<not> b \<Longrightarrow> safe m') \<Longrightarrow> safe (if b then m else m')"
  by simp

lemma safe_Let [safe_intros]: "(\<And>v. safe (f v)) \<Longrightarrow> safe (let v = x in f v)"
  by simp

lemma safe_propagate [safe_intros]:
  assumes "streaming m" "safe m" "\<And>v. safe (f v)"
  shows "safe (propagate m f)"
  unfolding safe_def
proof (intro allI impI)
  fix c
  assume wf: "wf_cursor c"
  obtain x c1 where m: "m c = (x, c1)" by (cases "m c")
  from assms(2) wf m have "x \<noteq> Panicked" by (auto simp: safe_def)
  with assms(3) m streamingD(3)[OF assms(1) wf m] show "fst (propagate m f c) \<noteq> Panicked"
    by (auto simp: propagate_def safe_def split: outcome.splits)
qed

text \<open>A reader that is safe once \<open>n\<close> bytes are known to be there.\<close>

definition safe_with :: "nat \<Rightarrow> 'a reader \<Rightarrow> bool" where
  "safe_with n rd \<longleftrightarrow> (\<forall>c. wf_cursor c \<and> n \<le> remaining c \<longrightarrow> fst (rd c) \<noteq> Panicked)"

lemma safe_need [safe_intros]: "safe_with n m \<Longrightarrow> safe (need n m)"
  by (simp add: safe_def safe_with_def need_def)

lemma safe_with_get:
  assumes "k \<le> n" "\<And>v. safe_with (n - k) (f v)"
  shows "safe_with n (propagate (get_be k) f)"
  unfolding safe_with_def
proof (intro allI impI)
  fix c
  assume c: "wf_cursor c \<and> n \<le> remaining c"
  with assms(1) have "\<not> remaining c < k" by simp
  moreover from this c assms(1)
  have "wf_cursor (c\<lparr>cpos := cpos c + k\<rparr>) \<and> n - k \<le> remaining (c\<lparr>cpos := cpos c + k\<rparr>)"
    by (auto simp: wf_cursor_def remaining_def)
  ultimately show "fst (propagate (get_be k) f c) \<noteq> Panicked"
    using assms(2) by (simp add: propagate_def get_be_def safe_with_def)
qed

lemma safe_weaken: "safe m \<Longrightarrow> safe_with n m"
  by (simp add: safe_def safe_with_def)

lemma safe_with_last [safe_intros]:
  "k \<le> n \<Longrightarrow> (\<And>v. safe (f v)) \<Longrightarrow> safe_with n (propagate (get_be k) f)"
  by (intro safe_with_get safe_weaken)

lemma safe_with_peek [safe_intros]:
  assumes "k \<le> n" "\<And>v. safe_with n (f v)"
  shows "safe_with n (propagate (peek_slice k) f)"
  using assms
  by (auto simp: safe_with_def propagate_def peek_slice_def remaining_def wf_cursor_def)

lemma safe_with_advance [safe_intros]:
  assumes "k \<le> n" "\<And>v. safe (f v)"
  shows "safe_with n (propagate (advance k) f)"
  using assms
  by (auto simp: safe_with_def safe_def propagate_def advance_def remaining_def wf_cursor_def)

text \<open>Reading \<^verbatim>\<open>cursor.position()\<close> in the middle of a reader.\<close>

definition at_pos :: "(nat \<Rightarrow> 'a reader) \<Rightarrow> 'a reader" where
  "at_pos f c = f (cpos c) c"

lemma streaming_at_pos [streaming_intros]:
  assumes "\<And>p. streaming (f p)"
  shows "streaming (at_pos f)"
proof (rule streamingI)
  fix c r c'
  assume "wf_cursor c" "at_pos f c = (r, c')"
  with streamingD(1,2)[OF assms] streaming_bound[OF assms]
  show "cbuf c' = cbuf c \<and> cpos c \<le> cpos c' \<and> cpos c' \<le> length (cbuf c)"
    by (auto simp: at_pos_def)
next
  fix c ext r c'
  assume "wf_cursor c" "at_pos f c = (r, c')" "r \<noteq> Incomplete" "r \<noteq> Panicked"
  with streamingD(4)[OF assms] show "at_pos f (c\<lparr>cbuf := cbuf c @ ext\<rparr>) = (r, c'\<lparr>cbuf := cbuf c @ ext\<rparr>)"
    by (simp add: at_pos_def)
qed

lemma safe_at_pos [safe_intros]: "(\<And>p. safe (f p)) \<Longrightarrow> safe (at_pos f)"
  by (simp add: safe_def at_pos_def)

lemma streaming_get_varint_loop [streaming_intros]: "streaming (get_varint_loop n v p)"
  by (induction n arbitrary: v p) (auto intro!: streaming_intros simp: Let_def)

lemma safe_get_varint_loop [safe_intros]: "safe (get_varint_loop n v p)"
proof (induction n arbitrary: v p)
  case (Suc n)
  show ?case
    unfolding get_varint_loop.simps get_u8_def by (intro safe_intros Suc) simp
qed (simp add: safe_intros)

lemma streaming_get_varint [streaming_intros]: "streaming get_varint"
  and safe_get_varint [safe_intros]: "safe get_varint"
  by (simp_all add: get_varint_def streaming_get_varint_loop safe_get_varint_loop)

text \<open>The units of two bytes at the front of a byte string.\<close>

fun u16s :: "nat \<Rightarrow> bytes \<Rightarrow> u16 list" where
  "u16s 0 bs = []"
| "u16s (Suc n) bs = of_be (take 2 bs) # u16s n (drop 2 bs)"

lemma u16s_take: "2 * n \<le> length bs \<Longrightarrow> u16s n (bs @ ext) = u16s n bs"
  by (induction n arbitrary: bs) auto

text \<open>What \<^verbatim>\<open>get_utf16_string\<close> reads once it knows that the bytes are there.\<close>

lemma get_units_ready:
  assumes "2 * n \<le> remaining c"
  shows "get_units n c = (Parsed (u16s n (drop (cpos c) (cbuf c))), c\<lparr>cpos := cpos c + 2 * n\<rparr>)"
  using assms
proof (induction n arbitrary: c)
  case (Suc n)
  let ?c = "c\<lparr>cpos := cpos c + 2\<rparr>"
  from Suc.prems have "2 * n \<le> remaining ?c" by (simp add: remaining_def)
  from Suc.IH[OF this] Suc.prems show ?case
    by (simp add: propagate_def get_u16_def get_be_def ok_some_def add.commute)
qed (simp add: ok_some_def)

lemma streaming_utf8_or_error [streaming_intros]: "streaming (utf8_or_error blob)"
  by (auto simp: utf8_or_error_def intro: streaming_intros split: option.splits)

lemma safe_utf8_or_error [safe_intros]: "safe (utf8_or_error blob)"
  by (auto simp: utf8_or_error_def intro: safe_intros split: option.splits)

lemma streaming_get_utf8_string [streaming_intros]: "streaming get_utf8_string"
  unfolding get_utf8_string_def by (intro streaming_intros)

lemma safe_get_utf8_string [safe_intros]: "safe get_utf8_string"
  unfolding get_utf8_string_def by (intro safe_intros streaming_intros order_refl)

text \<open>A string that is returned lies behind its length, inside the buffer.\<close>

lemma get_utf8_string_Parsed:
  assumes "get_utf8_string c = (Parsed s, c')"
  obtains v c1 where "get_varint c = (Parsed v, c1)" "i32_as_usize v \<le> remaining c1"
    "utf8_valid s" "s = take (i32_as_usize v) (drop (cpos c1) (cbuf c1))"
    "c' = c1\<lparr>cpos := cpos c1 + i32_as_usize v\<rparr>"
  using assms
  by (auto simp: get_utf8_string_def propagate_def Let_def need_def peek_slice_def advance_def
      utf8_or_error_def from_utf8_def ok_some_def fail_with_def
      split: prod.splits outcome.splits if_splits option.splits)

text \<open>The body of \<^verbatim>\<open>get_utf16_string\<close>, unfolded to one conditional.\<close>

lemma get_utf16_string_eq:
  "get_utf16_string c =
     (let size = unat (of_be (take 2 (drop (cpos c) (cbuf c))) :: u16) in
      if remaining c < 2 then (Incomplete, c)
      else if remaining c - 2 \<le> size * 2 then (Incomplete, c\<lparr>cpos := cpos c + 2\<rparr>)
      else (case from_utf16 (u16s size (drop (cpos c + 2) (cbuf c))) of
              Some s \<Rightarrow> (Parsed s, c\<lparr>cpos := cpos c + 2 + size * 2\<rparr>)
            | None \<Rightarrow> (Failed NotValidStringEncoding, c\<lparr>cpos := cpos c\<rparr>)))"
proof -
  define size where "size = unat (of_be (take 2 (drop (cpos c) (cbuf c))) :: u16)"
  let ?c = "c\<lparr>cpos := cpos c + 2\<rparr>"
  have r: "remaining ?c = remaining c - 2" "remaining (c\<lparr>cpos := Suc (Suc (cpos c))\<rparr>) = remaining c - 2"
    by (simp_all add: remaining_def)
  show ?thesis
  proof (cases "remaining c < 2 \<or> remaining c - 2 \<le> size * 2")
    case True
    then show ?thesis unfolding size_def[symmetric]
      by (auto simp: get_utf16_string_def need_def propagate_def get_u16_def get_be_def Let_def
          r size_def[symmetric])
  next
    case False
    then have "2 * size \<le> remaining ?c" by (simp add: r)
    from get_units_ready[OF this] False show ?thesis unfolding size_def[symmetric]
      by (auto simp: get_utf16_string_def need_def propagate_def get_u16_def get_be_def Let_def
          r size_def[symmetric] ok_some_def fail_at_def mult.commute split: option.splits)
  qed
qed

lemma get_utf16_string_ready:
  assumes "n = unat (of_be (take 2 (drop (cpos c) (cbuf c))) :: u16)" "2 + n * 2 < remaining c"
  shows "get_utf16_string c =
     (case from_utf16 (u16s n (drop (cpos c + 2) (cbuf c))) of
        Some s \<Rightarrow> (Parsed s, c\<lparr>cpos := cpos c + 2 + n * 2\<rparr>)
      | None \<Rightarrow> (Failed NotValidStringEncoding, c\<lparr>cpos := cpos c\<rparr>))"
proof -
  have "\<not> remaining c < 2" "\<not> remaining c - 2 \<le> n * 2" using assms(2) by linarith+
  then show ?thesis by (simp add: get_utf16_string_eq assms(1)[symmetric] Let_def)
qed

lemma streaming_get_utf16_string [streaming_intros]: "streaming get_utf16_string"
proof (rule streamingI)
  fix c r c'
  assume "wf_cursor c" and "get_utf16_string c = (r, c')"
  then show "cbuf c' = cbuf c \<and> cpos c \<le> cpos c' \<and> cpos c' \<le> length (cbuf c)"
    by (auto simp: get_utf16_string_eq Let_def remaining_def wf_cursor_def
        split: if_splits option.splits)
next
  fix c ext r c'
  assume wf: "wf_cursor c" and eq: "get_utf16_string c = (r, c')"
    and r: "r \<noteq> Incomplete" "r \<noteq> Panicked"
  define size where "size = unat (of_be (take 2 (drop (cpos c) (cbuf c))) :: u16)"
  define units where "units = u16s size (drop (cpos c + 2) (cbuf c))"
  let ?c = "c\<lparr>cbuf := cbuf c @ ext\<rparr>"
  from eq r have rem: "2 + size * 2 < remaining c"
    unfolding get_utf16_string_eq size_def[symmetric] Let_def
    by (auto split: if_splits)
  then have pos: "cpos c + 2 + size * 2 < length (cbuf c)" by (simp add: remaining_def)
  have hdr: "size = unat (of_be (take 2 (drop (cpos ?c) (cbuf ?c))) :: u16)"
    using pos by (simp add: size_def)
  have "drop (cpos c + 2) (cbuf c @ ext) = drop (cpos c + 2) (cbuf c) @ ext"
    using pos by simp
  moreover have "2 * size \<le> length (drop (cpos c + 2) (cbuf c))"
    using pos by simp
  ultimately have "u16s size (drop (cpos ?c + 2) (cbuf ?c)) = units"
    by (simp add: units_def u16s_take del: drop_append)
  with get_utf16_string_ready[OF hdr] rem wf
  have "get_utf16_string ?c = (case from_utf16 units of
        Some s \<Rightarrow> (Parsed s, ?c\<lparr>cpos := cpos c + 2 + size * 2\<rparr>)
      | None \<Rightarrow> (Failed NotValidStringEncoding, ?c\<lparr>cpos := cpos c\<rparr>))"
    by (cases "from_utf16 units") (simp_all add: remaining_ext del: drop_append)
  with get_utf16_string_ready[OF size_def rem] eq
  show "get_utf16_string ?c = (r, c'\<lparr>cbuf := cbuf c @ ext\<rparr>)"
    by (auto simp: units_def split: option.splits)
qed

lemma safe_get_utf16_string [safe_intros]: "safe get_utf16_string"
  by (auto simp: safe_def get_utf16_string_eq Let_def split: option.splits)

text \<open>
  Matching a fixed prefix after a check that enough bytes are there, then going on or failing.
\<close>

definition expect_bytes :: "bytes \<Rightarrow> packet_error \<Rightarrow> 'a reader \<Rightarrow> 'a reader" where
  "expect_bytes pat e k = propagate (match_bytes pat) (\<lambda>matches. if \<not> matches then fail_with e else k)"

text \<open>What the loop of \<^verbatim>\<open>match_bytes\<close> computes, and that its length check keeps it in the buffer.\<close>

lemma match_loop_ready:
  assumes "length (cbuf c) \<ge> cpos c + i + length pat"
  shows "match_loop pat i c = (Parsed (take (length pat) (drop (cpos c + i) (cbuf c)) = pat), c)"
  using assms
proof (induction pat arbitrary: i)
  case (Cons b bs)
  then have "match_loop bs (Suc i) c
      = (Parsed (take (length bs) (drop (cpos c + Suc i) (cbuf c)) = bs), c)"
    by simp
  moreover from Cons.prems have i: "cpos c + i < length (cbuf c)" by simp
  then have "take (length (b # bs)) (drop (cpos c + i) (cbuf c))
      = cbuf c ! (cpos c + i) # take (length bs) (drop (cpos c + Suc i) (cbuf c))"
    by (simp add: Cons_nth_drop_Suc[symmetric])
  ultimately show ?case using i by (simp add: propagate_def byte_at_def ok_some_def)
qed (simp add: ok_some_def)

lemma match_bytes_unfold:
  "match_bytes pat c =
     (if remaining c < length pat then (Parsed False, c)
      else if take (length pat) (drop (cpos c) (cbuf c)) \<noteq> pat then (Parsed False, c)
      else (Parsed True, c\<lparr>cpos := cpos c + length pat\<rparr>))"
proof (cases "remaining c < length pat \<or> pat = []")
  case True
  then show ?thesis
    by (auto simp: match_bytes_def propagate_def ok_some_def advance_def remaining_def)
next
  case False
  then have "cpos c + 0 + length pat \<le> length (cbuf c)"
    by (cases pat) (auto simp: remaining_def)
  from match_loop_ready[OF this] False show ?thesis
    by (auto simp: match_bytes_def propagate_def ok_some_def advance_def)
qed

lemma match_bytes_obtain:
  obtains b c' where "match_bytes pat c = (Parsed b, c')"
  using that match_bytes_unfold[of pat c] by metis

lemma match_bytes_cases:
  assumes "wf_cursor c" "match_bytes pat c = (Parsed b, c')"
  shows "cbuf c' = cbuf c" "cpos c \<le> cpos c'" "wf_cursor c'"
    and "length pat \<le> remaining c \<Longrightarrow>
           match_bytes pat (c\<lparr>cbuf := cbuf c @ ext\<rparr>) = (Parsed b, c'\<lparr>cbuf := cbuf c @ ext\<rparr>)"
  using assms by (auto simp: match_bytes_unfold wf_cursor_def remaining_def split: if_splits)

lemma streaming_expect [streaming_intros]:
  assumes "length pat \<le> n" "streaming k"
  shows "streaming (need n (expect_bytes pat e k))"
proof (rule streamingI)
  fix c r c'
  assume wf: "wf_cursor c" and eq: "need n (expect_bytes pat e k) c = (r, c')"
  obtain b c1 where m: "match_bytes pat c = (Parsed b, c1)" by (rule match_bytes_obtain)
  note mb = match_bytes_cases(1-3)[OF wf m]
  show "cbuf c' = cbuf c \<and> cpos c \<le> cpos c' \<and> cpos c' \<le> length (cbuf c)"
  proof (cases "remaining c < n \<or> \<not> b")
    case True
    with eq m have "c' = c \<or> c' = c1"
      by (auto simp: need_def expect_bytes_def propagate_def fail_with_def split: if_splits)
    then show ?thesis using mb wf_bound[OF wf] wf_bound[OF mb(3)] by auto
  next
    case False
    with eq m have k: "k c1 = (r, c')" by (simp add: need_def expect_bytes_def propagate_def fail_with_def)
    from streamingD(1,2)[OF assms(2) mb(3) k] streaming_bound[OF assms(2) mb(3) k] mb
    show ?thesis by auto
  qed
next
  fix c ext r c'
  assume wf: "wf_cursor c" and eq: "need n (expect_bytes pat e k) c = (r, c')"
    and r: "r \<noteq> Incomplete" "r \<noteq> Panicked"
  obtain b c1 where m: "match_bytes pat c = (Parsed b, c1)" by (rule match_bytes_obtain)
  from eq r have n: "n \<le> remaining c" by (auto simp: need_def split: if_splits)
  note mb = match_bytes_cases[OF wf m]
  from mb(4) n assms(1)
  have m': "match_bytes pat (c\<lparr>cbuf := cbuf c @ ext\<rparr>) = (Parsed b, c1\<lparr>cbuf := cbuf c1 @ ext\<rparr>)"
    by (simp add: mb(1))
  show "need n (expect_bytes pat e k) (c\<lparr>cbuf := cbuf c @ ext\<rparr>) = (r, c'\<lparr>cbuf := cbuf c @ ext\<rparr>)"
  proof (cases b)
    case True
    with eq m n have "k c1 = (r, c')" by (simp add: need_def expect_bytes_def propagate_def fail_with_def)
    from streamingD(4)[OF assms(2) mb(3) this r] True m' n wf mb(1) show ?thesis
      by (simp add: need_def expect_bytes_def propagate_def fail_with_def remaining_ext)
  next
    case False
    with eq m m' n wf mb(1) show ?thesis
      by (simp add: need_def expect_bytes_def propagate_def fail_with_def remaining_ext)
  qed
qed

lemma safe_expect [safe_intros]:
  assumes "safe k"
  shows "safe (need n (expect_bytes pat e k))"
  unfolding safe_def
proof (intro allI impI)
  fix c
  assume wf: "wf_cursor c"
  obtain b c1 where m: "match_bytes pat c = (Parsed b, c1)" by (rule match_bytes_obtain)
  from assms match_bytes_cases(3)[OF wf m] m show "fst (need n (expect_bytes pat e k) c) \<noteq> Panicked"
    by (auto simp: need_def expect_bytes_def propagate_def fail_with_def safe_def)
qed

subsection \<open>Round trips\<close>

lemma put_varint_loop_append: "put_varint_loop n v buf = buf @ put_varint_loop n v []"
proof (induction n arbitrary: v buf)
  case (Suc n)
  show ?case
    by (simp only: put_varint_loop.simps Suc[of _ "buf @ _"] Suc[of _ "[] @ _"]) simp
qed simp

lemma put_varint_append: "put_varint v buf = buf @ put_varint v []"
  unfolding put_varint_def by (rule put_varint_loop_append)

text \<open>Evaluation on numerals.\<close>

lemma put_varint_loop_numeral:
  "put_varint_loop (numeral k) v buf =
     (if v AND - 128 = 0 then buf @ [ucast v]
      else put_varint_loop (pred_numeral k) (drop_bit 7 v) (buf @ [ucast (v AND 0x7F) OR 0x80]))"
  by (simp add: numeral_eq_Suc)

lemma length_put_varint_loop: "length (put_varint_loop n v []) \<le> n"
  by (induction n arbitrary: v) (auto simp: put_varint_loop_append[of _ _ "[_]"])

lemma length_put_varint: "length (put_varint v []) \<le> 5"
  unfolding put_varint_def by (rule length_put_varint_loop)

lemma need_get_u8:
  "need (Suc 0) (propagate get_u8 f) \<lparr>cbuf = pre @ b # rest, cpos = length pre\<rparr>
     = f b \<lparr>cbuf = pre @ b # rest, cpos = Suc (length pre)\<rparr>"
  by (simp add: need_def propagate_def get_u8_def get_be_def remaining_def of_be_def)

text \<open>One group of seven bits: the last byte of an integer, and a byte with the continuation bit.\<close>

lemma varint_last:
  fixes v :: i32
  assumes "v AND NOT 0x7F = 0"
  shows "(ucast v :: u8) AND 0x80 = 0" and "(ucast ((ucast v :: u8) AND 0x7F) :: i32) = v"
proof -
  from assms have hi: "drop_bit 7 v = 0" by (simp add: and_m128_zero)
  then have v: "take_bit 7 v = v" using bits_ident[of 7 v] by simp
  have "\<not> bit (ucast (take_bit 7 v) :: u8) 7" by (simp add: bit_simps)
  then show "(ucast v :: u8) AND 0x80 = 0" by (simp add: and_80 v)
  have "(ucast ((ucast v :: u8) AND 0x7F) :: i32) = take_bit 7 v"
    unfolding and_7F by (rule bit_word_eqI) (auto simp: bit_simps)
  with v show "(ucast ((ucast v :: u8) AND 0x7F) :: i32) = v" by simp
qed

lemma varint_more:
  fixes v :: i32
  defines "b \<equiv> (ucast (v AND 0x7F) OR 0x80 :: u8)"
  shows "b AND 0x80 \<noteq> 0" and "(ucast (b AND 0x7F) :: i32) = take_bit 7 v"
proof -
  have b80: "bit (0x80 :: u8) k \<longleftrightarrow> k = 7" for k
    using bit_exp_iff[where 'a = u8, of 7 k] by auto
  show "b AND 0x80 \<noteq> 0" unfolding and_80 b_def by (simp add: bit_simps b80)
  show "(ucast (b AND 0x7F) :: i32) = take_bit 7 v"
    unfolding b_def and_7F by (rule bit_word_eqI) (auto simp: bit_simps b80)
qed

lemma push_take_drop7:
  "(acc OR push_bit p (take_bit 7 v)) OR push_bit (p + 7) (drop_bit 7 v) = acc OR push_bit p (v :: i32)"
proof (rule bit_word_eqI)
  fix k
  show "bit ((acc OR push_bit p (take_bit 7 v)) OR push_bit (p + 7) (drop_bit 7 v)) k
        = bit (acc OR push_bit p v) k"
    by (cases "p + 7 \<le> k") (auto simp: bit_simps)
qed

lemma get_put_varint_loop:
  assumes "drop_bit (7 * n) v = 0" "0 < n"
  shows "get_varint_loop n acc p \<lparr>cbuf = pre @ put_varint_loop n v [] @ rest, cpos = length pre\<rparr>
         = (Parsed (acc OR push_bit p v),
            \<lparr>cbuf = pre @ put_varint_loop n v [] @ rest,
             cpos = length pre + length (put_varint_loop n v [])\<rparr>)"
  using assms
proof (induction n arbitrary: v acc p pre)
  case 0
  then show ?case by simp
next
  case (Suc n)
  show ?case
  proof (cases "v AND NOT 0x7F = 0")
    case True
    note last = varint_last[OF this]
    from True show ?thesis by (simp add: need_get_u8 last Let_def ok_some_def)
  next
    case False
    define b where "b = (ucast (v AND 0x7F) OR 0x80 :: u8)"
    define v' where "v' = drop_bit 7 v"
    have put: "put_varint_loop (Suc n) v [] = b # put_varint_loop n v' []"
      using False by (simp add: b_def v'_def put_varint_loop_append[of _ _ "[_]"])
    have "drop_bit (7 * n) v' = 0" using Suc.prems(1) by (simp add: v'_def add.commute)
    moreover have "0 < n"
    proof (rule ccontr)
      assume "\<not> 0 < n"
      with Suc.prems(1) have "drop_bit 7 v = 0" by simp
      with False show False by (simp add: and_m128_zero)
    qed
    ultimately have "get_varint_loop n (acc OR push_bit p (take_bit 7 v)) (p + 7)
        \<lparr>cbuf = (pre @ [b]) @ put_varint_loop n v' [] @ rest, cpos = length (pre @ [b])\<rparr>
      = (Parsed ((acc OR push_bit p (take_bit 7 v)) OR push_bit (p + 7) v'),
         \<lparr>cbuf = (pre @ [b]) @ put_varint_loop n v' [] @ rest,
          cpos = length (pre @ [b]) + length (put_varint_loop n v' [])\<rparr>)"
      by (rule Suc.IH)
    moreover have "b AND 0x80 \<noteq> 0" "(ucast (b AND 0x7F) :: i32) = take_bit 7 v"
      unfolding b_def by (rule varint_more)+
    ultimately show ?thesis
      unfolding put get_varint_loop.simps
      by (simp add: need_get_u8 v'_def push_take_drop7 del: put_varint_loop.simps)
  qed
qed

lemma get_put_varint:
  "get_varint \<lparr>cbuf = pre @ put_varint v [] @ rest, cpos = length pre\<rparr>
     = (Parsed v, \<lparr>cbuf = pre @ put_varint v [] @ rest,
                   cpos = length pre + length (put_varint v [])\<rparr>)"
proof -
  have "drop_bit 35 v = 0" by (rule bit_word_eqI) (auto simp: bit_simps dest: bit_imp_le_length)
  then show ?thesis
    using get_put_varint_loop[of 5 v 0 0 pre rest] by (simp add: get_varint_def put_varint_def)
qed

lemma get_put_utf8_string:
  assumes "utf8_valid s" "length s < 2 ^ 31"
  shows "get_utf8_string \<lparr>cbuf = pre @ put_utf8_string s [] @ rest, cpos = length pre\<rparr>
     = (Parsed s, \<lparr>cbuf = pre @ put_utf8_string s [] @ rest,
                   cpos = length pre + length (put_utf8_string s [])\<rparr>)"
proof -
  let ?n = "of_nat (length s) :: i32"
  have n: "i32_as_usize ?n = length s"
    using assms(2) by (simp add: i32_as_usize_def i32_len)
  have "get_varint \<lparr>cbuf = pre @ put_varint ?n [] @ s @ rest, cpos = length pre\<rparr>
     = (Parsed ?n, \<lparr>cbuf = pre @ put_varint ?n [] @ s @ rest,
                    cpos = length pre + length (put_varint ?n [])\<rparr>)"
    by (rule get_put_varint)
  with assms n show ?thesis
    by (simp add: get_utf8_string_def put_utf8_string_def propagate_def Let_def remaining_def
        need_def peek_slice_def advance_def utf8_or_error_def ok_some_def from_utf8_def)
qed

subsection \<open>Stepping a reader over a known buffer\<close>

lemma propagate_varint:
  assumes "buf = pre @ put_varint v [] @ rest" "pos = length pre"
  shows "propagate get_varint f \<lparr>cbuf = buf, cpos = pos\<rparr>
           = f v \<lparr>cbuf = buf, cpos = pos + length (put_varint v [])\<rparr>"
  by (simp add: assms propagate_def get_put_varint)

lemma propagate_utf8:
  assumes "buf = pre @ put_utf8_string s [] @ rest" "pos = length pre"
    and "utf8_valid s" "length s < 2 ^ 31"
  shows "propagate get_utf8_string f \<lparr>cbuf = buf, cpos = pos\<rparr>
           = f s \<lparr>cbuf = buf, cpos = pos + length (put_utf8_string s [])\<rparr>"
  unfolding propagate_def assms(1,2) get_put_utf8_string[OF assms(3,4)] by simp

lemma propagate_be:
  assumes "buf = pre @ be_bytes n w @ rest" "pos = length pre" "LENGTH('a) = 8 * n"
  shows "propagate (get_be n) f \<lparr>cbuf = buf, cpos = pos\<rparr>
           = f (w :: 'a::len word) \<lparr>cbuf = buf, cpos = pos + n\<rparr>"
  using assms by (simp add: propagate_def get_be_def remaining_def)

definition be_units :: "u16 list \<Rightarrow> bytes" where
  "be_units us = concat (map (be_bytes 2) us)"

lemma length_be_units [simp]: "length (be_units us) = 2 * length us"
  by (induction us) (auto simp: be_units_def)

lemma u16s_be_units [simp]: "u16s (length us) (be_units us @ rest) = us"
  by (induction us) (auto simp: be_units_def)

lemma propagate_utf16:
  assumes "buf = pre @ be_bytes 2 (of_nat (length us) :: u16) @ be_units us @ x # rest"
    and "pos = length pre" "from_utf16 us = Some s" "length us < 2 ^ 16"
  shows "propagate get_utf16_string f \<lparr>cbuf = buf, cpos = pos\<rparr>
           = f s \<lparr>cbuf = buf, cpos = pos + 2 + 2 * length us\<rparr>"
proof -
  let ?c = "\<lparr>cbuf = buf, cpos = pos\<rparr>"
  have "take 2 (drop (cpos ?c) (cbuf ?c)) = be_bytes 2 (of_nat (length us) :: u16)"
    using assms(1,2) by simp
  then have n: "length us = unat (of_be (take 2 (drop (cpos ?c) (cbuf ?c))) :: u16)"
    using assms(4) by (simp only: of_be_bytes_all) (simp add: unat_of_nat take_bit_nat_eq_self)
  have d: "drop (cpos ?c + 2) (cbuf ?c) = be_units us @ x # rest"
    using assms(1,2) by simp
  have r: "2 + length us * 2 < remaining ?c"
    using assms(1,2) by (simp add: remaining_def)
  have "get_utf16_string ?c = (Parsed s, \<lparr>cbuf = buf, cpos = pos + 2 + length us * 2\<rparr>)"
    unfolding get_utf16_string_ready[OF n r] d u16s_be_units assms(3) by simp
  then show ?thesis by (simp add: propagate_def mult.commute)
qed

lemma drop7_of_nat: "n < 2 ^ 32 \<Longrightarrow> drop_bit 7 (of_nat n :: i32) = 0 \<longleftrightarrow> n < 128"
proof -
  assume "n < 2 ^ 32"
  then have "unat (drop_bit 7 (of_nat n :: i32)) = n div 128"
    by (simp only: unat_drop_bit_eq) (simp add: unat_of_nat take_bit_nat_eq_self drop_bit_eq_div)
  then show ?thesis by (simp add: unat_eq_zero[symmetric] div_eq_0_iff del: unat_eq_zero)
qed

lemma put_varint_unfold:
  "put_varint v [] =
     (if v AND - 128 = 0 then [ucast v]
      else (ucast (v AND 0x7F) OR 0x80) # put_varint_loop (Suc 3) (drop_bit 7 v) [])"
proof -
  have five: "(5::nat) = Suc (Suc 3)" by simp
  show ?thesis
    unfolding put_varint_def five
    by (subst put_varint_loop.simps(2))
       (simp add: put_varint_loop_append[of 4 _ "[_]"] del: put_varint_loop.simps)
qed

lemma put_varint_small:
  assumes "n < 128"
  shows "put_varint (of_nat n) [] = [of_nat n]"
proof -
  have "(of_nat n :: i32) AND - 128 = 0" using assms drop7_of_nat[of n] and_m128_zero by force
  moreover have "(ucast (of_nat n :: i32) :: u8) = of_nat n"
    using assms by (simp add: unsigned_of_nat take_bit_nat_eq_self)
  ultimately show ?thesis by (simp only: put_varint_unfold simp_thms if_True)
qed

lemma put_varint_loop_nonempty: "put_varint_loop (Suc n) v [] \<noteq> []"
  by (simp add: put_varint_loop_append[of _ _ "[_]"])

lemma put_varint_loop_unfold:
  "put_varint_loop (Suc n) v [] =
     (if v AND - 128 = 0 then [ucast v]
      else (ucast (v AND 0x7F) OR 0x80) # put_varint_loop n (drop_bit 7 v) [])"
  by (subst put_varint_loop.simps(2))
     (simp add: put_varint_loop_append[of n _ "[_]"] del: put_varint_loop.simps)

lemma bit_continuation: "bit (ucast (v AND 0x7F) OR 0x80 :: u8) 7"
proof -
  have "bit (0x80 :: u8) 7" using bit_exp_iff[where 'a = u8, of 7 7] by simp
  then show ?thesis by (simp add: bit_or_iff)
qed

text \<open>A length of at least 128 takes two bytes or more; the first has the continuation bit.\<close>

lemma put_varint_large:
  assumes "128 \<le> n" "n < 2 ^ 32"
  obtains b0 b1 t where "put_varint (of_nat n) [] = b0 # b1 # t" "bit b0 7" "\<not> bit b1 7 \<Longrightarrow> t = []"
proof -
  define v where "v = (of_nat n :: i32)"
  define w where "w = drop_bit 7 v"
  have "\<not> v AND - 128 = 0" unfolding v_def using assms by (simp only: and_m128_zero drop7_of_nat)
  then have v: "put_varint v [] = (ucast (v AND 0x7F) OR 0x80) # put_varint_loop (Suc 3) w []"
    unfolding w_def by (simp only: put_varint_unfold if_False)
  show thesis
  proof (cases "w AND - 128 = 0")
    case True
    then have "put_varint_loop (Suc 3) w [] = [ucast w]" by (simp only: put_varint_loop_unfold simp_thms if_True)
    with v show thesis using that bit_continuation unfolding v_def by metis
  next
    case False
    then have "put_varint_loop (Suc 3) w [] =
        (ucast (w AND 0x7F) OR 0x80) # put_varint_loop 3 (drop_bit 7 w) []"
      by (simp only: put_varint_loop_unfold if_False)
    with v show thesis using that bit_continuation unfolding v_def by metis
  qed
qed

lemma length_put_varint_pos: "1 \<le> length (put_varint v [])"
  by (simp only: put_varint_unfold) simp

text \<open>
  Variable-length integers are read back: \<^verbatim>\<open>put_varint\<close> writes one to five bytes for any \<^verbatim>\<open>i32\<close>,
  negative ones included, and \<^verbatim>\<open>get_varint\<close> at that position gives the same integer and stops behind
  its last byte, whatever comes before and after.
\<close>

lemma varint_roundtrip:
  "get_varint \<lparr>cbuf = put_varint v pre @ rest, cpos = length pre\<rparr>
     = (Parsed v, \<lparr>cbuf = put_varint v pre @ rest, cpos = length (put_varint v pre)\<rparr>)
   \<and> 1 \<le> length (put_varint v []) \<and> length (put_varint v []) \<le> 5"
  using get_put_varint[of pre v rest] length_put_varint[of v] length_put_varint_pos[of v]
  by (simp add: put_varint_append[of v pre])

end
