(* ===== verification/Minecraft.thy ===== *)
theory Minecraft
  imports Cursor
begin

text \<open>
  The Minecraft side of the protocol, \<^verbatim>\<open>crates/protocol/src/minecraft.rs\<close>: recognising the
  first packet of a Minecraft client in its three historic formats, and the answers a client
  gets when the server it asks for is not connected. \<^verbatim>\<open>serde_json\<close> is not part of the
  repository: the JSON texts it makes are arguments of the functions that use them.
\<close>

subsection \<open>Data\<close>

datatype hello_type = Legacy | Ping | Connect | UnknownType

record minecraft_hello_packet =
  length_hello :: nat
  pkg_type :: hello_type
  id_hello :: i32
  version_hello :: i32
  hostname_hello :: str
  forge :: bool
  port :: u32

definition OLD_MINECRAFT_START :: bytes where
  "OLD_MINECRAFT_START =
     [0xFE, 0x01, 0xFA, 0x00, 0x0B, 0x00, 0x4D, 0x00, 0x43, 0x00, 0x7C, 0x00, 0x50, 0x00, 0x69,
      0x00, 0x6E, 0x00, 0x67, 0x00, 0x48, 0x00, 0x6F, 0x00, 0x73, 0x00, 0x74]"

definition FORGE_STRING :: str where
  "FORGE_STRING = 0 # str_lit ''FORGE''"

lemma length_OLD_MINECRAFT_START [simp]: "length OLD_MINECRAFT_START = 27"
  by (simp add: OLD_MINECRAFT_START_def)

subsection \<open>Parsing the first packet\<close>

definition old_ping_pkg :: "minecraft_hello_packet reader" where
  "old_ping_pkg =
     need (length OLD_MINECRAFT_START) (expect_bytes OLD_MINECRAFT_START NotValid
       (need (2 + 1)
         (propagate get_u16 (\<lambda>rest_data.
          propagate get_u8 (\<lambda>version.
          propagate get_utf16_string (\<lambda>hostname.
          if 7 + length hostname * 2 \<noteq> unat rest_data then fail_with NotValid
          else need 4 (propagate get_u32 (\<lambda>port. at_pos (\<lambda>position.
            ok_some \<lparr>length_hello = position, pkg_type = Legacy, id_hello = 0,
              version_hello = ucast version, hostname_hello = hostname, forge = False,
              port = port\<rparr>)))))))))"

definition old_connect_pkg :: "minecraft_hello_packet reader" where
  "old_connect_pkg =
     expect_bytes [0x02] NotMatching
       (need 1
         (propagate get_u8 (\<lambda>version.
          propagate get_utf16_string (\<lambda>username.
          propagate get_utf16_string (\<lambda>hostname.
          need 4 (propagate get_u32 (\<lambda>port. at_pos (\<lambda>position.
            ok_some \<lparr>length_hello = position, pkg_type = Legacy, id_hello = 0,
              version_hello = ucast version, hostname_hello = hostname, forge = False,
              port = port\<rparr>))))))))"

definition state_type :: "i32 \<Rightarrow> hello_type" where
  "state_type next_state =
     (if next_state = 1 then Ping else if next_state = 2 then Connect else UnknownType)"

definition strip_after_nul :: "str \<Rightarrow> str" where
  "strip_after_nul hostname =
     (case split_once 0 hostname of Some (before, _) \<Rightarrow> before | None \<Rightarrow> hostname)"

definition new_pkg :: "minecraft_hello_packet reader" where
  "new_pkg =
     propagate get_varint (\<lambda>pkg_length.
     propagate get_varint (\<lambda>pkg_id.
     if pkg_id \<noteq> 0 then fail_with NotMatching
     else
       propagate get_varint (\<lambda>version.
       propagate get_utf8_string (\<lambda>hostname.
       need 2 (propagate get_u16 (\<lambda>port. at_pos (\<lambda>position.
         if position \<noteq> i32_as_usize pkg_length then fail_with NotValid
         else propagate get_varint (\<lambda>next_state. at_pos (\<lambda>position.
           ok_some \<lparr>length_hello = position, pkg_type = state_type next_state,
             id_hello = pkg_id, version_hello = version,
             hostname_hello = strip_after_nul hostname,
             forge = ends_with hostname FORGE_STRING, port = ucast port\<rparr>)))))))))"

text \<open>\<^verbatim>\<open>MinecraftHelloPacket::new\<close>: the format is chosen by the first one or two bytes.\<close>

definition hello_new :: "bytes \<Rightarrow> minecraft_hello_packet outcome" where
  "hello_new buf =
     (if length buf < 2 then Incomplete
      else
        fst (propagate (match_bytes (take 2 OLD_MINECRAFT_START)) (\<lambda>old_ping.
               if old_ping then (\<lambda>c. old_ping_pkg (c\<lparr>cpos := 0\<rparr>))
               else propagate (match_bytes [0x02]) (\<lambda>old_connect.
                      if old_connect then (\<lambda>c. old_connect_pkg (c\<lparr>cpos := 0\<rparr>)) else new_pkg))
             (cursor_new buf)))"

subsection \<open>The parser never panics and never takes back an answer\<close>

lemma streaming_old_ping [streaming_intros]: "streaming old_ping_pkg"
  unfolding old_ping_pkg_def by (intro streaming_intros) simp

lemma streaming_new_pkg [streaming_intros]: "streaming new_pkg"
  unfolding new_pkg_def by (intro streaming_intros)

definition old_connect_body :: "minecraft_hello_packet reader" where
  "old_connect_body = need 1 old_connect_pkg"

lemma streaming_old_connect [streaming_intros]: "streaming old_connect_body"
  unfolding old_connect_body_def old_connect_pkg_def by (intro streaming_intros) simp

lemma safe_old_ping [safe_intros]: "safe old_ping_pkg"
  unfolding old_ping_pkg_def get_u16_def get_u8_def get_u32_def
  by (intro safe_need safe_expect safe_with_get[of 2 "2 + 1"] safe_intros streaming_intros) simp_all

lemma safe_new_pkg [safe_intros]: "safe new_pkg"
  unfolding new_pkg_def get_u16_def
  by (intro safe_intros streaming_intros) simp_all

lemma safe_old_connect [safe_intros]: "safe old_connect_body"
  unfolding old_connect_body_def old_connect_pkg_def get_u8_def get_u32_def
  by (intro safe_intros streaming_intros) simp_all

text \<open>The format as a function of the first two bytes.\<close>

definition pick_format :: "u8 \<Rightarrow> u8 \<Rightarrow> minecraft_hello_packet reader" where
  "pick_format b0 b1 =
     (if b0 = 0xFE \<and> b1 = 0x01 then old_ping_pkg
      else if b0 = 0x02 then old_connect_body else new_pkg)"

lemma hello_new_pick:
  "hello_new (b0 # b1 # t) = fst (pick_format b0 b1 (cursor_new (b0 # b1 # t)))"
  by (auto simp: hello_new_def match_bytes_unfold propagate_def cursor_new_def remaining_def OLD_MINECRAFT_START_def
      old_connect_body_def need_def pick_format_def)

lemma hello_new_short: "length buf < 2 \<Longrightarrow> hello_new buf = Incomplete"
  by (simp add: hello_new_def)

lemma hello_new_cases:
  obtains "length buf < 2" "hello_new buf = Incomplete"
  | b0 b1 t where "buf = b0 # b1 # t" "hello_new buf = fst (pick_format b0 b1 (cursor_new buf))"
proof (cases "length buf < 2")
  case True
  then show thesis using that(1) hello_new_short by blast
next
  case False
  then obtain b0 b1 t where "buf = b0 # b1 # t"
    by (cases buf rule: list.exhaust; cases "tl buf") auto
  then show thesis using that(2) hello_new_pick by blast
qed

lemma streaming_pick_format: "streaming (pick_format b0 b1)"
  by (simp add: pick_format_def streaming_old_ping streaming_old_connect streaming_new_pkg)

lemma safe_pick_format: "safe (pick_format b0 b1)"
  by (simp add: pick_format_def safe_old_ping safe_old_connect safe_new_pkg)

lemma prefix_cursor: "prefix p buf \<Longrightarrow> \<exists>ext. cursor_new buf = (cursor_new p)\<lparr>cbuf := cbuf (cursor_new p) @ ext\<rparr>"
  by (auto simp: prefix_def cursor_new_def)

lemma hello_new_mono_prefix:
  assumes "prefix p buf"
  shows "hello_new p \<le> hello_new buf"
proof (cases rule: hello_new_cases[of p])
  case 1
  then show ?thesis by simp
next
  case (2 b0 b1 t)
  from assms 2(1) obtain t' where buf: "buf = b0 # b1 # t'" by (auto simp: prefix_def)
  obtain r c' where r: "pick_format b0 b1 (cursor_new p) = (r, c')"
    by (cases "pick_format b0 b1 (cursor_new p)")
  obtain ext where ext: "cursor_new buf = (cursor_new p)\<lparr>cbuf := cbuf (cursor_new p) @ ext\<rparr>"
    using prefix_cursor[OF assms] by blast
  have "r \<noteq> Panicked" using safe_pick_format[of b0 b1] r unfolding safe_def
    by (metis fst_conv wf_cursor_new)
  then have "r \<noteq> Incomplete \<Longrightarrow> hello_new buf = r"
    using streamingD(4)[OF streaming_pick_format wf_cursor_new r, of ext] ext
    by (simp add: buf hello_new_pick)
  with 2(2) r show ?thesis by (cases "r = Incomplete") auto
qed

text \<open>
  C19. Feeding more bytes never changes an answer of \<^verbatim>\<open>MinecraftHelloPacket::new\<close>: if a prefix of
  the stream already gives a packet or an error, every longer buffer gives the same one. So the
  answer does not depend on how TCP cuts the stream.
\<close>

theorem hello_new_mono:
  assumes "prefix p buf"
  shows "hello_new p \<le> hello_new buf"
  using assms by (rule hello_new_mono_prefix)

theorem hello_new_mono_witness:
  "hello_new [0x10, 0x00] \<le> hello_new [0x10, 0x00, 0xF2, 0x05]"
  by (rule hello_new_mono) simp

lemma hello_new_safe: "hello_new buf \<noteq> Panicked"
  by (cases rule: hello_new_cases[of buf]) (use safe_pick_format in \<open>simp_all add: safe_def\<close>)

text \<open>
  C20. \<^verbatim>\<open>MinecraftHelloPacket::new\<close> never panics, whatever bytes a client sends.
\<close>

theorem hello_new_no_panic: "hello_new buf \<noteq> Panicked"
  by (rule hello_new_safe)

subsection \<open>What a parsed packet satisfies\<close>

lemma propagate_Parsed:
  "propagate m f c = (Parsed v, c') \<longleftrightarrow> (\<exists>u c1. m c = (Parsed u, c1) \<and> f u c1 = (Parsed v, c'))"
  by (auto simp: propagate_def split: prod.splits outcome.splits)

lemma need_Parsed: "need n m c = (Parsed v, c') \<longleftrightarrow> n \<le> remaining c \<and> m c = (Parsed v, c')"
  by (auto simp: need_def)

lemma expect_Parsed:
  "expect_bytes pat e k c = (Parsed v, c') \<longleftrightarrow> (\<exists>c1. match_bytes pat c = (Parsed True, c1) \<and> k c1 = (Parsed v, c'))"
  by (auto simp: expect_bytes_def propagate_Parsed fail_with_def split: if_splits)

lemma if_reader_Parsed:
  "(if b then m else m') c = (Parsed v, c') \<longleftrightarrow> (if b then m c = (Parsed v, c') else m' c = (Parsed v, c'))"
  by simp

lemmas reader_Parsed =
  propagate_Parsed need_Parsed expect_Parsed if_reader_Parsed at_pos_def ok_some_def fail_with_def

lemma get_utf8_string_valid: "get_utf8_string c = (Parsed s, c') \<Longrightarrow> utf8_valid s"
  by (erule get_utf8_string_Parsed)

lemma get_utf16_string_valid: "get_utf16_string c = (Parsed s, c') \<Longrightarrow> utf8_valid s"
  by (auto simp: get_utf16_string_eq Let_def from_utf16_valid split: if_splits option.splits)

lemma strip_after_nul_valid: "utf8_valid s \<Longrightarrow> utf8_valid (strip_after_nul s)"
  by (auto simp: strip_after_nul_def split: option.splits dest!: split_once_SomeD utf8_valid_cut)

lemma strip_after_nul_nul: "0 \<notin> set (strip_after_nul s)"
  by (auto simp: strip_after_nul_def split_once_None split: option.splits dest!: split_once_SomeD)

lemma old_ping_result:
  "old_ping_pkg c = (Parsed h, c') \<Longrightarrow> length_hello h = cpos c' \<and> utf8_valid (hostname_hello h)"
  unfolding old_ping_pkg_def reader_Parsed
  by (auto simp: fail_with_def reader_Parsed dest: get_utf16_string_valid split: if_splits)

lemma old_connect_result:
  "old_connect_body c = (Parsed h, c') \<Longrightarrow> length_hello h = cpos c' \<and> utf8_valid (hostname_hello h)"
  unfolding old_connect_body_def old_connect_pkg_def reader_Parsed
  by (auto dest: get_utf16_string_valid)

lemma new_pkg_result:
  "new_pkg c = (Parsed h, c') \<Longrightarrow> length_hello h = cpos c' \<and> utf8_valid (hostname_hello h)"
  unfolding new_pkg_def reader_Parsed
  by (auto simp: reader_Parsed strip_after_nul_valid dest: get_utf8_string_valid split: if_splits)

lemma hello_length_bound:
  assumes "hello_new buf = Parsed h"
  shows "length_hello h \<le> length buf \<and> utf8_valid (hostname_hello h)"
proof (cases rule: hello_new_cases[of buf])
  case 1
  with assms show ?thesis by simp
next
  case (2 b0 b1 t)
  with assms obtain c' where r: "pick_format b0 b1 (cursor_new buf) = (Parsed h, c')"
    by (metis prod.collapse)
  from streaming_bound[OF streaming_pick_format wf_cursor_new r] have "cpos c' \<le> length buf"
    by (simp add: cursor_new_def)
  moreover have "length_hello h = cpos c' \<and> utf8_valid (hostname_hello h)"
    using r old_ping_result old_connect_result new_pkg_result
    by (auto simp: pick_format_def split: if_splits)
  ultimately show ?thesis by auto
qed

text \<open>
  C34. A packet that is returned says how many bytes of the buffer it took (never more than there
  are, which is what lets \<^verbatim>\<open>handle_mc_disconnect\<close> slice at it), and its host name is valid UTF-8.
\<close>

theorem hello_new_wf:
  assumes "hello_new buf = Parsed h"
  shows "length_hello h \<le> length buf \<and> utf8_valid (hostname_hello h)"
  using assms by (rule hello_length_bound)

end
