(* ===== verification/Minecraft_Wire.thy ===== *)
theory Minecraft_Wire
  imports Minecraft
begin

text \<open>
  What the parser of \<^verbatim>\<open>minecraft.rs\<close> makes of packets built as the Minecraft protocol describes
  them (the three formats of a first packet), and the answers of
  \<^verbatim>\<open>MinecraftHelloPacket::generate_response\<close>. The builders of the first packets are reference
  definitions: the repository only reads these packets.
\<close>

subsection \<open>The modern handshake\<close>

definition handshake_body :: "i32 \<Rightarrow> str \<Rightarrow> u16 \<Rightarrow> i32 \<Rightarrow> bytes" where
  "handshake_body version host prt next_state =
     put_varint 0 [] @ put_varint version [] @ put_utf8_string host []
       @ be_bytes 2 prt @ put_varint next_state []"

definition handshake :: "i32 \<Rightarrow> str \<Rightarrow> u16 \<Rightarrow> i32 \<Rightarrow> bytes" where
  "handshake version host prt next_state =
     put_varint (of_nat (length (handshake_body version host prt next_state))) []
       @ handshake_body version host prt next_state"

lemma new_pkg_handshake:
  fixes version prt host next_state rest
  defines "body \<equiv> handshake_body version host prt next_state"
  defines "buf \<equiv> handshake version host prt next_state @ rest"
  assumes "utf8_valid host" "length host < 2 ^ 30"
  shows "fst (new_pkg (cursor_new buf)) =
     (if length (put_varint (of_nat (length body)) []) = length (put_varint next_state [])
      then Parsed \<lparr>length_hello = length (put_varint (of_nat (length body)) []) + length body,
                    pkg_type = state_type next_state, id_hello = 0, version_hello = version,
                    hostname_hello = strip_after_nul host, forge = ends_with host FORGE_STRING,
                    port = ucast prt\<rparr>
      else Failed NotValid)"
proof -
  define L where "L = (of_nat (length body) :: i32)"
  define l where "l = length (put_varint L [])"
  define z where "z = length (put_varint 0 [])"
  define v where "v = length (put_varint version [])"
  define h where "h = length (put_utf8_string host [])"
  define n where "n = length (put_varint next_state [])"
  let ?c = "\<lambda>p. \<lparr>cbuf = buf, cpos = p\<rparr>"
  have body: "length body = z + v + h + 2 + n"
    by (simp add: body_def handshake_body_def z_def v_def h_def n_def)
  have "h \<le> 5 + length host"
    using length_put_varint by (simp add: h_def put_utf8_string_def)
  then have len: "length body < 2 ^ 31"
    using assms(4) length_put_varint[of 0] length_put_varint[of version]
      length_put_varint[of next_state]
    by (simp add: body z_def v_def n_def)
  have L: "i32_as_usize L = length body"
    using len by (simp add: i32_as_usize_def L_def i32_len)
  have b1: "buf = [] @ put_varint L [] @ (body @ rest)"
    by (simp add: buf_def handshake_def L_def body_def)
  have b2: "buf = put_varint L [] @ put_varint 0 [] @
      (put_varint version [] @ put_utf8_string host [] @ be_bytes 2 prt @ put_varint next_state [] @ rest)"
    by (simp add: b1 body_def handshake_body_def)
  have b3: "buf = (put_varint L [] @ put_varint 0 []) @ put_varint version [] @
      (put_utf8_string host [] @ be_bytes 2 prt @ put_varint next_state [] @ rest)"
    by (simp add: b2)
  have b4: "buf = (put_varint L [] @ put_varint 0 [] @ put_varint version []) @
      put_utf8_string host [] @ (be_bytes 2 prt @ put_varint next_state [] @ rest)"
    by (simp add: b2)
  have b5: "buf = (put_varint L [] @ put_varint 0 [] @ put_varint version [] @ put_utf8_string host [])
      @ be_bytes 2 prt @ (put_varint next_state [] @ rest)"
    by (simp add: b2)
  have b6: "buf = (put_varint L [] @ put_varint 0 [] @ put_varint version [] @ put_utf8_string host []
      @ be_bytes 2 prt) @ put_varint next_state [] @ rest"
    by (simp add: b2)
  note lens = l_def z_def v_def h_def n_def
  have s1: "propagate get_varint f (?c 0) = f L (?c l)"
    for f :: "i32 \<Rightarrow> minecraft_hello_packet reader"
    using propagate_varint[OF b1, of 0] by (simp add: lens)
  have s2: "propagate get_varint f (?c l) = f 0 (?c (l + z))"
    for f :: "i32 \<Rightarrow> minecraft_hello_packet reader"
    using propagate_varint[OF b2, of l] by (simp add: lens)
  have s3: "propagate get_varint f (?c (l + z)) = f version (?c (l + z + v))"
    for f :: "i32 \<Rightarrow> minecraft_hello_packet reader"
    using propagate_varint[OF b3, of "l + z"] by (simp add: lens add.assoc)
  have s4: "propagate get_utf8_string f (?c (l + z + v)) = f host (?c (l + z + v + h))"
    for f :: "str \<Rightarrow> minecraft_hello_packet reader"
    using assms(3,4) propagate_utf8[OF b4, of "l + z + v"] by (simp add: lens add.assoc)
  have s5: "propagate (get_be 2) f (?c (l + z + v + h)) = f prt (?c (l + z + v + h + 2))"
    for f :: "u16 \<Rightarrow> minecraft_hello_packet reader"
    using propagate_be[OF b5, of "l + z + v + h"] by (simp add: lens add.assoc)
  have s6: "propagate get_varint f (?c (Suc (Suc (l + z + v + h)))) = f next_state (?c (l + length body))"
    for f :: "i32 \<Rightarrow> minecraft_hello_packet reader"
    using propagate_varint[OF b6, of "l + z + v + h + 2"] by (simp add: lens body add.assoc)
  have r: "\<not> remaining (?c (l + z + v + h)) < 2"
    by (subst b5) (simp add: remaining_def lens)
  show ?thesis
    unfolding L_def[symmetric] l_def[symmetric] n_def[symmetric]
    using r
    by (simp add: new_pkg_def cursor_new_def s1 s2 s3 s4 s5 s6 need_def get_u16_def at_pos_def
        L fail_with_def ok_some_def if_distrib[of "\<lambda>f. f _"] if_distrib[of fst] cong: if_cong)
       (simp add: body)
qed

lemma put_varint_zero: "put_varint 0 [] = [0]"
  using put_varint_small[of 0] by simp

lemma handshake_body_Cons:
  "\<exists>t. handshake_body version host prt next_state = 0 # t"
  by (simp add: handshake_body_def put_varint_zero)

text \<open>A buffer that starts like a legacy ping but goes on otherwise is refused.\<close>

lemma old_ping_mismatch:
  assumes "27 \<le> length buf" "buf = b0 # b1 # b2 # t" "b2 \<noteq> 0xFA"
  shows "fst (old_ping_pkg (cursor_new buf)) = Failed NotValid"
  using assms
  by (simp add: old_ping_pkg_def need_def expect_bytes_def match_bytes_unfold propagate_def fail_with_def cursor_new_def
      remaining_def OLD_MINECRAFT_START_def)

lemma hello_new_long_handshake:
  assumes "utf8_valid host" "length host < 2 ^ 30" "length (put_varint next_state []) = 1"
    and "128 \<le> length (handshake_body version host prt next_state)"
    and "length (handshake_body version host prt next_state) < 2 ^ 32"
  shows "hello_new (handshake version host prt next_state @ rest) = Failed NotValid"
proof -
  define body where "body = handshake_body version host prt next_state"
  define buf where "buf = handshake version host prt next_state @ rest"
  obtain b0 b1 t where L: "put_varint (of_nat (length body)) [] = b0 # b1 # t" "bit b0 7"
      "\<not> bit b1 7 \<Longrightarrow> t = []"
    using put_varint_large[of "length body"] assms(4,5) unfolding body_def by blast
  have buf: "buf = b0 # b1 # t @ body @ rest"
    by (simp add: buf_def handshake_def body_def[symmetric] L)
  have b0: "b0 \<noteq> 2" using L(2) bit_exp_iff[where 'a = u8, of 1 7] by auto
  show ?thesis
  proof (cases "b0 = 0xFE \<and> b1 = 1")
    case True
    then have "t = []" using L(3) by simp
    moreover obtain u where "body = 0 # u"
      using handshake_body_Cons[of version host prt next_state] by (auto simp: body_def)
    ultimately have "buf = b0 # b1 # 0 # u @ rest" by (simp add: buf)
    moreover have "27 \<le> length buf" using assms(4) by (simp add: buf body_def)
    ultimately have "fst (old_ping_pkg (cursor_new buf)) = Failed NotValid"
      by (intro old_ping_mismatch) auto
    with True show ?thesis
      unfolding buf_def[symmetric] buf hello_new_pick by (simp add: pick_format_def)
  next
    case False
    with b0 have "hello_new buf = fst (new_pkg (cursor_new buf))"
      unfolding buf hello_new_pick by (auto simp: pick_format_def)
    also have "\<dots> = Failed NotValid"
      using new_pkg_handshake[OF assms(1,2), of version prt next_state rest] L(1) assms(3)
      by (simp add: buf_def body_def)
    finally show ?thesis by (simp add: buf_def)
  qed
qed

lemma handshake_read:
  assumes "utf8_valid host" "length host < 2 ^ 30" "next_state = 1 \<or> next_state = 2"
  shows "hello_new (handshake version host prt next_state @ rest) =
     (if length (handshake_body version host prt next_state) < 128
      then Parsed \<lparr>length_hello = Suc (length (handshake_body version host prt next_state)),
                    pkg_type = (if next_state = 1 then Ping else Connect), id_hello = 0,
                    version_hello = version, hostname_hello = strip_after_nul host,
                    forge = ends_with host FORGE_STRING, port = ucast prt\<rparr>
      else Failed NotValid)"
proof -
  define body where "body = handshake_body version host prt next_state"
  have one: "length (put_varint next_state []) = 1"
    using assms(3) put_varint_small[of 1] put_varint_small[of 2] by auto
  have "length (put_utf8_string host []) \<le> 5 + length host"
    using length_put_varint by (simp add: put_utf8_string_def)
  then have big: "length body < 2 ^ 32"
    using assms(2) one length_put_varint[of version]
    by (simp add: body_def handshake_body_def put_varint_zero)
  show ?thesis
  proof (cases "length body < 128")
    case False
    with big one hello_new_long_handshake[OF assms(1,2), of next_state version prt rest]
    show ?thesis by (simp add: body_def)
  next
    case True
    have L: "put_varint (of_nat (length body)) [] = [of_nat (length body)]"
      by (rule put_varint_small[OF True])
    obtain u where u: "body = 0 # u"
      using handshake_body_Cons[of version host prt next_state] by (auto simp: body_def)
    have "5 \<le> length body"
      using length_put_varint_pos[of version] length_put_varint_pos[of "of_nat (length host)"] one
      by (simp add: body_def handshake_body_def put_varint_zero put_utf8_string_def)
    then have "(of_nat (length body) :: u8) \<noteq> 2"
      using True unat_byte[of "length body"] by auto
    moreover have buf: "handshake version host prt next_state @ rest = of_nat (length body) # 0 # u @ rest"
      unfolding handshake_def body_def[symmetric] L by (simp add: u)
    ultimately have "hello_new (handshake version host prt next_state @ rest)
      = fst (new_pkg (cursor_new (handshake version host prt next_state @ rest)))"
      unfolding buf hello_new_pick by (simp add: pick_format_def)
    with new_pkg_handshake[OF assms(1,2), of version prt next_state rest] L one True assms(3)
    show ?thesis by (auto simp: body_def state_type_def)
  qed
qed

text \<open>
  C21. A handshake of the modern protocol is read back with its protocol version, host name (cut
  at the first NUL), Forge marker, port and next state when the packet without its length prefix
  is shorter than 128 bytes; every longer one is refused as \<^verbatim>\<open>NotValid\<close>, because the code
  compares the announced length with the cursor position, which counts the length prefix but
  not yet the next state: the two agree only when both take one byte.
\<close>

theorem hello_new_handshake:
  assumes "utf8_valid host" "length host < 2 ^ 30" "next_state = 1 \<or> next_state = 2"
  shows "hello_new (handshake version host prt next_state @ rest) =
     (if length (handshake_body version host prt next_state) < 128
      then Parsed \<lparr>length_hello = Suc (length (handshake_body version host prt next_state)),
                    pkg_type = (if next_state = 1 then Ping else Connect), id_hello = 0,
                    version_hello = version, hostname_hello = strip_after_nul host,
                    forge = ends_with host FORGE_STRING, port = ucast prt\<rparr>
      else Failed NotValid)"
  using assms by (rule handshake_read)

theorem hello_new_handshake_witness:
  "hello_new (handshake 767 (str_lit ''localhost'') 25564 2 @ [1, 0]) =
     Parsed \<lparr>length_hello = 17, pkg_type = Connect, id_hello = 0, version_hello = 767,
             hostname_hello = str_lit ''localhost'', forge = False, port = 25564\<rparr>"
proof -
  have v: "utf8_valid (str_lit ''localhost'')"
    by (rule utf8_valid_ascii) (simp add: str_lit_def)
  have n: "length (handshake_body 767 (str_lit ''localhost'') 25564 2) = 16"
    by (simp add: handshake_body_def put_utf8_string_def put_varint_def put_varint_loop_numeral)
  have "strip_after_nul (str_lit ''localhost'') = str_lit ''localhost''"
    "ends_with (str_lit ''localhost'') FORGE_STRING = False"
    by (simp_all add: strip_after_nul_def ends_with_def FORGE_STRING_def str_lit_def)
  with hello_new_handshake[OF v, of 2 767 25564 "[1, 0]"] n show ?thesis by simp
qed

subsection \<open>The legacy formats\<close>

definition legacy_ping :: "u8 \<Rightarrow> u16 list \<Rightarrow> u32 \<Rightarrow> bytes" where
  "legacy_ping version units prt =
     OLD_MINECRAFT_START @ be_bytes 2 (of_nat (7 + 2 * length units) :: u16) @ be_bytes 1 version
       @ be_bytes 2 (of_nat (length units) :: u16) @ be_units units @ be_bytes 4 prt"

definition legacy_connect :: "u8 \<Rightarrow> u16 list \<Rightarrow> u16 list \<Rightarrow> u32 \<Rightarrow> bytes" where
  "legacy_connect version user units prt =
     [0x02] @ be_bytes 1 version
       @ be_bytes 2 (of_nat (length user) :: u16) @ be_units user
       @ be_bytes 2 (of_nat (length units) :: u16) @ be_units units @ be_bytes 4 prt"

lemma be_bytes_Cons: "\<exists>x t. be_bytes (Suc n) w = x # t"
  by (metis be_bytes.simps(2) append_is_Nil_conv list.exhaust not_Cons_self2)

text \<open>
  A legacy ping is read back when its host name is ASCII, that is, when its UTF-8 form has as
  many bytes as its UTF-16 form has units; any other host name is refused as \<^verbatim>\<open>NotValid\<close>, because the
  code compares the announced length (in UTF-16 units) with the length in UTF-8 bytes.
\<close>

lemma legacy_ping_read:
  assumes "from_utf16 units = Some host" "length units < 2 ^ 14"
  shows "hello_new (legacy_ping version units prt @ rest) =
     (if length host = length units
      then Parsed \<lparr>length_hello = length (legacy_ping version units prt), pkg_type = Legacy,
                    id_hello = 0, version_hello = ucast version, hostname_hello = host,
                    forge = False, port = prt\<rparr>
      else Failed NotValid)"
proof -
  define n where "n = length units"
  define len where "len = (of_nat (7 + 2 * n) :: u16)"
  define buf where "buf = legacy_ping version units prt @ rest"
  let ?c = "\<lambda>p. \<lparr>cbuf = buf, cpos = p\<rparr>"
  obtain x t where x: "be_bytes 4 prt = x # t"
    using be_bytes_Cons[of 3 prt] by (auto simp: eval_nat_numeral)
  have "legacy_ping version units prt = OLD_MINECRAFT_START @ be_bytes 2 len @ be_bytes 1 version
       @ be_bytes 2 (of_nat n :: u16) @ be_units units @ be_bytes 4 prt"
    by (simp only: legacy_ping_def len_def n_def)
  note parts = buf_def this
  have b1: "buf = OLD_MINECRAFT_START @ be_bytes 2 len @ (be_bytes 1 version
       @ be_bytes 2 (of_nat n :: u16) @ be_units units @ be_bytes 4 prt @ rest)"
    by (simp add: parts)
  have b2: "buf = (OLD_MINECRAFT_START @ be_bytes 2 len) @ be_bytes 1 version
       @ (be_bytes 2 (of_nat n :: u16) @ be_units units @ be_bytes 4 prt @ rest)"
    by (simp add: parts)
  have b3: "buf = (OLD_MINECRAFT_START @ be_bytes 2 len @ be_bytes 1 version)
       @ be_bytes 2 (of_nat (length units) :: u16) @ be_units units @ x # (t @ rest)"
    by (simp add: parts n_def x)
  have b4: "buf = (OLD_MINECRAFT_START @ be_bytes 2 len @ be_bytes 1 version
       @ be_bytes 2 (of_nat n :: u16) @ be_units units) @ be_bytes 4 prt @ rest"
    by (simp add: parts)
  have s1: "propagate (get_be 2) f (?c 27) = f len (?c 29)"
    for f :: "u16 \<Rightarrow> minecraft_hello_packet reader"
    using propagate_be[OF b1, of 27] by simp
  have s2: "propagate (get_be (Suc 0)) f (?c 29) = f version (?c 30)"
    for f :: "u8 \<Rightarrow> minecraft_hello_packet reader"
    using propagate_be[OF b2, of 29] by simp
  have s3: "propagate get_utf16_string f (?c 30) = f host (?c (32 + 2 * n))"
    for f :: "str \<Rightarrow> minecraft_hello_packet reader"
    using propagate_utf16[OF b3, of 30 host] assms by (simp add: n_def)
  have s4: "propagate (get_be 4) f (?c (32 + 2 * n)) = f prt (?c (36 + 2 * n))"
    for f :: "u32 \<Rightarrow> minecraft_hello_packet reader"
    using propagate_be[OF b4, of "32 + 2 * n"] by (simp add: n_def)
  have len: "unat len = 7 + 2 * n"
    using assms(2) by (simp only: len_def n_def) (simp add: unat_u16 del: of_nat_add of_nat_mult)
  have total: "length buf = 36 + 2 * n + length rest"
    by (simp add: b1 n_def)
  have m: "match_bytes OLD_MINECRAFT_START (?c 0) = (Parsed True, ?c 27)"
    by (simp add: match_bytes_unfold remaining_def total) (simp add: b1)
  have pm: "propagate (match_bytes OLD_MINECRAFT_START) f (?c 0) = f True (?c 27)"
    for f :: "bool \<Rightarrow> minecraft_hello_packet reader"
    by (simp add: propagate_def m)
  have two: "\<exists>u. buf = 0xFE # 0x01 # u" by (simp add: b1 OLD_MINECRAFT_START_def)
  then have "hello_new buf = fst (old_ping_pkg (?c 0))"
    by (auto simp: hello_new_pick pick_format_def cursor_new_def)
  also have "\<dots> = (if length host = n
      then Parsed \<lparr>length_hello = 36 + 2 * n, pkg_type = Legacy,
                    id_hello = 0, version_hello = ucast version, hostname_hello = host,
                    forge = False, port = prt\<rparr>
      else Failed NotValid)"
    by (simp add: old_ping_pkg_def need_def expect_bytes_def pm remaining_def total get_u16_def
        get_u8_def get_u32_def s1 s2 s3 s4 len at_pos_def fail_with_def ok_some_def
        if_distrib[of "\<lambda>f. f _"] if_distrib[of fst] cong: if_cong)
  finally show ?thesis
    by (simp add: buf_def n_def legacy_ping_def)
qed

text \<open>
  A legacy connect packet is read back whatever the characters of its host name: the format
  has no announced length to compare with.
\<close>

lemma legacy_connect_read:
  assumes "from_utf16 user = Some u" "from_utf16 units = Some host"
    and "length user < 2 ^ 16" "length units < 2 ^ 16"
  shows "hello_new (legacy_connect version user units prt @ rest) =
     Parsed \<lparr>length_hello = length (legacy_connect version user units prt), pkg_type = Legacy,
             id_hello = 0, version_hello = ucast version, hostname_hello = host,
             forge = False, port = prt\<rparr>"
proof -
  define m where "m = length user"
  define n where "n = length units"
  define buf where "buf = legacy_connect version user units prt @ rest"
  let ?c = "\<lambda>p. \<lparr>cbuf = buf, cpos = p\<rparr>"
  let ?m = "of_nat m :: u16" and ?n = "of_nat n :: u16"
  obtain x t where x: "be_bytes 4 prt = x # t"
    using be_bytes_Cons[of 3 prt] by (auto simp: eval_nat_numeral)
  obtain y v where y: "be_bytes 2 ?n = y # v"
    using be_bytes_Cons[of 1 ?n] by (auto simp: eval_nat_numeral)
  note parts = buf_def legacy_connect_def m_def n_def
  have b1: "buf = [0x02] @ be_bytes 1 version @ (be_bytes 2 ?m @ be_units user @ be_bytes 2 ?n
      @ be_units units @ be_bytes 4 prt @ rest)"
    by (simp add: parts)
  have b2: "buf = ([0x02] @ be_bytes 1 version) @ be_bytes 2 (of_nat (length user) :: u16)
      @ be_units user @ y # (v @ be_units units @ be_bytes 4 prt @ rest)"
    using b1 by (simp add: y m_def)
  have b3: "buf = ([0x02] @ be_bytes 1 version @ be_bytes 2 ?m @ be_units user)
      @ be_bytes 2 (of_nat (length units) :: u16) @ be_units units @ x # (t @ rest)"
    using b1 by (simp add: x n_def)
  have b4: "buf = ([0x02] @ be_bytes 1 version @ be_bytes 2 ?m @ be_units user @ be_bytes 2 ?n
      @ be_units units) @ be_bytes 4 prt @ rest"
    using b1 by simp
  have s1: "propagate (get_be (Suc 0)) f (?c 1) = f version (?c 2)"
    for f :: "u8 \<Rightarrow> minecraft_hello_packet reader"
    using propagate_be[OF b1, of 1] by (simp add: numeral_2_eq_2)
  have s2: "propagate get_utf16_string f (?c 2) = f u (?c (4 + 2 * m))"
    for f :: "str \<Rightarrow> minecraft_hello_packet reader"
    using propagate_utf16[OF b2, of 2 u] assms by (simp add: m_def)
  have s3: "propagate get_utf16_string f (?c (4 + 2 * m)) = f host (?c (6 + 2 * m + 2 * n))"
    for f :: "str \<Rightarrow> minecraft_hello_packet reader"
    using propagate_utf16[OF b3, of "4 + 2 * m" host] assms by (simp add: m_def n_def)
  have s4: "propagate (get_be 4) f (?c (6 + 2 * m + 2 * n)) = f prt (?c (10 + 2 * m + 2 * n))"
    for f :: "u32 \<Rightarrow> minecraft_hello_packet reader"
    using propagate_be[OF b4, of "6 + 2 * m + 2 * n"] by (simp add: m_def n_def add.assoc)
  have total: "length buf = 10 + 2 * m + 2 * n + length rest"
    by (simp add: b1 m_def n_def)
  have mt: "match_bytes [0x02] (?c 0) = (Parsed True, ?c 1)"
    by (simp add: match_bytes_unfold remaining_def total) (simp add: b1)
  have pm: "propagate (match_bytes [0x02]) f (?c 0) = f True (?c 1)"
    for f :: "bool \<Rightarrow> minecraft_hello_packet reader"
    by (simp add: propagate_def mt)
  have "buf = 0x02 # version # (be_bytes 2 ?m @ be_units user @ be_bytes 2 ?n
      @ be_units units @ be_bytes 4 prt @ rest)"
    by (simp add: b1)
  then have "\<exists>w. buf = 0x02 # version # w" by blast
  then have "hello_new buf = fst (old_connect_body (?c 0))"
    by (auto simp: hello_new_pick pick_format_def cursor_new_def)
  also have "\<dots> = Parsed \<lparr>length_hello = 10 + 2 * m + 2 * n, pkg_type = Legacy,
             id_hello = 0, version_hello = ucast version, hostname_hello = host,
             forge = False, port = prt\<rparr>"
    using s1 by (simp add: old_connect_body_def old_connect_pkg_def need_def expect_bytes_def pm
        remaining_def total get_u8_def get_u32_def s2 s3 s4 at_pos_def ok_some_def)
  finally show ?thesis
    by (simp add: buf_def m_def n_def legacy_connect_def)
qed

theorem hello_new_wf_witness:
  "(14 :: nat) \<le> length (legacy_connect 73 [0x50] [0xE4] 25565) \<and> utf8_valid [0xC3, 0xA4]"
proof -
  have a: "from_utf16 [0x50] = Some [0x50]" and b: "from_utf16 [0xE4] = Some [0xC3, 0xA4]"
    by (simp_all add: from_utf16_def Let_def utf8_encode_def utf8_char_def)
  have "hello_new (legacy_connect 73 [0x50] [0xE4] 25565) =
     Parsed \<lparr>length_hello = 14, pkg_type = Legacy, id_hello = 0, version_hello = 73,
             hostname_hello = [0xC3, 0xA4], forge = False, port = 25565\<rparr>"
    using legacy_connect_read[OF a b, of 73 25565 "[]"] by (simp add: legacy_connect_def)
  from hello_new_wf[OF this] show ?thesis by simp
qed

subsection \<open>Answers of a server that is not connected\<close>

record minecraft_version =
  name_version :: str
  protocol_version :: i32

record sample =
  name_sample :: str
  id_sample :: str

record players =
  max_players :: i32
  online :: i32
  sample_players :: "sample list"

record minecraft_text =
  text_mc :: str
  color :: "str option"
  bold :: bool

record server_list_ping_response =
  version_resp :: minecraft_version
  description :: minecraft_text
  players_resp :: players
  favicon :: "str option"

definition ERROR_MSG_FIRST_LINE :: str where
  "ERROR_MSG_FIRST_LINE = str_lit ''Server not online!''"

definition ERROR_MSG_LONG :: str where
  "ERROR_MSG_LONG = str_lit ''Ask your friend to start CraftIP!''"

text \<open>\<^verbatim>\<open>MinecraftDataPacket::from_packet_without_len\<close>: the content behind its length.\<close>

definition from_packet_without_len :: "bytes \<Rightarrow> bytes" where
  "from_packet_without_len content = put_varint (of_nat (length content)) [] @ content"

definition offline_ping_response :: server_list_ping_response where
  "offline_ping_response =
     \<lparr>version_resp = \<lparr>name_version = ERROR_MSG_FIRST_LINE, protocol_version = 0\<rparr>,
      description = \<lparr>text_mc = str_lit ''Ask your friend to start CraftIP!'',
                     color = Some (str_lit ''red''), bold = False\<rparr>,
      players_resp = \<lparr>max_players = 0, online = 0, sample_players = []\<rparr>,
      favicon = None\<rparr>"

definition generate_response_ping :: "(server_list_ping_response \<Rightarrow> str) \<Rightarrow> bytes" where
  "generate_response_ping to_json =
     from_packet_without_len (put_utf8_string (to_json offline_ping_response) (put_varint 0 []))"

definition offline_text :: minecraft_text where
  "offline_text =
     \<lparr>text_mc = ERROR_MSG_FIRST_LINE @ [0x0A] @ ERROR_MSG_LONG,
      color = Some (str_lit ''red''), bold = False\<rparr>"

definition generate_response_connect :: "(minecraft_text \<Rightarrow> str) \<Rightarrow> bytes" where
  "generate_response_connect to_json =
     from_packet_without_len (put_utf8_string (to_json offline_text) (put_varint 0 []))"

text \<open>The kick packet of the legacy formats; \<^verbatim>\<open>resp_string\<close> starts with a section sign (two bytes).\<close>

definition legacy_resp_string :: str where
  "legacy_resp_string =
     [0xC2, 0xA7] @ str_lit ''1'' @ [0] @ str_lit ''127'' @ [0] @ ERROR_MSG_FIRST_LINE @ [0]
       @ ERROR_MSG_LONG @ [0] @ str_lit ''0'' @ [0] @ str_lit ''0''"

definition generate_response_legacy :: bytes where
  "generate_response_legacy =
     [0xFF] @ be_bytes 2 (of_nat (length legacy_resp_string) - 1 :: u16)
       @ be_units (encode_utf16 legacy_resp_string)"

definition generate_response ::
    "(server_list_ping_response \<Rightarrow> str) \<Rightarrow> (minecraft_text \<Rightarrow> str)
      \<Rightarrow> minecraft_hello_packet \<Rightarrow> bytes" where
  "generate_response json_ping json_text h =
     (case pkg_type h of
        Ping \<Rightarrow> generate_response_ping json_ping
      | Connect \<Rightarrow> generate_response_connect json_text
      | Legacy \<Rightarrow> generate_response_legacy
      | UnknownType \<Rightarrow> [])"

text \<open>Reading an answer the way a client does: length, packet id, JSON text.\<close>

definition read_json_packet :: "(i32 \<times> i32 \<times> str) reader" where
  "read_json_packet =
     propagate get_varint (\<lambda>len. propagate get_varint (\<lambda>id.
     propagate get_utf8_string (\<lambda>json. ok_some (len, id, json))))"

lemma read_json_packet_back:
  fixes json :: str
  defines "content \<equiv> put_utf8_string json (put_varint 0 [])"
  assumes "utf8_valid json" "length json < 2 ^ 31"
  shows "read_json_packet (cursor_new (from_packet_without_len content)) =
     (Parsed (of_nat (length content), 0, json),
      \<lparr>cbuf = from_packet_without_len content,
       cpos = length (from_packet_without_len content)\<rparr>)"
proof -
  have content: "content = put_varint 0 [] @ put_utf8_string json []"
    by (simp add: content_def put_utf8_string_def put_varint_append[of _ "put_varint 0 []"])
  let ?L = "of_nat (length content) :: i32"
  let ?buf = "from_packet_without_len content"
  have b1: "?buf = [] @ put_varint ?L [] @ content"
    by (simp add: from_packet_without_len_def)
  have b2: "?buf = put_varint ?L [] @ put_varint 0 [] @ put_utf8_string json []"
    by (simp add: from_packet_without_len_def) (simp add: content)
  have b3: "?buf = (put_varint ?L [] @ put_varint 0 []) @ put_utf8_string json [] @ []"
    by (simp add: b2)
  note s1 = propagate_varint[OF b1, of 0, simplified]
  note s2 = propagate_varint[OF b2 refl]
  have s3: "propagate get_utf8_string f \<lparr>cbuf = ?buf,
       cpos = length (put_varint ?L []) + length (put_varint 0 [])\<rparr>
     = f json \<lparr>cbuf = ?buf, cpos = length ?buf\<rparr>"
    for f :: "str \<Rightarrow> (i32 \<times> i32 \<times> str) reader"
    using propagate_utf8[OF b3 refl assms(2,3)] by (simp add: b2 add.assoc)
  show ?thesis
    by (simp add: read_json_packet_def cursor_new_def s1 s2 s3 ok_some_def)
qed

text \<open>
  C35. The answers to a status request and to a login are framed as the protocol asks: a reader
  gets the packet's length, the packet id 0 and the JSON text, and the length announced is that
  of what follows, to the last byte.
\<close>

theorem generate_response_framed:
  assumes "utf8_valid (json_ping offline_ping_response)" "utf8_valid (json_text offline_text)"
    and "length (json_ping offline_ping_response) < 2 ^ 31"
    and "length (json_text offline_text) < 2 ^ 31"
    and "pkg_type h = Ping \<or> pkg_type h = Connect"
  shows "\<exists>len. read_json_packet (cursor_new (generate_response json_ping json_text h)) =
      (Parsed (of_nat len, 0, if pkg_type h = Ping then json_ping offline_ping_response
                              else json_text offline_text),
       \<lparr>cbuf = generate_response json_ping json_text h,
        cpos = length (generate_response json_ping json_text h)\<rparr>)
    \<and> length (generate_response json_ping json_text h)
        = length (put_varint (of_nat len) []) + len"
  using assms(5)
proof
  assume "pkg_type h = Ping"
  with read_json_packet_back[OF assms(1,3)] show ?thesis
    by (auto simp: generate_response_def generate_response_ping_def from_packet_without_len_def)
next
  assume "pkg_type h = Connect"
  with read_json_packet_back[OF assms(2,4)] show ?thesis
    by (auto simp: generate_response_def generate_response_connect_def from_packet_without_len_def)
qed

theorem generate_response_framed_witness:
  "\<exists>len. read_json_packet (cursor_new (generate_response (\<lambda>r. str_lit ''{}'') (\<lambda>t. [])
       \<lparr>length_hello = 2, pkg_type = Ping, id_hello = 0, version_hello = 5,
        hostname_hello = [], forge = False, port = 1\<rparr>)) =
      (Parsed (of_nat len, 0, str_lit ''{}''),
       \<lparr>cbuf = generate_response_ping (\<lambda>r. str_lit ''{}''),
        cpos = length (generate_response_ping (\<lambda>r. str_lit ''{}''))\<rparr>)
    \<and> length (generate_response_ping (\<lambda>r. str_lit ''{}''))
        = length (put_varint (of_nat len) []) + len"
proof -
  have "utf8_valid (str_lit ''{}'')" by (rule utf8_valid_ascii) (simp add: str_lit_def)
  moreover have "utf8_valid []" by (rule utf8_valid_ascii) simp
  ultimately show ?thesis
    using generate_response_framed[of "\<lambda>r. str_lit ''{}''" "\<lambda>t. []"
      "\<lparr>length_hello = 2, pkg_type = Ping, id_hello = 0, version_hello = 5,
        hostname_hello = [], forge = False, port = 1\<rparr>"]
    by (simp add: generate_response_def)
qed

text \<open>
  The length field of the legacy kick packet is exactly the number of UTF-16 units that follow:
  the \<^verbatim>\<open>- 1\<close> makes up for the section sign, which takes two bytes in UTF-8 but one unit.
\<close>

lemma generate_response_legacy_framed:
  "generate_response_legacy =
     [0xFF] @ be_bytes 2 (of_nat (length (encode_utf16 legacy_resp_string)) :: u16)
       @ be_units (encode_utf16 legacy_resp_string)
   \<and> from_utf16 (encode_utf16 legacy_resp_string) = Some legacy_resp_string"
proof -
  define rest where "rest = str_lit ''1'' @ [0] @ str_lit ''127'' @ [0] @ ERROR_MSG_FIRST_LINE @ [0]
       @ ERROR_MSG_LONG @ [0] @ str_lit ''0'' @ [0] @ str_lit ''0''"
  have r: "legacy_resp_string = 0xC2 # 0xA7 # rest"
    by (simp add: legacy_resp_string_def rest_def)
  have "\<forall>b \<in> set rest. unat b < 0x80"
    by (simp add: rest_def str_lit_def ERROR_MSG_FIRST_LINE_def ERROR_MSG_LONG_def)
  then have "utf8_decode rest = Some (map unat rest)" by (rule utf8_decode_ascii)
  then have d: "utf8_decode legacy_resp_string = Some (0xA7 # map unat rest)"
    by (simp add: r utf8_next_def cont_byte_def)
  have small: "unat (b :: u8) < 256" for b using unsigned_less[of b, where 'a = nat] by simp
  have "length (concat (map utf16_char (map unat xs))) = length xs" for xs :: bytes
    by (induction xs) (auto simp: utf16_char_def intro: less_trans[OF small])
  then have len: "length (encode_utf16 legacy_resp_string) = Suc (length rest)"
    by (simp add: encode_utf16_def d utf16_char_def)
  have valid: "utf8_valid legacy_resp_string" using d by (simp add: utf8_valid_def)
  have size2: "length legacy_resp_string = Suc (Suc (length rest))" by (simp add: r)
  show ?thesis
    by (simp add: generate_response_legacy_def len size2 decode_encode_utf16[OF valid])
qed

end
