(* ===== verification/Client_Handler.thy ===== *)
theory Client_Handler
  imports Minecraft_Wire Proxy_System
begin

text \<open>
  Minecraft clients at the proxy: \<^verbatim>\<open>server/src/client_handler.rs\<close>. The first packet is read to
  find the host name, the session of that host name is asked for an id, and from then on bytes
  are moved both ways. Reads from a socket are given as the list of their results.
\<close>

subsection \<open>The first packet\<close>

datatype read_result = ReadOk bytes | ReadErr

text \<open>
  \<^verbatim>\<open>first_minecraft_packet\<close>: \<open>None\<close> while the loop goes on. A parse error is not told from an
  incomplete packet, and a read of zero bytes (the peer has closed) goes round the loop too.
\<close>

fun first_packet_loop ::
  "bytes \<Rightarrow> read_result list
     \<Rightarrow> (distributor_error + minecraft_hello_packet \<times> minecraft_data_packet) option" where
  "first_packet_loop buf [] = None"
| "first_packet_loop buf (ReadErr # rs) = Some (Inl IoError)"
| "first_packet_loop buf (ReadOk chunk # rs) =
     (let buf' = buf @ chunk in case hello_new buf' of
        Parsed packet \<Rightarrow> Some (Inr (packet, buf'))
      | _ \<Rightarrow> first_packet_loop buf' rs)"

definition first_minecraft_packet ::
  "read_result list \<Rightarrow> (distributor_error + minecraft_hello_packet \<times> minecraft_data_packet) option" where
  "first_minecraft_packet rs = first_packet_loop [] rs"

subsection \<open>A client of a session\<close>

record mc_client =
  mc_proxy_tx :: channel
  mc_rx :: channel
  mc_id :: client_id
  mc_hostname :: str

text \<open>
  \<^verbatim>\<open>MCClient::new\<close>: \<open>add_ok\<close> and \<open>data_ok\<close> tell whether the session still takes messages,
  \<open>reply\<close> is the id it sends back. The second component is what was put on the channel. The texts
  of the errors leave out the file, the line and the cause that \<^verbatim>\<open>distributor_error!\<close> adds.
\<close>

definition mc_client_new ::
  "channel \<Rightarrow> bool \<Rightarrow> str \<Rightarrow> minecraft_data_packet \<Rightarrow> oneshot \<Rightarrow> channel
     \<Rightarrow> bool \<Rightarrow> client_id option \<Rightarrow> bool
     \<Rightarrow> (distributor_error + mc_client) \<times> client_to_proxy list" where
  "mc_client_new proxy_tx addr_ok hostname start_data id_tx tx add_ok reply data_ok =
    (if \<not> addr_ok then (Inl (UnknownError (str_lit ''could not get peer address'')), [])
     else if \<not> add_ok then (Inl (UnknownError (str_lit ''no client id'')), [])
     else (case reply of
         None \<Rightarrow> (Inl (UnknownError (str_lit ''no client id'')), [AddMinecraftClient id_tx tx])
       | Some i \<Rightarrow>
           if \<not> data_ok
           then (Inl (UnknownError (str_lit ''could forward first data'')), [AddMinecraftClient id_tx tx])
           else (Inr \<lparr>mc_proxy_tx = proxy_tx, mc_rx = tx, mc_id = i, mc_hostname = hostname\<rparr>,
                 [AddMinecraftClient id_tx tx, Packet i start_data])))"

text \<open>What one turn of \<^verbatim>\<open>client_reader\<close> meets: a timeout or a read; sending may fail.\<close>

datatype client_read = TimedOut | Read read_result

fun client_reader :: "client_id \<Rightarrow> (client_read \<times> bool) list \<Rightarrow> client_to_proxy list \<times> bool" where
  "client_reader i [] = ([], True)"
| "client_reader i ((TimedOut, ok) # rs) = ([], False)"
| "client_reader i ((Read ReadErr, ok) # rs) = ([], False)"
| "client_reader i ((Read (ReadOk chunk), ok) # rs) =
     (if chunk = [] then ([], False)
      else if \<not> ok then ([], False)
      else (case client_reader i rs of (ms, go) \<Rightarrow> (Packet i chunk # ms, go)))"

text \<open>
  \<^verbatim>\<open>client_writer\<close>: the packets of the channel are written in order; a batch that is waiting is
  written before one flush, and a failed write ends the task. The result is what was written.
\<close>

fun client_writer :: "(minecraft_data_packet \<times> bool) list \<Rightarrow> bytes \<times> bool" where
  "client_writer [] = ([], True)"
| "client_writer ((pkg, ok) # pkgs) =
     (if \<not> ok then ([], False)
      else (case client_writer pkgs of (out, go) \<Rightarrow> (pkg @ out, go)))"

text \<open>
  \<^verbatim>\<open>handle\<close>: both tasks run until one of them ends; \<open>reads\<close> are the reads up to then. The removal
  is sent in any case.
\<close>

definition mc_client_handle :: "mc_client \<Rightarrow> (client_read \<times> bool) list \<Rightarrow> client_to_proxy list" where
  "mc_client_handle client reads =
     fst (client_reader (mc_id client) reads) @ [RemoveMinecraftClient (mc_id client)]"

subsection \<open>The whole handler\<close>

text \<open>What the environment decides in one run of \<^verbatim>\<open>handle_minecraft_client\<close>.\<close>

record mc_env =
  env_first :: "read_result list"
  env_addr_ok :: bool
  env_oneshot :: oneshot
  env_channel :: channel
  env_add_ok :: bool
  env_reply :: "client_id option"
  env_data_ok :: bool
  env_reads :: "(client_read \<times> bool) list"

text \<open>
  How the handler ends: the connection never gave a packet, the host name is not served and the
  client gets the answer of \<^verbatim>\<open>disconnect_client.rs\<close>, it got no id, or it was served. The operations
  on the register and the messages to the session are listed in order.
\<close>

datatype mc_outcome =
    NoHello
  | NotOnline minecraft_hello_packet minecraft_data_packet
  | NoClient distributor_error
  | Served mc_client

definition handle_minecraft_client ::
  "register \<Rightarrow> mc_env \<Rightarrow> mc_outcome \<times> register_op list \<times> client_to_proxy list" where
  "handle_minecraft_client register env = (case first_minecraft_packet (env_first env) of
     None \<Rightarrow> (NoHello, [], [])
   | Some (Inl e) \<Rightarrow> (NoHello, [], [])
   | Some (Inr (packet, packet_data)) \<Rightarrow>
      (let hostname = clean_up_hostname (hostname_hello packet)
       in case get_server register hostname of
            None \<Rightarrow> (NotOnline packet packet_data, [], [])
          | Some proxy_tx \<Rightarrow>
             (case mc_client_new proxy_tx (env_addr_ok env) hostname packet_data (env_oneshot env)
                     (env_channel env) (env_add_ok env) (env_reply env) (env_data_ok env) of
                (Inl e, msgs) \<Rightarrow> (NoClient e, [], msgs)
              | (Inr client, msgs) \<Rightarrow>
                  (Served client, [AddClient, RemoveClient],
                   msgs @ mc_client_handle client (env_reads env)))))"

subsection \<open>Properties\<close>

lemma first_packet_loop_parsed:
  assumes "hello_new (buf @ concat chunks) = Parsed p" "chunks \<noteq> []"
  shows "\<exists>k \<le> length chunks.
     first_packet_loop buf (map ReadOk chunks) = Some (Inr (p, buf @ concat (take k chunks)))"
  using assms
proof (induction chunks arbitrary: buf)
  case (Cons c cs)
  have "prefix (buf @ c) (buf @ concat (c # cs))" by (auto intro: prefixI)
  then have le: "hello_new (buf @ c) \<le> Parsed p" using Cons.prems(1) hello_new_mono_prefix by metis
  show ?case
  proof (cases "hello_new (buf @ c)")
    case Incomplete
    then have "cs \<noteq> []" using Cons.prems(1) by auto
    with Cons.IH[of "buf @ c"] Cons.prems(1) obtain k where "k \<le> length cs"
      "first_packet_loop (buf @ c) (map ReadOk cs) = Some (Inr (p, (buf @ c) @ concat (take k cs)))"
      by auto
    with Incomplete show ?thesis by (intro exI[of _ "Suc k"]) (simp add: Let_def)
  next
    case (Parsed q)
    with le have "q = p" by (simp add: less_eq_outcome_def)
    with Parsed show ?thesis by (intro exI[of _ 1]) (simp add: Let_def)
  qed (use le in \<open>simp_all add: less_eq_outcome_def\<close>)
qed simp

text \<open>
  The first packet does not depend on how TCP cuts the stream, and no byte of it is lost: when
  the bytes the client sends hold a valid first packet, the loop ends with that packet, and the
  data it passes on is everything read so far.
\<close>

lemma first_packet_read:
  assumes "hello_new (concat chunks) = Parsed p"
  shows "\<exists>k \<le> length chunks. first_minecraft_packet (map ReadOk chunks)
     = Some (Inr (p, concat (take k chunks)))"
proof -
  have "chunks \<noteq> []" using assms by (auto simp: hello_new_short)
  with first_packet_loop_parsed[of "[]" chunks p] assms show ?thesis
    by (simp add: first_minecraft_packet_def)
qed

lemma sample_hello_new:
  "hello_new (legacy_connect 73 [0x50] [0x61] 25565) = Parsed \<lparr>length_hello = 14,
      pkg_type = Legacy, id_hello = 0, version_hello = 73, hostname_hello = [0x61], forge = False,
      port = 25565\<rparr>"
proof -
  have a: "from_utf16 [0x50] = Some [0x50]" and b: "from_utf16 [0x61] = Some [0x61]"
    by (simp_all add: from_utf16_def Let_def utf8_encode_def utf8_char_def)
  show ?thesis
    using legacy_connect_read[OF a b, of 73 25565 "[]"] by (simp add: legacy_connect_def)
qed

text \<open>The chunks that the reads of a client bring.\<close>

definition chunks_read :: "(client_read \<times> bool) list \<Rightarrow> bytes list" where
  "chunks_read rs = concat (map (\<lambda>r. case r of (Read (ReadOk chunk), ok) \<Rightarrow> [chunk] | _ \<Rightarrow> []) rs)"

lemma client_reader_packets:
  "\<exists>cs. fst (client_reader i rs) = map (Packet i) cs \<and> prefix cs (chunks_read rs)
      \<and> (\<forall>c \<in> set cs. c \<noteq> []) \<and> (snd (client_reader i rs) \<longrightarrow> cs = chunks_read rs)"
proof (induction i rs rule: client_reader.induct)
  case (4 i chunk ok rs)
  show ?case
  proof (cases "chunk = [] \<or> \<not> ok")
    case False
    with 4 obtain cs where "fst (client_reader i rs) = map (Packet i) cs" "prefix cs (chunks_read rs)"
      "\<forall>c \<in> set cs. c \<noteq> []" "snd (client_reader i rs) \<longrightarrow> cs = chunks_read rs"
      by auto
    with False show ?thesis
      by (intro exI[of _ "chunk # cs"]) (auto simp: chunks_read_def split: prod.splits)
  qed (auto intro!: exI[of _ "[]"])
qed (auto simp: chunks_read_def)

text \<open>
  C23. What one served player puts on the channel of the session, from first to last: the request
  for an id; then, under that id, the first packet and the bytes read since, chunk by chunk, in
  order, without gaps; and finally its removal. The session is the one the register names for the
  cleaned up host name, and the client is counted in and out once.
\<close>

theorem served_client_messages:
  assumes "handle_minecraft_client register env = (Served client, ops, msgs)"
  shows "\<exists>packet first cs.
     first_minecraft_packet (env_first env) = Some (Inr (packet, first))
     \<and> get_server register (clean_up_hostname (hostname_hello packet)) = Some (mc_proxy_tx client)
     \<and> env_reply env = Some (mc_id client)
     \<and> prefix cs (chunks_read (env_reads env)) \<and> [] \<notin> set cs
     \<and> msgs = [AddMinecraftClient (env_oneshot env) (env_channel env)]
         @ map (Packet (mc_id client)) (first # cs) @ [RemoveMinecraftClient (mc_id client)]
     \<and> ops = [AddClient, RemoveClient]"
proof -
  obtain packet first where f: "first_minecraft_packet (env_first env) = Some (Inr (packet, first))"
    using assms by (auto simp: handle_minecraft_client_def split: option.splits sum.splits)
  obtain tx where tx: "get_server register (clean_up_hostname (hostname_hello packet)) = Some tx"
    using assms by (auto simp: handle_minecraft_client_def f Let_def split: option.splits)
  let ?new = "mc_client_new tx (env_addr_ok env) (clean_up_hostname (hostname_hello packet)) first
     (env_oneshot env) (env_channel env) (env_add_ok env) (env_reply env) (env_data_ok env)"
  obtain m1 where n: "?new = (Inr client, m1)" "ops = [AddClient, RemoveClient]"
    "msgs = m1 @ mc_client_handle client (env_reads env)"
    using assms by (auto simp: handle_minecraft_client_def f tx Let_def split: prod.splits sum.splits)
  then have c: "env_reply env = Some (mc_id client)" "mc_proxy_tx client = tx"
    "m1 = [AddMinecraftClient (env_oneshot env) (env_channel env), Packet (mc_id client) first]"
    by (auto simp: mc_client_new_def split: if_splits option.splits)
  obtain cs where "fst (client_reader (mc_id client) (env_reads env)) = map (Packet (mc_id client)) cs"
    "prefix cs (chunks_read (env_reads env))" "\<forall>c \<in> set cs. c \<noteq> []"
    using client_reader_packets by blast
  with f tx n c show ?thesis by (auto simp: mc_client_handle_def)
qed

definition sample_env :: mc_env where
  "sample_env = \<lparr>env_first = [ReadOk (legacy_connect 73 [0x50] [0x61] 25565)], env_addr_ok = True,
     env_oneshot = 4, env_channel = 5, env_add_ok = True, env_reply = Some 0, env_data_ok = True,
     env_reads = [(Read (ReadOk [1, 2]), True), (Read (ReadOk []), True)]\<rparr>"

theorem served_client_messages_witness:
  "\<exists>packet first cs.
     first_minecraft_packet (env_first sample_env) = Some (Inr (packet, first))
     \<and> get_server \<lparr>servers = [([0x61], 9)], client_count = 0\<rparr>
         (clean_up_hostname (hostname_hello packet)) = Some 9
     \<and> env_reply sample_env = Some 0
     \<and> prefix cs (chunks_read (env_reads sample_env)) \<and> [] \<notin> set cs
     \<and> [AddMinecraftClient 4 5, Packet 0 (legacy_connect 73 [0x50] [0x61] 25565), Packet 0 [1, 2],
        RemoveMinecraftClient 0]
       = [AddMinecraftClient (env_oneshot sample_env) (env_channel sample_env)]
         @ map (Packet 0) (first # cs) @ [RemoveMinecraftClient 0]
     \<and> [AddClient, RemoveClient] = [AddClient, RemoveClient]"
proof -
  have c: "clean_up_hostname [0x61] = [0x61]"
    using clean_up_plain[of "[0x61]" 0] by (simp add: starts_with_def str_lit_def)
  have "handle_minecraft_client \<lparr>servers = [([0x61], 9)], client_count = 0\<rparr> sample_env =
     (Served \<lparr>mc_proxy_tx = 9, mc_rx = 5, mc_id = 0, mc_hostname = [0x61]\<rparr>, [AddClient, RemoveClient],
      [AddMinecraftClient 4 5, Packet 0 (legacy_connect 73 [0x50] [0x61] 25565), Packet 0 [1, 2],
        RemoveMinecraftClient 0])"
    by (simp add: handle_minecraft_client_def sample_env_def first_minecraft_packet_def sample_hello_new c
        get_server_def mc_client_new_def mc_client_handle_def)
  from served_client_messages[OF this] show ?thesis by simp
qed

end
