(* ===== verification/Process_Socket.thy ===== *)
theory Process_Socket
  imports Client_Handler
begin

text \<open>
  What happens to an accepted socket: \<^verbatim>\<open>server/src/process_socket.rs\<close> tells a CraftIP client from
  a Minecraft client by the first seven bytes, \<^verbatim>\<open>server/src/disconnect_client.rs\<close> answers a
  Minecraft client whose server is not connected.
\<close>

subsection \<open>Telling the protocols apart\<close>

text \<open>
  The loop of peeks: each looks at the start of what has arrived so far (\<open>None\<close> for an error or
  the timeout) and is repeated until it sees seven bytes. The answer is the seven bytes, an end
  of the connection, or \<open>None\<close> while the loop goes on.
\<close>

fun detect_loop :: "bytes option list \<Rightarrow> bytes option option" where
  "detect_loop [] = None"
| "detect_loop (None # ps) = Some None"
| "detect_loop (Some arrived # ps) =
     (let first_buf = take (length PROXY_IDENTIFIER) arrived
      in if length first_buf = length PROXY_IDENTIFIER then Some (Some first_buf)
         else detect_loop ps)"

datatype route = Dropped | ToMinecraft | ToProxy

text \<open>
  \<^verbatim>\<open>process_socket_connection\<close> up to the handler it chooses: \<open>ident_ok\<close> and \<open>version_ok\<close> tell
  whether the identifier and the two bytes of the version (which is not looked at) could be read.
\<close>

definition process_socket_connection ::
  "bool \<Rightarrow> bytes option list \<Rightarrow> bool \<Rightarrow> bool \<Rightarrow> route option" where
  "process_socket_connection addr_ok peeks ident_ok version_ok =
    (if \<not> addr_ok then Some Dropped
     else case detect_loop peeks of
       None \<Rightarrow> None
     | Some None \<Rightarrow> Some Dropped
     | Some (Some first_buf) \<Rightarrow>
         if first_buf \<noteq> PROXY_IDENTIFIER then Some ToMinecraft
         else if \<not> ident_ok then Some Dropped
         else if \<not> version_ok then Some Dropped
         else Some ToProxy)"

text \<open>
  \<^verbatim>\<open>timeout\<close>: times are in seconds; a future is its result with the time at which it is ready, if
  it ever is.
\<close>

definition timeout ::
  "nat \<Rightarrow> (nat \<times> (distributor_error + 'r)) option \<Rightarrow> distributor_error + 'r" where
  "timeout start_time future = (case future of
     Some (t, res) \<Rightarrow> if t < start_time + TIMEOUT_IN_SEC then res else Inl Timeout
   | None \<Rightarrow> Inl Timeout)"

subsection \<open>Readers move forward\<close>

definition advances :: "nat \<Rightarrow> 'a reader \<Rightarrow> bool" where
  "advances k m \<longleftrightarrow> (\<forall>c v c'. m c = (Parsed v, c') \<longrightarrow> cpos c + k \<le> cpos c')"

lemma advancesD: "advances k m \<Longrightarrow> m c = (Parsed v, c') \<Longrightarrow> cpos c + k \<le> cpos c'"
  by (auto simp: advances_def)

lemma advances_get_be: "advances n (get_be n :: 'a::len word reader)"
  by (auto simp: advances_def get_be_def split: if_splits)

lemma advances_get:
  "get_u8 c = (Parsed b, c') \<Longrightarrow> cpos c + 1 \<le> cpos c'"
  "get_u16 c = (Parsed w, c') \<Longrightarrow> cpos c + 2 \<le> cpos c'"
  "get_u32 c = (Parsed x, c') \<Longrightarrow> cpos c + 4 \<le> cpos c'"
  using advancesD[OF advances_get_be, of 1 c b c'] advancesD[OF advances_get_be, of 2 c w c']
    advancesD[OF advances_get_be, of 4 c x c']
  by (simp_all add: get_u8_def get_u16_def get_u32_def)

lemma advances_varint: "advances 1 get_varint"
proof -
  have "get_varint_loop n v p c = (Parsed u, c') \<Longrightarrow> Suc (cpos c) \<le> cpos c'" for n v p c u c'
  proof (induction n arbitrary: v p c)
    case (Suc n)
    then obtain b c1 where b: "get_be (Suc 0) c = (Parsed (b :: u8), c1)"
      and r: "(if b AND 0x80 = 0 then ok_some (v OR push_bit p (ucast (b AND 0x7F)))
          else get_varint_loop n (v OR push_bit p (ucast (b AND 0x7F))) (p + 7)) c1 = (Parsed u, c')"
      by (auto simp: need_Parsed propagate_Parsed get_u8_def Let_def)
    have "Suc (cpos c) \<le> cpos c1" using advancesD[OF advances_get_be b] by simp
    with r Suc.IH show ?case by (fastforce simp: ok_some_def split: if_splits)
  qed (simp add: fail_with_def)
  then show ?thesis by (simp add: advances_def get_varint_def)
qed

lemma advances_utf8: "advances 1 get_utf8_string"
proof -
  have "cpos c + 1 \<le> cpos c'" if h: "get_utf8_string c = (Parsed s, c')" for c s c'
  proof -
    from h obtain v c1 where v: "get_varint c = (Parsed v, c1)"
      and "c' = c1\<lparr>cpos := cpos c1 + i32_as_usize v\<rparr>"
      by (rule get_utf8_string_Parsed)
    then have "cpos c1 \<le> cpos c'" by simp
    with advancesD[OF advances_varint v] show ?thesis by simp
  qed
  then show ?thesis by (simp add: advances_def)
qed

lemma advances_utf16: "advances 2 get_utf16_string"
proof -
  have "cpos c + 2 \<le> cpos c'" if h: "get_utf16_string c = (Parsed s, c')" for c s c'
  proof -
    show ?thesis using h by (auto simp: get_utf16_string_eq Let_def split: if_splits option.splits)
 qed
  then show ?thesis by (simp add: advances_def)
qed

lemma old_ping_advances: "old_ping_pkg c = (Parsed h, c') \<Longrightarrow> cpos c + 7 \<le> cpos c'"
proof -
  assume "old_ping_pkg c = (Parsed h, c')"
  then obtain c1 w c2 v c3 s c4 p c5 where
    m: "match_bytes OLD_MINECRAFT_START c = (Parsed True, c1)" and "get_u16 c1 = (Parsed w, c2)"
    "get_u8 c2 = (Parsed v, c3)" "get_utf16_string c3 = (Parsed s, c4)"
    "get_u32 c4 = (Parsed p, c5)" "c' = c5"
    unfolding old_ping_pkg_def reader_Parsed by (auto simp: fail_with_def reader_Parsed split: if_splits)
  moreover from m have "cpos c1 = cpos c + 27" by (auto simp: match_bytes_unfold split: if_splits)
  ultimately show ?thesis
    using advances_get advancesD[OF advances_utf16] by fastforce
qed

lemma old_connect_advances: "old_connect_body c = (Parsed h, c') \<Longrightarrow> cpos c + 7 \<le> cpos c'"
proof -
  assume "old_connect_body c = (Parsed h, c')"
  then obtain c1 v c2 u c3 s c4 p c5 where
    m: "match_bytes [2] c = (Parsed True, c1)" and s: "get_u8 c1 = (Parsed v, c2)"
    "get_utf16_string c2 = (Parsed u, c3)" "get_utf16_string c3 = (Parsed s, c4)"
    "get_u32 c4 = (Parsed p, c5)" "c' = c5"
    unfolding old_connect_body_def old_connect_pkg_def reader_Parsed by auto
  moreover from m have "cpos c1 = cpos c + 1" by (auto simp: match_bytes_unfold split: if_splits)
  moreover have "cpos c2 + 2 \<le> cpos c3" "cpos c3 + 2 \<le> cpos c4"
    using s advancesD[OF advances_utf16] by auto
  moreover have "cpos c1 + 1 \<le> cpos c2" "cpos c4 + 4 \<le> cpos c5"
    using s advances_get by auto
  ultimately show ?thesis by simp
qed

lemma new_pkg_advances: "new_pkg c = (Parsed h, c') \<Longrightarrow> cpos c + 7 \<le> cpos c'"
proof -
  assume "new_pkg c = (Parsed h, c')"
  then obtain l c1 i c2 v c3 s c4 p c5 n c6 where
    s: "get_varint c = (Parsed l, c1)" "get_varint c1 = (Parsed i, c2)"
    "get_varint c2 = (Parsed v, c3)" "get_utf8_string c3 = (Parsed s, c4)"
    "get_u16 c4 = (Parsed p, c5)" "get_varint c5 = (Parsed n, c6)" "c' = c6"
    unfolding new_pkg_def reader_Parsed by (auto simp: fail_with_def reader_Parsed split: if_splits)
  have "cpos c + 1 \<le> cpos c1" "cpos c1 + 1 \<le> cpos c2" "cpos c2 + 1 \<le> cpos c3"
    "cpos c5 + 1 \<le> cpos c6"
    using s advancesD[OF advances_varint] by auto
  moreover have "cpos c3 + 1 \<le> cpos c4" "cpos c4 + 2 \<le> cpos c5"
    using s advancesD[OF advances_utf8] advances_get(2) by auto
  ultimately show ?thesis using s(7) by simp
qed

lemma hello_new_length:
  assumes "hello_new buf = Parsed h"
  shows "7 \<le> length buf"
proof (cases rule: hello_new_cases[of buf])
  case 1
  with assms show ?thesis by simp
next
  case (2 b0 b1 t)
  with assms obtain c' where r: "pick_format b0 b1 (cursor_new buf) = (Parsed h, c')"
    by (metis prod.collapse)
  have "cpos (cursor_new buf) + 7 \<le> cpos c'"
    using r old_ping_advances old_connect_advances new_pkg_advances
    by (auto simp: pick_format_def split: if_splits)
  moreover have "cpos c' \<le> length buf"
    using streaming_bound[OF streaming_pick_format wf_cursor_new r] by (simp add: cursor_new_def)
  ultimately show ?thesis by simp
qed

text \<open>A stream that starts with the proxy identifier: the second byte is not the packet id 0.\<close>

lemma hello_new_CraftIP: "hello_new (0x43 # 0x72 # t) = Failed NotMatching"
proof -
  have p: "put_varint 0x43 [] = [0x43]" "put_varint 0x72 [] = [0x72]"
    by (simp_all add: put_varint_def put_varint_loop_numeral)
  have v: "get_varint \<lparr>cbuf = 0x43 # 0x72 # t, cpos = 0\<rparr>
      = (Parsed 0x43, \<lparr>cbuf = 0x43 # 0x72 # t, cpos = 1\<rparr>)"
    "get_varint \<lparr>cbuf = 0x43 # 0x72 # t, cpos = 1\<rparr>
      = (Parsed 0x72, \<lparr>cbuf = 0x43 # 0x72 # t, cpos = 2\<rparr>)"
    using get_put_varint[of "[]" "0x43" "0x72 # t"] get_put_varint[of "[0x43]" "0x72" t]
    by (simp_all add: p)
  show ?thesis
    using v by (simp add: hello_new_pick pick_format_def new_pkg_def cursor_new_def propagate_def
        fail_with_def)
qed

lemma PROXY_IDENTIFIER_bytes: "PROXY_IDENTIFIER = [0x43, 0x72, 0x61, 0x66, 0x74, 0x49, 0x50]"
  by (simp add: PROXY_IDENTIFIER_def str_lit_def)

lemma hello_new_not_proxy:
  assumes "hello_new buf = Parsed h"
  shows "take 7 buf \<noteq> PROXY_IDENTIFIER"
proof
  assume "take 7 buf = PROXY_IDENTIFIER"
  then have "buf = [0x43, 0x72, 0x61, 0x66, 0x74, 0x49, 0x50] @ drop 7 buf"
    using append_take_drop_id[of 7 buf] by (simp add: PROXY_IDENTIFIER_bytes)
  then obtain t where "buf = 0x43 # 0x72 # t" by simp
  with assms hello_new_CraftIP show False by simp
qed

text \<open>
  The peeks of a stream: any number that see fewer than seven bytes of it, then one that sees at
  least seven. What was peeked before and after does not matter.
\<close>

lemma detect_loop_peeks:
  assumes "\<forall>p \<in> set early. \<exists>n < 7. p = Some (take n stream)"
    and "prefix arrived stream" "7 \<le> length arrived"
  shows "detect_loop (early @ Some arrived # later) = Some (Some (take 7 stream))"
proof -
  have seven: "length PROXY_IDENTIFIER = 7" by (simp add: PROXY_IDENTIFIER_bytes)
  have arrived: "take 7 arrived = take 7 stream" using assms(2,3) by (auto simp: prefix_def)
  show ?thesis
    using assms(1)
  proof (induction early)
    case Nil
    have "length (take 7 stream) = 7" using assms(3) by (simp flip: arrived)
    with arrived show ?case by (simp add: seven del: length_take)
  next
    case (Cons p early)
    then obtain n where "p = Some (take n stream)" "n < 7" by auto
    with Cons show ?case by (simp add: seven)
  qed
qed

text \<open>
  C22. The two protocols on the one port are told apart. A connection whose bytes are a valid first
  packet of a Minecraft client is handled as a Minecraft client, and one whose bytes start with the
  identifier of the CraftIP client is handled as a CraftIP client (or dropped, when the identifier
  or the version cannot be read off the socket), as soon as seven bytes have arrived and whatever
  was peeked before; and the bytes of a CraftIP client are never a Minecraft packet, so no stream
  is both.
\<close>

theorem protocols_disjoint:
  assumes "hello_new mc = Parsed h"
    and "\<forall>p \<in> set early. \<exists>n < 7. p = Some (take n mc)"
    and "prefix arrived mc" "7 \<le> length arrived"
    and "\<forall>p \<in> set early'. \<exists>n < 7. p = Some (take n (PROXY_IDENTIFIER @ rest))"
    and "prefix arrived' (PROXY_IDENTIFIER @ rest)" "7 \<le> length arrived'"
  shows "process_socket_connection True (early @ Some arrived # later) ident_ok version_ok
      = Some ToMinecraft
    \<and> process_socket_connection True (early' @ Some arrived' # later) ident_ok version_ok
      = Some (if ident_ok \<and> version_ok then ToProxy else Dropped)
    \<and> hello_new (PROXY_IDENTIFIER @ rest) = Failed NotMatching"
proof (intro conjI)
  show "process_socket_connection True (early @ Some arrived # later) ident_ok version_ok
      = Some ToMinecraft"
    using hello_new_not_proxy[OF assms(1)]
    by (simp add: process_socket_connection_def detect_loop_peeks[OF assms(2-4)])
  show "process_socket_connection True (early' @ Some arrived' # later) ident_ok version_ok
      = Some (if ident_ok \<and> version_ok then ToProxy else Dropped)"
    by (simp add: process_socket_connection_def detect_loop_peeks[OF assms(5-7)]
        PROXY_IDENTIFIER_bytes)
  show "hello_new (PROXY_IDENTIFIER @ rest) = Failed NotMatching"
    by (simp add: PROXY_IDENTIFIER_bytes hello_new_CraftIP)
qed

theorem protocols_disjoint_witness:
  "process_socket_connection True
      ([Some (take 0 (legacy_connect 73 [0x50] [0x61] 25565)),
        Some (take 5 (legacy_connect 73 [0x50] [0x61] 25565))]
       @ Some (legacy_connect 73 [0x50] [0x61] 25565) # []) True True = Some ToMinecraft
    \<and> process_socket_connection True
        ([Some (take 3 (PROXY_IDENTIFIER @ [0, 1]))] @ Some PROXY_IDENTIFIER # []) True True
      = Some (if True \<and> True then ToProxy else Dropped)
    \<and> hello_new (PROXY_IDENTIFIER @ [0, 1]) = Failed NotMatching"
proof (rule protocols_disjoint[OF sample_hello_new])
  have seven: "\<exists>n < 7. Some (take k s) = Some (take n s)" if "k < 7" for k and s :: bytes
    using that by blast
  from seven[of 0] seven[of 5]
  show "\<forall>p \<in> set [Some (take 0 (legacy_connect 73 [0x50] [0x61] 25565)),
        Some (take 5 (legacy_connect 73 [0x50] [0x61] 25565))].
     \<exists>n < 7. p = Some (take n (legacy_connect 73 [0x50] [0x61] 25565))"
    by simp
  from seven[of 3 "PROXY_IDENTIFIER @ [0, 1]"]
  show "\<forall>p \<in> set [Some (take 3 (PROXY_IDENTIFIER @ [0, 1]))].
     \<exists>n < 7. p = Some (take n (PROXY_IDENTIFIER @ [0, 1]))"
    by (simp del: take_append)
qed (simp_all add: PROXY_IDENTIFIER_bytes hello_new_length[OF sample_hello_new])

subsection \<open>A Minecraft client whose server is not connected\<close>

text \<open>Reading until the buffer has \<open>n\<close> bytes; \<open>Some None\<close> when the peer closes or a read fails.\<close>

fun fill_buffer :: "nat \<Rightarrow> bytes \<Rightarrow> read_result list \<Rightarrow> bytes option option" where
  "fill_buffer n buf [] = (if n \<le> length buf then Some (Some buf) else None)"
| "fill_buffer n buf (r # rs) =
     (if n \<le> length buf then Some (Some buf)
      else (case r of
          ReadErr \<Rightarrow> Some None
        | ReadOk chunk \<Rightarrow> if chunk = [] then Some None else fill_buffer n (buf @ chunk) rs))"

text \<open>
  \<open>StillReading\<close> while bytes are missing; \<open>Crashed\<close> is a panic: slicing behind the end of the data,
  or the \<^verbatim>\<open>unwrap\<close> of the last write (\<open>pong_ok\<close>).
\<close>

datatype disconnect_end = StillReading | Returned | Crashed

definition handle_mc_disconnect ::
  "(server_list_ping_response \<Rightarrow> str) \<Rightarrow> (minecraft_text \<Rightarrow> str) \<Rightarrow> minecraft_hello_packet
     \<Rightarrow> minecraft_data_packet \<Rightarrow> read_result list \<Rightarrow> bool \<Rightarrow> bytes list \<times> disconnect_end" where
  "handle_mc_disconnect json_ping json_text packet data reads pong_ok =
    (let resp = generate_response json_ping json_text packet in
     if pkg_type packet \<noteq> Ping then ([resp], Returned)
     else if length_hello packet > length data then ([resp], Crashed)
     else (case fill_buffer 12 (drop (length_hello packet) data) reads of
         None \<Rightarrow> ([resp], StillReading)
       | Some None \<Rightarrow> ([resp], Returned)
       | Some (Some buf) \<Rightarrow>
           if (of_be (take 2 buf) :: u16) \<noteq> 0x0100 then ([resp], Returned)
           else if (of_be (take 2 (drop 2 buf)) :: u16) \<noteq> 0x0901 then ([resp], Returned)
           else (let ping = (of_be (take 8 (drop 4 buf)) :: u64);
                     pong = [0x09, 0x01] @ be_bytes 8 ping
                 in ([resp, pong], if pong_ok then Returned else Crashed))))"

lemma fill_buffer_prefix:
  assumes "n \<le> length (buf @ concat chunks)" "[] \<notin> set chunks"
  shows "\<exists>b. fill_buffer n buf (map ReadOk chunks) = Some (Some b) \<and> n \<le> length b
    \<and> prefix b (buf @ concat chunks)"
  using assms
proof (induction chunks arbitrary: buf)
  case (Cons c cs)
  show ?case
  proof (cases "n \<le> length buf")
    case False
    with Cons.IH[of "buf @ c"] Cons.prems show ?thesis by auto
  qed simp
qed simp

lemma of_be_status: "of_be [1, 0] = (0x0100 :: u16)" "of_be [9, 1] = (0x0901 :: u16)"
  by (simp_all add: of_be_def)

text \<open>
  C24. A status request gets its pong, however it is cut: when a client whose server is not connected
  sends a ping handshake, the status request and a ping with any payload, it gets the status answer
  and then a pong with the same payload, even when part of the bytes came with the handshake. The
  handler does not crash on the slice of the first data.
\<close>

theorem status_ping_answered:
  fixes payload :: u64
  assumes "hello_new data = Parsed packet" "pkg_type packet = Ping" "[] \<notin> set chunks"
    and "prefix ([1, 0, 9, 1] @ be_bytes 8 payload)
           (drop (length_hello packet) data @ concat chunks)"
  shows "handle_mc_disconnect json_ping json_text packet data (map ReadOk chunks) True
    = ([generate_response json_ping json_text packet, [0x09, 0x01] @ be_bytes 8 payload], Returned)"
proof -
  let ?tail = "drop (length_hello packet) data"
  let ?msg = "[1, 0, 9, 1] @ be_bytes 8 payload"
  have len: "length_hello packet \<le> length data" using hello_length_bound[OF assms(1)] by simp
  have "12 \<le> length (?tail @ concat chunks)"
    using prefix_length_le[OF assms(4)] by simp
  from fill_buffer_prefix[OF this assms(3)] obtain b where b:
    "fill_buffer 12 ?tail (map ReadOk chunks) = Some (Some b)" "12 \<le> length b"
    "prefix b (?tail @ concat chunks)"
    by blast
  have "prefix ?msg b"
    using prefix_length_prefix[OF assms(4) b(3)] b(2) by simp
  then obtain r where r: "b = [1, 0, 9, 1] @ be_bytes 8 payload @ r" by (auto simp: prefix_def)
  show ?thesis
    using len assms(2) b(1) r of_be_bytes_all[of 8 payload]
    by (simp add: handle_mc_disconnect_def Let_def of_be_status)
qed

definition sample_status :: bytes where
  "sample_status = handshake 767 (str_lit ''localhost'') 25564 1 @ [1, 0]"

lemma sample_status_new:
  "hello_new sample_status = Parsed \<lparr>length_hello = 17, pkg_type = Ping, id_hello = 0,
     version_hello = 767, hostname_hello = str_lit ''localhost'', forge = False, port = 25564\<rparr>"
  "drop 17 sample_status = [1, 0]"
proof -
  have v: "utf8_valid (str_lit ''localhost'')"
    by (rule utf8_valid_ascii) (simp add: str_lit_def)
  have n: "length (handshake_body 767 (str_lit ''localhost'') 25564 1) = 16"
    by (simp add: handshake_body_def put_utf8_string_def put_varint_def put_varint_loop_numeral)
  have "strip_after_nul (str_lit ''localhost'') = str_lit ''localhost''"
    "ends_with (str_lit ''localhost'') FORGE_STRING = False"
    by (simp_all add: strip_after_nul_def ends_with_def FORGE_STRING_def str_lit_def)
  with handshake_read[OF v, of 1 767 25564 "[1, 0]"] n
  show "hello_new sample_status = Parsed \<lparr>length_hello = 17, pkg_type = Ping, id_hello = 0,
     version_hello = 767, hostname_hello = str_lit ''localhost'', forge = False, port = 25564\<rparr>"
    by (simp add: sample_status_def)
  have "length (put_varint (of_nat 16) []) = 1" by (subst put_varint_small) simp_all
  then have "length (handshake 767 (str_lit ''localhost'') 25564 1) = 17"
    using n by (simp add: handshake_def)
  then show "drop 17 sample_status = [1, 0]" by (simp add: sample_status_def)
qed

theorem status_ping_answered_witness:
  "handle_mc_disconnect (\<lambda>r. str_lit ''{}'') (\<lambda>t. []) \<lparr>length_hello = 17, pkg_type = Ping,
      id_hello = 0, version_hello = 767, hostname_hello = str_lit ''localhost'', forge = False,
      port = 25564\<rparr> sample_status (map ReadOk [[9], [1] @ be_bytes 8 (5 :: u64)]) True
    = ([generate_response (\<lambda>r. str_lit ''{}'') (\<lambda>t. []) \<lparr>length_hello = 17, pkg_type = Ping,
      id_hello = 0, version_hello = 767, hostname_hello = str_lit ''localhost'', forge = False,
      port = 25564\<rparr>, [0x09, 0x01] @ be_bytes 8 (5 :: u64)], Returned)"
  by (rule status_ping_answered[OF sample_status_new(1)]) (simp_all add: sample_status_new(2))

end
