(* ===== verification/Tunnel.thy ===== *)
theory Tunnel
  imports Client Process_Socket
begin

text \<open>
  The proxy and the CraftIP client together: what the two ends of a tunnel do to each other. The
  definitions are those of the theories of the two sides; here are the properties that span them.
\<close>

subsection \<open>The client's table\<close>

definition counted :: "client \<Rightarrow> bool" where
  "counted c \<longleftrightarrow> wf_client c \<and> connections_len c = card (dom (get_connection c))"

lemma MAXIMUM_CLIENTS_small: "n \<le> MAXIMUM_CLIENTS \<Longrightarrow> Suc n \<le> USIZE_MAX"
  by (simp add: MAXIMUM_CLIENTS_def USIZE_MAX_def)

lemma connections_len_put:
  "counted c \<Longrightarrow> connections_len (put_connection c i tx) = Suc (card (dom (get_connection c)))"
  using conn.card_dom[of c] MAXIMUM_CLIENTS_small[of "card (dom (get_connection c))"]
  by (simp add: counted_def put_connection_def)

lemma counted_put:
  assumes "counted c" "i < MAXIMUM_CLIENTS"
  shows "counted (put_connection c i tx) \<longleftrightarrow> get_connection c i = None"
  using assms conn.card_put[of c i tx] connections_len_put[OF assms(1)] conn.wf_put[of c i tx]
  by (auto simp: counted_def)

lemma counted_clear: "counted c \<Longrightarrow> get_connection c i \<noteq> None \<Longrightarrow> counted (clear_connection c i)"
  using conn.card_clear[of c i] conn.wf_clear[of c i]
  by (simp add: counted_def) (auto simp: clear_connection_def)

lemma counted_remove: "counted c \<Longrightarrow> remove_connection c i = Inr (c', effs) \<Longrightarrow> counted c'"
  using remove_connection_Inr[of c i c' effs] counted_clear[of c i]
  by (auto simp: counted_def split: if_splits)

lemma counted_send_to: "counted c \<Longrightarrow> send_to c i d alive = Inr (c', effs) \<Longrightarrow> counted c'"
  by (auto simp: send_to_def split: option.splits if_splits intro: counted_remove)

text \<open>
  The number of connections shown to the user is the number of connections in the table, and it
  goes wrong in one case only: a join for an id that is still in the table counts it twice.
\<close>

lemma connections_len_step:
  assumes "counted c" "reader_handler c fresh alive now writer_ok ev = Inr (c', effs)"
  shows "counted c' \<longleftrightarrow>
     \<not> (\<exists>i. ev = FromProxy (Frame (ProxyJoin i)) \<and> i < MAXIMUM_CLIENTS \<and> get_connection c i \<noteq> None)"
proof (cases "\<exists>i. ev = FromProxy (Frame (ProxyJoin i))")
  case True
  then obtain i where i: "ev = FromProxy (Frame (ProxyJoin i))" by blast
  then obtain e where "add_connection c i fresh = Inr (c', e)"
    using assms(2) by (auto simp: reader_handler_def split: sum.splits)
  then have "c' = (if i < MAXIMUM_CLIENTS then put_connection c i fresh else c)"
    using assms(1) add_connection_Inr by (auto simp: counted_def)
  then show ?thesis using i assms(1) counted_put[OF assms(1), of i fresh] by auto
next
  case False
  have "counted c'"
    using assms False counted_remove[OF assms(1)] counted_send_to[OF assms(1)]
    by (auto simp: reader_handler_def split: client_event.splits frame_event.splits
        socket_packet.splits option.splits if_splits)
  with False show ?thesis by blast
qed

definition sample_server :: server where
  "sample_server = \<lparr>server_name = get_hostname sample_api sample_public,
     server_local = STANDARD_LOCAL_PORT, server_auth = Key sample_key\<rparr>"

definition sample_client :: client where
  "sample_client = client_new sample_server (Some True)"

lemma counted_new: "counted (client_new cfg st)"
  by (simp add: counted_def) (simp add: client_new_def)

lemma join_free:
  "wf_client c \<Longrightarrow> stats_rx c \<noteq> Some False \<Longrightarrow> i < MAXIMUM_CLIENTS \<Longrightarrow>
     \<exists>effs. reader_handler c fresh alive now writer_ok (FromProxy (Frame (ProxyJoin i)))
        = Inr (put_connection c i fresh, effs) \<and> (\<forall>tx d. Deliver tx d \<notin> set effs)"
  by (cases "stats_rx c")
    (auto simp: reader_handler_def add_connection_def notify_def put_connection_def wf_client_def)

subsection \<open>Authentication from both ends\<close>

text \<open>
  C10. The owner of a key gets through: when the two ends run against each other, no packet is lost,
  and the hostname is free, the proxy accepts the hello, the client's answer to the challenge is
  verified, the session is registered under the hostname of the key, and the client's \<^verbatim>\<open>auth\<close>
  returns \<^verbatim>\<open>Ok\<close> and tells the user. The packets each side sends are the ones the other one reads.
\<close>

theorem honest_client_registers:
  assumes "ring_ok api" "server_new_from_key api key = Some cfg"
    and "get_server reg (server_name cfg) = None"
  shows "\<exists>pk sig pc pc' reg' resp. let hello = auth_hello cfg pk in
     proxy_client_new [(Frame hello, True)] = (Some (Inr pc), [])
   \<and> authenticate api pc (Some challenge) True (Frame (ProxyAuthResponse sig))
       = (Inr pc', [ProxyAuthRequest challenge])
   \<and> handle_start reg pc' tx True = (reg', Inr pc', [resp])
   \<and> get_server reg' = (get_server reg)(get_hostname api pk \<mapsto> tx)
   \<and> auth api (client_new cfg (Some True)) (True, True) (Frame (ProxyAuthRequest challenge)) (Frame resp)
       = Some (Inr (), [hello, ProxyAuthResponse sig], [Connected])"
proof -
  obtain pk where pk: "get_public_key api key = Some pk"
    and cfg: "cfg = \<lparr>server_name = get_hostname api pk, server_local = STANDARD_LOCAL_PORT,
                    server_auth = Key key\<rparr>"
    using assms(2) by (auto simp: server_new_from_key_def split: option.splits)
  obtain sig where sig: "sign api key challenge = Some sig" "verify api pk challenge sig"
    using sign_verifies[OF assms(1) pk] by blast
  define p where "p = \<lparr>hello_version = PROTOCOL_VERSION, hello_hostname = server_name cfg,
      hello_auth = PublicKey pk\<rparr>"
  define pc where "pc = \<lparr>pc_hostname = hello_hostname p, pc_state = \<lparr>na_hello = p\<rparr>\<rparr>"
  define pc' where "pc' = \<lparr>pc_hostname = hello_hostname p, pc_state = Authenticated\<rparr>"
  have host: "pc_hostname pc' = get_hostname api pk" by (simp add: pc'_def p_def cfg)
  then obtain reg' where reg': "add_server reg (pc_hostname pc') tx = Inr reg'"
    "get_server reg' = (get_server reg)(get_hostname api pk \<mapsto> tx)"
    using reg.ins_free[of reg "get_hostname api pk" tx] assms(3) by (auto simp: cfg)
  have "proxy_client_new [(Frame (auth_hello cfg pk), True)] = (Some (Inr pc), [])"
    by (simp add: auth_hello_def pc_def p_def)
  moreover have "authenticate api pc (Some challenge) True (Frame (ProxyAuthResponse sig))
      = (Inr pc', [ProxyAuthRequest challenge])"
    using sig(2) by (simp add: authenticate_def create_challenge_def pc_def pc'_def p_def cfg)
  moreover have "handle_start reg pc' tx True
      = (reg', Inr pc', [ProxyHelloResponse \<lparr>connected_version = PROTOCOL_VERSION\<rparr>])"
    using reg'(1) by (simp add: handle_start_def)
  moreover have "auth api (client_new cfg (Some True)) (True, True)
      (Frame (ProxyAuthRequest challenge))
      (Frame (ProxyHelloResponse \<lparr>connected_version = PROTOCOL_VERSION\<rparr>))
      = Some (Inr (), [auth_hello cfg pk, ProxyAuthResponse sig], [Connected])"
    using pk sig(1) by (simp add: auth_def auth_finish_def client_new_def cfg Let_def)
  ultimately show ?thesis using reg'(2) unfolding Let_def by blast
qed

lemma sample_server_new: "server_new_from_key sample_api sample_key = Some sample_server"
  by (simp add: server_new_from_key_def sample_get_public_key sample_server_def)

theorem honest_client_registers_witness:
  "\<exists>pk sig pc pc' reg' resp. let hello = auth_hello sample_server pk in
     proxy_client_new [(Frame hello, True)] = (Some (Inr pc), [])
   \<and> authenticate sample_api pc (Some (replicate 64 1)) True (Frame (ProxyAuthResponse sig))
       = (Inr pc', [ProxyAuthRequest (replicate 64 1)])
   \<and> handle_start register_default pc' 3 True = (reg', Inr pc', [resp])
   \<and> get_server reg' = (get_server register_default)(get_hostname sample_api pk \<mapsto> 3)
   \<and> auth sample_api (client_new sample_server (Some True)) (True, True)
         (Frame (ProxyAuthRequest (replicate 64 1))) (Frame resp)
       = Some (Inr (), [hello, ProxyAuthResponse sig], [Connected])"
  by (rule honest_client_registers[OF ring_ok_sample sample_server_new])
    (simp add: register_default_def get_server_def)

subsection \<open>The two tables in step\<close>

text \<open>
  The writer of the proxy handles the messages \<open>ms\<close> of the Minecraft clients one by one, and the
  client gets the frames: \<open>receives\<close> relates frames to the inputs of its reader, while the local
  connections it opened are alive.
\<close>

definition serve_all :: "client_to_proxy list \<Rightarrow> session_event list" where
  "serve_all ms = concat (map (\<lambda>m. [Enqueue m, WriterTurn True True]) ms)"

definition receives :: "socket_packet list \<Rightarrow> client_input list \<Rightarrow> bool" where
  "receives frames is \<longleftrightarrow>
     list_all2 (\<lambda>f i. in_event i = FromProxy (Frame f) \<and> in_alive i) frames is"

text \<open>Minecraft clients only send data while the proxy holds their id.\<close>

definition sends_live :: "client_to_proxy list \<Rightarrow> bool" where
  "sends_live ms \<longleftrightarrow> (\<forall>ms1 i d ms2. ms = ms1 @ Packet i d # ms2 \<longrightarrow>
     get_by_id (s_dist (session_run (serve_all ms1))) i \<noteq> None)"

definition delivered_data :: "client_effect list \<Rightarrow> minecraft_data_packet list" where
  "delivered_data effs = concat (map (\<lambda>e. case e of Deliver tx d \<Rightarrow> [d] | _ \<Rightarrow> []) effs)"

definition agrees :: "session \<Rightarrow> client \<Rightarrow> bool" where
  "agrees s c \<longleftrightarrow> counted c \<and> stats_rx c \<noteq> Some False
     \<and> dom (get_connection c) = dom (get_by_id (s_dist s))"

lemma serve_all_snoc:
  "session_run (serve_all (ms @ [m])) =
     session_step (WriterTurn True True) (session_step (Enqueue m) (session_run (serve_all ms)))"
  by (simp add: serve_all_def session_run_def)

lemma serve_all_queue: "s_running (session_run (serve_all ms)) \<longrightarrow> s_queue (session_run (serve_all ms)) = []"
proof (induction ms rule: rev_induct)
  case (snoc m ms)
  then show ?case
    by (cases "s_running (session_run (serve_all ms))")
      (auto simp: serve_all_snoc session_step_def split: prod.splits)
qed (simp add: serve_all_def session_new_def)

text \<open>One message at the proxy and its frame at the client.\<close>

lemma serve_one:
  assumes "s_running s" "s_queue s = []"
    and "handle_writer (s_dist s) m True True = (d, reply, frames, True)"
  shows "session_step (WriterTurn True True) (session_step (Enqueue m) s) =
    s\<lparr>s_dist := d, s_frames := s_frames s @ frames,
      s_ids := s_ids s @ (case reply of None \<Rightarrow> [] | Some r \<Rightarrow> [r])\<rparr>"
  using assms by (simp add: session_step_def)

lemma serve_one_runs:
  assumes "s_running s" "s_queue s = []"
    and "s_running (session_step (WriterTurn True True) (session_step (Enqueue m) s))"
  obtains d reply frames where "handle_writer (s_dist s) m True True = (d, reply, frames, True)"
proof -
  obtain d reply frames go where h: "handle_writer (s_dist s) m True True = (d, reply, frames, go)"
    by (metis prod_cases4)
  with assms have go by (simp add: session_step_def)
  with h that show thesis by simp
qed

lemma remove_effects:
  "stats_rx c \<noteq> Some False \<Longrightarrow> wf_client c \<Longrightarrow> \<exists>effs.
     remove_connection c i = Inr (if get_connection c i \<noteq> None then clear_connection c i else c, effs)
       \<and> delivered_data effs = []"
  by (cases "stats_rx c")
    (auto simp: remove_connection_def notify_def clear_connection_def get_connection_def
      wf_client_def delivered_data_def)

lemma stats_rx_update [simp]:
  "stats_rx (put_connection c i tx) = stats_rx c" "stats_rx (clear_connection c i) = stats_rx c"
  by (simp_all add: put_connection_def clear_connection_def)

lemma client_run_append:
  "client_run c xs = (c1, effs1, None) \<Longrightarrow> client_run c1 ys = (c2, effs2, st)
     \<Longrightarrow> client_run c (xs @ ys) = (c2, effs1 @ effs2, st)"
  by (induction c xs arbitrary: effs1 rule: client_run.induct) (auto split: sum.splits prod.splits)

lemma delivered_append [simp]: "delivered_data (a @ b) = delivered_data a @ delivered_data b"
  by (simp add: delivered_data_def)

lemma in_step_one:
  assumes wf: "wf_distributor (s_dist s)" and a: "agrees s c"
    and w: "handle_writer (s_dist s) m True True = (d, reply, frames, True)"
    and live: "\<And>i b. m = Packet i b \<Longrightarrow> get_by_id (s_dist s) i \<noteq> None"
    and r: "receives frames is"
  shows "\<exists>c' effs. client_run c is = (c', effs, None) \<and> agrees (s\<lparr>s_dist := d\<rparr>) c'
     \<and> delivered_data effs = map snd (queued_data [m])"
proof -
  have c: "counted c" "wf_client c" "stats_rx c \<noteq> Some False"
    and dom: "dom (get_connection c) = dom (get_by_id (s_dist s))"
    using a by (auto simp: agrees_def counted_def)
  show ?thesis
  proof (cases m)
    case (Packet i b)
    with w have f: "d = s_dist s" "frames = [ProxyData (proxy_data_packet_new b i)]"
      by (auto simp: handle_writer_def writer_response_def)
    obtain inp where inp: "is = [inp]" "in_event inp = FromProxy (Frame (ProxyData (proxy_data_packet_new b i)))"
      "in_alive inp"
      using r f(2) by (auto simp: receives_def list_all2_Cons1)
    obtain tx where tx: "get_connection c i = Some tx" using live[OF Packet] dom by blast
    show ?thesis
      using a by (auto simp: inp f reader_handler_def send_to_def tx proxy_data_packet_new_def
          delivered_data_def Packet queued_data_def agrees_def)
  next
    case (AddMinecraftClient o1 ch)
    obtain i where ins: "distributor_insert (s_dist s) ch = Inr (i, d)" "frames = [ProxyJoin i]"
      using w by (auto simp: AddMinecraftClient handle_writer_def writer_response_def
          split: sum.splits prod.splits)
    note h = insert_Inr[OF wf ins(1)]
    obtain inp where inp: "is = [inp]" "in_event inp = FromProxy (Frame (ProxyJoin i))"
      using r ins(2) by (auto simp: receives_def list_all2_Cons1)
    have free: "get_connection c i = None" using h(2) dom by blast
    obtain effs where e: "reader_handler c (in_fresh inp) (in_alive inp) (in_now inp)
        (in_writer_ok inp) (in_event inp) = Inr (put_connection c i (in_fresh inp), effs)"
      "\<forall>tx b. Deliver tx b \<notin> set effs"
      using join_free[OF c(2,3) h(1)] unfolding inp(2) by blast
    have "agrees (s\<lparr>s_dist := d\<rparr>) (put_connection c i (in_fresh inp))"
      using c dom counted_put[OF c(1) h(1)] free h(6)
      by (simp add: agrees_def table_simps h(1))
    moreover have "delivered_data effs = []"
      using e(2) by (auto simp: delivered_data_def split: client_effect.splits)
    ultimately show ?thesis
      using e(1) by (auto simp: inp(1) AddMinecraftClient queued_data_def)
  next
    case (RemoveMinecraftClient i)
    have d: "d = snd (remove_by_id (s_dist s) i)"
      and f: "frames = (if fst (remove_by_id (s_dist s) i) then [ProxyDisconnect i] else [])"
      using w by (auto simp: RemoveMinecraftClient handle_writer_def writer_response_def
          split: prod.splits if_splits)
    show ?thesis
    proof (cases "i < MAXIMUM_CLIENTS")
      case True
      obtain inp where inp: "is = [inp]" "in_event inp = FromProxy (Frame (ProxyDisconnect i))"
        using r f remove_by_id_fst[OF wf, of i] True by (auto simp: receives_def list_all2_Cons1)
      let ?c = "if get_connection c i \<noteq> None then clear_connection c i else c"
      obtain effs where e: "remove_connection c i = Inr (?c, effs)" "delivered_data effs = []"
        using remove_effects[OF c(3,2)] by blast
      have "agrees (s\<lparr>s_dist := d\<rparr>) ?c"
        using c dom counted_clear[OF c(1), of i]
        by (auto simp: agrees_def d table_simps wf domIff)
      then show ?thesis
        using e by (auto simp: inp reader_handler_def RemoveMinecraftClient queued_data_def)
    next
      case False
      then have "frames = []" "d = s_dist s"
        using f d remove_by_id_fst[OF wf, of i] wf by (auto simp: remove_by_id_def wf_distributor_def)
      with a r show ?thesis
        by (auto simp: receives_def RemoveMinecraftClient queued_data_def delivered_data_def agrees_def)
    qed
  next
    case (AnswerPingPacket n)
    with w have f: "d = s_dist s" "frames = [ProxyPong n]"
      by (auto simp: handle_writer_def writer_response_def)
    obtain inp where inp: "is = [inp]" "in_event inp = FromProxy (Frame (ProxyPong n))"
      using r f(2) by (auto simp: receives_def list_all2_Cons1)
    show ?thesis
      using a c(3) by (cases "stats_rx c") (auto simp: inp f reader_handler_def delivered_data_def
          AnswerPingPacket queued_data_def agrees_def)
  qed
qed

lemma session_run_wf: "wf_distributor (s_dist (session_run evs))"
  using session_addressed[of evs] by (simp add: addressed_def)

lemma tunnel_agrees:
  "s_running (session_run (serve_all ms)) \<Longrightarrow> sends_live ms \<Longrightarrow> st \<noteq> Some False \<Longrightarrow>
    receives (s_frames (session_run (serve_all ms))) is \<Longrightarrow>
    \<exists>c effs. client_run (client_new cfg st) is = (c, effs, None)
      \<and> agrees (session_run (serve_all ms)) c \<and> delivered_data effs = map snd (queued_data ms)"
proof (induction ms arbitrary: "is" rule: rev_induct)
  case Nil
  then show ?case
    by (auto simp: serve_all_def session_new_def receives_def agrees_def counted_new
        delivered_data_def) (simp add: client_new_def)
next
  case (snoc m ms)
  let ?s = "session_run (serve_all ms)"
  have run: "s_running ?s" using snoc.prems(1)
    by (cases "s_running ?s") (simp_all add: serve_all_snoc session_step_stopped)
  have q: "s_queue ?s = []" using serve_all_queue run by blast
  have live: "sends_live ms" "\<And>i b. m = Packet i b \<Longrightarrow> get_by_id (s_dist ?s) i \<noteq> None"
    using snoc.prems(2) unfolding sends_live_def by (force, blast)
  obtain d reply frames where w: "handle_writer (s_dist ?s) m True True = (d, reply, frames, True)"
    using serve_one_runs[OF run q] snoc.prems(1) by (metis serve_all_snoc)
  have s': "session_run (serve_all (ms @ [m])) = ?s\<lparr>s_dist := d, s_frames := s_frames ?s @ frames,
      s_ids := s_ids ?s @ (case reply of None \<Rightarrow> [] | Some r \<Rightarrow> [r])\<rparr>"
    unfolding serve_all_snoc by (rule serve_one[OF run q w])
  obtain is1 is2 where split: "is = is1 @ is2" "receives (s_frames ?s) is1" "receives frames is2"
    using snoc.prems(4) by (auto simp: s' receives_def list_all2_append1)
  obtain c effs where c: "client_run (client_new cfg st) is1 = (c, effs, None)" "agrees ?s c"
    "delivered_data effs = map snd (queued_data ms)"
    using snoc.IH[OF run live(1) snoc.prems(3) split(2)] by blast
  obtain c' effs' where c': "client_run c is2 = (c', effs', None)" "agrees (?s\<lparr>s_dist := d\<rparr>) c'"
    "delivered_data effs' = map snd (queued_data [m])"
    using in_step_one[OF session_run_wf c(2) w _ split(3)] live(2) by blast
  show ?case
    using client_run_append[OF c(1) c'(1)] c(3) c'(2,3) by (simp add: split(1) s' agrees_def)
qed

text \<open>
  C7. Proxy and client stay in step, byte for byte: as long as the session is not full, players only
  send while the proxy holds their id, and the packets fit their frames, the client decodes exactly
  the frames the proxy sent, however TCP cuts them, and takes every one without ending the session;
  afterwards it has a local connection for exactly the ids in the proxy's table, shows their number,
  and every packet of data was handed to a local connection, in order.
\<close>

theorem tunnel_in_step:
  assumes "s_running (session_run (serve_all ms))" and "sends_live ms"
    and "list_all (sendable ser deser) (s_frames (session_run (serve_all ms)))"
    and "concat chunks = concat (map (frame ser) (s_frames (session_run (serve_all ms))))"
    and "receives (fst (receive (drain deser) chunks)) inputs"
  shows "snd (receive (drain deser) chunks) = (Incomplete, [])
   \<and> (\<exists>c effs. client_run (client_new cfg (Some True)) inputs = (c, effs, None)
     \<and> dom (get_connection c) = dom (get_by_id (s_dist (session_run (serve_all ms))))
     \<and> connections_len c = card (dom (get_connection c))
     \<and> delivered_data effs = map snd (queued_data ms))"
proof -
  have r: "receive (drain deser) chunks = (s_frames (session_run (serve_all ms)), Incomplete, [])"
    using wire.receive_frames[OF assms(3,4)] .
  with assms(5) tunnel_agrees[OF assms(1,2), of "Some True" inputs cfg] show ?thesis
    by (auto simp: agrees_def counted_def)
qed

definition frame_input :: "socket_packet \<Rightarrow> client_input" where
  "frame_input f = \<lparr>in_event = FromProxy (Frame f), in_fresh = 8, in_alive = True, in_now = 0,
     in_writer_ok = True\<rparr>"

lemma receives_frame_input: "receives frames (map frame_input frames)"
  by (simp add: receives_def frame_input_def list_all2_map2 list.rel_refl)

definition one_player :: "client_to_proxy list" where
  "one_player = [AddMinecraftClient 4 5, Packet 0 [1, 2]]"

lemma insert_default: "distributor_insert distributor_default tx = Inr (0, put_id distributor_default 0 tx)"
  by (rule insert_free_0) simp_all

lemma one_player_run:
  "session_run (serve_all one_player) = \<lparr>s_dist = put_id distributor_default 0 5, s_queue = [],
     s_frames = [ProxyJoin 0, ProxyData \<lparr>data_client_id = 0, data_bytes = [1, 2]\<rparr>],
     s_ids = [(4, 0)], s_delivered = [], s_running = True\<rparr>"
  by (simp add: one_player_def serve_all_def session_run_def session_step_def session_new_def
      handle_writer_def writer_response_def insert_default proxy_data_packet_new_def)

lemma one_player_live: "sends_live one_player"
proof -
  have "get_by_id (s_dist (session_run (serve_all [AddMinecraftClient 4 5]))) 0 \<noteq> None"
    by (simp add: serve_all_def session_run_def session_step_def session_new_def
        handle_writer_def writer_response_def insert_default dist.look_put MAXIMUM_CLIENTS_def)
  then show ?thesis by (auto simp: sends_live_def one_player_def Cons_eq_append_conv)
qed

definition one_player_stream :: bytes where
  "one_player_stream = concat (map (frame sample_ser) (s_frames (session_run (serve_all one_player))))"

lemma one_player_received:
  "receive (drain sample_deser) [take 5 one_player_stream, drop 5 one_player_stream]
     = (s_frames (session_run (serve_all one_player)), Incomplete, [])"
  "list_all (sendable sample_ser sample_deser) (s_frames (session_run (serve_all one_player)))"
proof -
  show s: "list_all (sendable sample_ser sample_deser) (s_frames (session_run (serve_all one_player)))"
    by (simp add: one_player_run) (simp add: sendable_def)
  show "receive (drain sample_deser) [take 5 one_player_stream, drop 5 one_player_stream]
     = (s_frames (session_run (serve_all one_player)), Incomplete, [])"
    by (rule wire.receive_frames[OF s]) (simp add: one_player_stream_def)
qed

theorem tunnel_in_step_witness:
  "snd (receive (drain sample_deser) [take 5 one_player_stream, drop 5 one_player_stream])
       = (Incomplete, [])
   \<and> (\<exists>c effs. client_run (client_new sample_server (Some True))
       (map frame_input [ProxyJoin 0, ProxyData \<lparr>data_client_id = 0, data_bytes = [1, 2]\<rparr>])
       = (c, effs, None)
     \<and> dom (get_connection c) = dom (get_by_id (s_dist (session_run (serve_all one_player))))
     \<and> connections_len c = card (dom (get_connection c))
     \<and> delivered_data effs = map snd (queued_data one_player))"
proof (rule tunnel_in_step[OF _ one_player_live one_player_received(2)])
  show "s_running (session_run (serve_all one_player))" by (simp only: one_player_run session.simps)
  show "concat [take 5 one_player_stream, drop 5 one_player_stream]
      = concat (map (frame sample_ser) (s_frames (session_run (serve_all one_player))))"
    by (simp add: one_player_stream_def)
  show "receives (fst (receive (drain sample_deser)
        [take 5 one_player_stream, drop 5 one_player_stream]))
      (map frame_input [ProxyJoin 0, ProxyData \<lparr>data_client_id = 0, data_bytes = [1, 2]\<rparr>])"
    by (simp only: one_player_received(1) one_player_run session.simps fst_conv receives_frame_input)
qed

text \<open>
  C30. One leaving player can end the session of all. The local server closes the connection of
  player 0, so the client drops id 0 and sends a disconnect; before it arrives, the proxy forwards
  one more packet of that player, as it must. The client does not know the id any more, and its
  reader returns the error \<^verbatim>\<open>ClientNotFound\<close>, which ends the whole tunnel.
\<close>

theorem late_data_ends_session:
  "s_frames (session_run (serve_all one_player))
     = [ProxyJoin 0, ProxyData \<lparr>data_client_id = 0, data_bytes = [1, 2]\<rparr>]
   \<and> writer_handler (LocalRemove 0) True True = (([0], [ProxyDisconnect 0]), None)
   \<and> snd (snd (client_run (client_new cfg None)
        [frame_input (ProxyJoin 0),
         \<lparr>in_event = FromWriter (Some 0), in_fresh = 0, in_alive = True, in_now = 0, in_writer_ok = True\<rparr>,
         frame_input (ProxyData \<lparr>data_client_id = 0, data_bytes = [1, 2]\<rparr>)]))
     = Some (Bail ClientUnknown)"
proof -
  let ?c1 = "put_connection (client_new cfg None) 0 8"
  let ?c2 = "clear_connection ?c1 0"
  have z: "0 < MAXIMUM_CLIENTS" by (simp add: MAXIMUM_CLIENTS_def)
  have wf: "wf_client ?c1" "wf_client ?c2" by (simp_all add: table_simps)
  have st: "stats_rx ?c1 = None" "stats_rx ?c2 = None" by (simp_all add: client_new_def)
  have j: "add_connection (client_new cfg None) 0 8 = Inr (?c1, [])"
    using z st(1) by (simp add: add_connection_def notify_def put_connection_def client_new_def)
  have g: "get_connection ?c1 0 = Some 8" by (simp add: table_simps z)
  then have r: "remove_connection ?c1 0 = Inr (?c2, [])"
    using st(2) by (auto simp: remove_connection_def notify_def clear_connection_def
        get_connection_def split: if_splits)
  have "get_connection ?c2 0 = None" by (simp add: table_simps)
  then show ?thesis
    by (simp add: one_player_run writer_handler_def frame_input_def reader_handler_def j r send_to_def)
qed

subsection \<open>A first packet that does not fit a frame\<close>

lemma from_utf16_replicate: "from_utf16 (replicate k 0x50) = Some (replicate k 0x50)"
proof -
  have "decode_utf16 (replicate k 0x50) = Some (replicate k 0x50)"
    by (induction k) (simp_all add: Let_def)
  then show ?thesis by (simp add: from_utf16_def utf8_encode_def utf8_char_def map_replicate_const
        concat_replicate_trivial)
qed

text \<open>
  C29. A stranger can crash the client of any host name he knows. The legacy login has room for a user
  name of 65535 characters, and the proxy forwards the first packet in one frame. With a user name
  of the right length the frame is 32768 bytes long, announces the length 0, and the decoder of
  the CraftIP client panics, whatever comes next.
\<close>

theorem oversized_hello_crashes_client:
  assumes "from_utf16 units = Some host" "length units \<le> 16378"
  shows "\<exists>user packet. hello_new (legacy_connect version user units prt) = Parsed packet
     \<and> hostname_hello packet = host
     \<and> fst (decode_from deser (frame ser (ProxyData (proxy_data_packet_new
            (legacy_connect version user units prt) i)) @ rest)) = Panicked"
proof -
  let ?user = "replicate (16378 - length units) 0x50"
  let ?hello = "legacy_connect version ?user units prt"
  have "length ?hello = 32766" using assms(2) by (simp add: legacy_connect_def)
  then have "fst (decode_from deser (frame ser (ProxyData (proxy_data_packet_new ?hello i)) @ rest))
      = Panicked"
    using data_frame_panics[of "proxy_data_packet_new ?hello i" deser ser rest]
    by (simp add: proxy_data_packet_new_def)
  moreover have "hello_new ?hello = Parsed \<lparr>length_hello = length ?hello, pkg_type = Legacy,
      id_hello = 0, version_hello = ucast version, hostname_hello = host, forge = False, port = prt\<rparr>"
    using legacy_connect_read[OF from_utf16_replicate assms(1), of "16378 - length units" version prt "[]"]
      assms(2) by simp
  ultimately show ?thesis by (intro exI conjI) auto
qed

theorem oversized_hello_crashes_client_witness:
  "\<exists>user packet. hello_new (legacy_connect 73 user [0x61] 25565) = Parsed packet
     \<and> hostname_hello packet = [0x61]
     \<and> fst (decode_from sample_deser (frame sample_ser (ProxyData (proxy_data_packet_new
            (legacy_connect 73 user [0x61] 25565) 0)) @ [])) = Panicked"
  by (rule oversized_hello_crashes_client)
    (simp_all add: from_utf16_def Let_def utf8_encode_def utf8_char_def)

end
