(* ===== verification/Connection_Handler.thy ===== *)
theory Connection_Handler
  imports Client Client_Handler
begin

text \<open>
  One local connection of the CraftIP client: \<^verbatim>\<open>crates/client/src/connection_handler.rs\<close>, and the
  task that \<^verbatim>\<open>reader_handler\<close> spawns around it. It moves bytes between the tunnel and the local
  Minecraft server.
\<close>

subsection \<open>The task\<close>

record client_connection =
  cc_mc_server :: str
  cc_client_id :: client_id
  cc_need_for_close :: bool

definition client_connection_new :: "str \<Rightarrow> client_id \<Rightarrow> client_connection" where
  "client_connection_new mc_server i =
     \<lparr>cc_mc_server = mc_server, cc_client_id = i, cc_need_for_close = True\<rparr>"

text \<open>
  What \<^verbatim>\<open>select!\<close> meets: a packet of the tunnel (\<open>None\<close> when the reader dropped the channel) with the
  success of writing it, or a read from the local server with the success of passing it on.
\<close>

datatype local_event =
    FromTunnel "minecraft_data_packet option" bool
  | FromLocal read_result bool

text \<open>
  The loop of \<^verbatim>\<open>handle_client\<close>: what was written to the local server, what was sent to the writer,
  the flag \<^verbatim>\<open>need_for_close\<close> after it, and whether the loop has ended.
\<close>

fun handle_client_loop ::
  "client_connection \<Rightarrow> local_event list \<Rightarrow> bytes \<times> local_to_proxy list \<times> client_connection \<times> bool" where
  "handle_client_loop cc [] = ([], [], cc, False)"
| "handle_client_loop cc (FromTunnel None ok # evs) = ([], [], cc\<lparr>cc_need_for_close := False\<rparr>, True)"
| "handle_client_loop cc (FromTunnel (Some packet) ok # evs) =
     (if \<not> ok then ([], [], cc\<lparr>cc_need_for_close := True\<rparr>, True)
      else (case handle_client_loop cc evs of (out, msgs, cc', fin) \<Rightarrow> (packet @ out, msgs, cc', fin)))"
| "handle_client_loop cc (FromLocal ReadErr ok # evs) = ([], [], cc\<lparr>cc_need_for_close := True\<rparr>, True)"
| "handle_client_loop cc (FromLocal (ReadOk chunk) ok # evs) =
     (if chunk = [] then ([], [], cc\<lparr>cc_need_for_close := True\<rparr>, True)
      else if \<not> ok then ([], [], cc\<lparr>cc_need_for_close := True\<rparr>, True)
      else (case handle_client_loop cc evs of (out, msgs, cc', fin) \<Rightarrow>
              (out, LocalPacket (cc_client_id cc) chunk # msgs, cc', fin)))"

text \<open>
  \<^verbatim>\<open>handle_client\<close>: an error before the loop is returned; the loop itself returns \<^verbatim>\<open>Ok\<close>. \<open>nodelay\<close>
  is the text of the error of \<^verbatim>\<open>set_nodelay\<close>, if it fails.
\<close>

definition handle_client ::
  "client_connection \<Rightarrow> bool \<Rightarrow> str option \<Rightarrow> local_event list
     \<Rightarrow> (str + unit) \<times> bytes \<times> local_to_proxy list \<times> client_connection \<times> bool" where
  "handle_client cc connect_ok nodelay evs =
    (if \<not> connect_ok
     then (Inl (str_lit ''could not connect to '' @ cc_mc_server cc), [], [], cc, True)
     else (case nodelay of
         Some e \<Rightarrow> (Inl e, [], [], cc, True)
       | None \<Rightarrow> (Inr (), handle_client_loop cc evs)))"

definition set_death :: "str \<Rightarrow> local_to_proxy list" where
  "set_death error = [LocalDeath error]"

definition drop_connection :: "client_connection \<Rightarrow> local_to_proxy list" where
  "drop_connection cc = (if cc_need_for_close cc then [LocalRemove (cc_client_id cc)] else [])"

text \<open>
  The spawned task: an error of \<^verbatim>\<open>handle_client\<close> is reported as a death, and when the task has
  ended the connection is dropped. The result is what was written and all messages sent.
\<close>

definition connection_task ::
  "client_connection \<Rightarrow> bool \<Rightarrow> str option \<Rightarrow> local_event list \<Rightarrow> bytes \<times> local_to_proxy list" where
  "connection_task cc connect_ok nodelay evs =
    (case handle_client cc connect_ok nodelay evs of (res, out, msgs, cc', fin) \<Rightarrow>
       (out, msgs @ (case res of Inl e \<Rightarrow> set_death e | Inr u \<Rightarrow> [])
                  @ (if fin then drop_connection cc' else [])))"

subsection \<open>Properties\<close>

definition tunnel_data :: "local_event list \<Rightarrow> minecraft_data_packet list" where
  "tunnel_data evs = concat (map (\<lambda>e. case e of FromTunnel (Some p) ok \<Rightarrow> [p] | _ \<Rightarrow> []) evs)"

definition local_data :: "local_event list \<Rightarrow> bytes list" where
  "local_data evs = concat (map (\<lambda>e. case e of FromLocal (ReadOk c) ok \<Rightarrow> [c] | _ \<Rightarrow> []) evs)"

text \<open>The events the loop takes before the one that ends it, all of which succeed.\<close>

definition goes_on :: "local_event \<Rightarrow> bool" where
  "goes_on e = (case e of
     FromTunnel p ok \<Rightarrow> p \<noteq> None \<and> ok
   | FromLocal r ok \<Rightarrow> (case r of ReadErr \<Rightarrow> False | ReadOk c \<Rightarrow> c \<noteq> [] \<and> ok))"

lemma handle_client_loop_spec:
  "handle_client_loop cc evs =
     (let done = takeWhile goes_on evs; rest = dropWhile goes_on evs in
      (concat (tunnel_data done), map (LocalPacket (cc_client_id cc)) (local_data done),
       (case rest of [] \<Rightarrow> cc
        | e # es \<Rightarrow> cc\<lparr>cc_need_for_close := \<not> (\<exists>ok. e = FromTunnel None ok)\<rparr>), rest \<noteq> []))"
  by (induction cc evs rule: handle_client_loop.induct)
    (auto simp: goes_on_def tunnel_data_def local_data_def Let_def split: prod.splits)

text \<open>
  C37. A local connection is transparent. With a connection to the local server, the bytes written to
  it are those of the tunnel, the packets sent to the tunnel are the bytes read from it, both
  in order and up to the event that ends the loop; then the removal of the id is sent once, unless
  the tunnel itself dropped the connection. Without one, the task reports a death before the
  removal, and the writer of the session stops at it, so the tunnel ends for all players.
\<close>

theorem connection_task_spec:
  "connection_task (client_connection_new mc i) True None evs =
     (concat (tunnel_data (takeWhile goes_on evs)),
      map (LocalPacket i) (local_data (takeWhile goes_on evs)) @
      (case dropWhile goes_on evs of
         [] \<Rightarrow> []
       | FromTunnel None ok # es \<Rightarrow> []
       | _ \<Rightarrow> [LocalRemove i]))
   \<and> (\<exists>e. connection_task (client_connection_new mc i) False nodelay evs
            = ([], [LocalDeath e, LocalRemove i])
        \<and> writer_handler (LocalDeath e) True True = (([], []), Some Exit))"
proof
  let ?cc = "client_connection_new mc i"
  have id: "cc_client_id ?cc = i" "cc_need_for_close ?cc" by (simp_all add: client_connection_new_def)
  show "connection_task ?cc True None evs =
     (concat (tunnel_data (takeWhile goes_on evs)),
      map (LocalPacket i) (local_data (takeWhile goes_on evs)) @
      (case dropWhile goes_on evs of
         [] \<Rightarrow> []
       | FromTunnel None ok # es \<Rightarrow> []
       | _ \<Rightarrow> [LocalRemove i]))"
  proof -
    define r where "r = dropWhile goes_on evs"
    show ?thesis
      unfolding connection_task_def handle_client_def handle_client_loop_spec Let_def
        r_def[symmetric]
      by (cases r) (auto simp: id drop_connection_def split: local_event.splits option.splits)
  qed
  show "\<exists>e. connection_task ?cc False nodelay evs = ([], [LocalDeath e, LocalRemove i])
      \<and> writer_handler (LocalDeath e) True True = (([], []), Some Exit)"
    by (auto simp: connection_task_def handle_client_def set_death_def drop_connection_def id
        writer_handler_def Let_def)
qed

end
