(* ===== verification/Return_Path.thy ===== *)
theory Return_Path
  imports Tunnel Connection_Handler
begin

text \<open>
  The way of a reply, through all the tasks that carry it: a local connection reads it from the
  Minecraft server (\<^verbatim>\<open>connection_handler.rs\<close>), the writer of the CraftIP client frames it
  (\<^verbatim>\<open>Client::writer_handler\<close>), TCP carries the frames in any chunks, the reader of the proxy decodes
  them and looks up the player (\<^verbatim>\<open>ProxyClient::handle_reader\<close>), whose task writes the bytes to the
  socket (\<^verbatim>\<open>MCClient::client_writer\<close>).
\<close>

subsection \<open>The writer task of the client\<close>

text \<open>
  \<^verbatim>\<open>writer_handler\<close> as a loop: it takes the next message, a flush before waiting may fail, and the
  channel may be closed. The result has the ids told to the reader, the frames, and how it stopped.
\<close>

datatype writer_input =
    NextMessage local_to_proxy bool bool
  | WriterFlushFailed
  | WriterChannelClosed

fun writer_run :: "writer_input list \<Rightarrow> client_id list \<times> socket_packet list \<times> stop option" where
  "writer_run [] = ([], [], None)"
| "writer_run (NextMessage pkg reader_ok feed_ok # rest) =
     (case writer_handler pkg reader_ok feed_ok of
        ((ids, frames), Some st) \<Rightarrow> (ids, frames, Some st)
      | ((ids, frames), None) \<Rightarrow>
          (case writer_run rest of (ids', frames', st) \<Rightarrow> (ids @ ids', frames @ frames', st)))"
| "writer_run (WriterFlushFailed # rest) = ([], [], Some Exit)"
| "writer_run (WriterChannelClosed # rest) = ([], [], Some Exit)"

definition taken :: "local_to_proxy list \<Rightarrow> writer_input list" where
  "taken ms = map (\<lambda>m. NextMessage m True True) ms"

text \<open>The packets of one connection among the messages of all.\<close>

definition own_packets :: "client_id \<Rightarrow> local_to_proxy list \<Rightarrow> minecraft_data_packet list" where
  "own_packets i ms = concat (map (\<lambda>m. case m of LocalPacket j d \<Rightarrow> if j = i then [d] else [] | _ \<Rightarrow> []) ms)"

definition frames_for :: "client_id \<Rightarrow> socket_packet list \<Rightarrow> minecraft_data_packet list" where
  "frames_for i fs = map snd (filter (\<lambda>p. fst p = i) (data_frames fs))"

lemma frames_for_simps [simp]:
  "frames_for i [] = []" "frames_for i (fs @ gs) = frames_for i fs @ frames_for i gs"
  by (simp_all add: frames_for_def)

lemma own_packets_simps [simp]:
  "own_packets i [] = []" "own_packets i (ms @ ns) = own_packets i ms @ own_packets i ns"
  "own_packets i (map (LocalPacket i) ds) = ds"
  by (induction ds) (simp_all add: own_packets_def)

lemma own_packets_Cons: "own_packets i (m # ms) = own_packets i [m] @ own_packets i ms"
  using own_packets_simps(2)[of i "[m]" ms] by simp

lemma writer_run_frames:
  "writer_run (taken ms) = (ids, frames, None) \<Longrightarrow> LocalRemove i \<notin> set ms
     \<Longrightarrow> frames_for i frames = own_packets i ms \<and> ProxyDisconnect i \<notin> set frames"
proof (induction ms arbitrary: ids frames)
  case (Cons m ms)
  obtain ids1 frames1 where w: "writer_handler m True True = ((ids1, frames1), None)"
    using Cons.prems(1) by (cases m) (auto simp: taken_def writer_handler_def Let_def)
  obtain ids2 frames2 where r: "writer_run (taken ms) = (ids2, frames2, None)" "frames = frames1 @ frames2"
    using Cons.prems(1) w by (auto simp: taken_def split: prod.splits)
  have "frames_for i frames1 = own_packets i [m] \<and> ProxyDisconnect i \<notin> set frames1"
    using w Cons.prems(2)
    by (cases m) (auto simp: writer_handler_def Let_def frames_for_def data_frames_def own_packets_def
        proxy_data_packet_new_def)
  with Cons.IH[OF r(1)] Cons.prems(2) r(2) show ?case by (simp add: own_packets_Cons[of i m ms])
qed (simp add: taken_def)

lemma local_packets_sent:
  "own_packets i (snd (connection_task (client_connection_new mc i) True None reads))
     = local_data (takeWhile goes_on reads)"
proof -
  have "own_packets i (drop_connection cc) = []" for cc
    by (simp add: drop_connection_def own_packets_def)
  then show ?thesis
    by (simp add: connection_task_def handle_client_def handle_client_loop_spec Let_def client_connection_new_def)
qed

subsection \<open>The reader task of the proxy\<close>

definition reader_frames :: "session_event list \<Rightarrow> socket_packet list" where
  "reader_frames evs = concat (map (\<lambda>ev. case ev of ReaderTurn (Incoming (Frame f)) \<Rightarrow> [f] | _ \<Rightarrow> []) evs)"

lemma reader_frames_simps [simp]:
  "reader_frames [] = []" "reader_frames (evs @ evs') = reader_frames evs @ reader_frames evs'"
  by (simp_all add: reader_frames_def)

definition to_channel :: "channel \<Rightarrow> (channel \<times> minecraft_data_packet) list \<Rightarrow> minecraft_data_packet list" where
  "to_channel tx ds = map snd (filter (\<lambda>p. fst p = tx) ds)"

text \<open>The id \<open>i\<close>, and no other, stands for the channel \<open>tx\<close>.\<close>

definition names :: "distributor \<Rightarrow> client_id \<Rightarrow> channel \<Rightarrow> bool" where
  "names d i tx \<longleftrightarrow> wf_distributor d \<and> get_by_id d i = Some tx
     \<and> (\<forall>j. get_by_id d j = Some tx \<longrightarrow> j = i)"

lemma names_get: "names d i tx \<Longrightarrow> get_by_id d j = Some tx \<longleftrightarrow> j = i"
  by (auto simp: names_def)

lemma names_wf: "names d i tx \<Longrightarrow> wf_distributor d"
  by (simp add: names_def)

lemma names_remove: "names d i tx \<Longrightarrow> k \<noteq> i \<Longrightarrow> names (snd (remove_by_id d k)) i tx"
  using dist.look_clear[of d k] dist.wf_clear[of d k] by (auto simp: names_def)

lemma names_insert:
  assumes "names d i tx" "distributor_insert d ch = Inr (k, d')" "ch \<noteq> tx"
  shows "names d' i tx"
proof -
  note h = insert_Inr[OF names_wf[OF assms(1)] assms(2)]
  have "k \<noteq> i" using h(2) names_get[OF assms(1), of i] by auto
  with h(5,6) assms(1,3) show ?thesis by (auto simp: names_def split: if_splits)
qed

lemma names_writer:
  assumes "names d i tx" "m \<noteq> RemoveMinecraftClient i" "\<And>o1. m \<noteq> AddMinecraftClient o1 tx"
    and w: "handle_writer d m id_ok feed_ok = (d', reply, frames, go)"
  shows "names d' i tx"
proof (cases m)
  case (AddMinecraftClient o1 ch)
  then have "ch \<noteq> tx" using assms(3) by blast
  show ?thesis
  proof (cases "distributor_insert d ch")
    case (Inl e)
    with w assms(1) show ?thesis by (simp add: AddMinecraftClient handle_writer_def writer_response_def)
  next
    case (Inr p)
    obtain k d1 where p: "p = (k, d1)" by (cases p)
    have "d' = d1" using w
      by (auto simp: AddMinecraftClient handle_writer_def writer_response_def Inr p split: if_splits)
    with names_insert[OF assms(1) Inr[unfolded p] \<open>ch \<noteq> tx\<close>] show ?thesis by simp
  qed
next
  case (RemoveMinecraftClient k)
  then have "d' = snd (remove_by_id d k)"
    using w by (auto simp: handle_writer_def writer_response_def split: prod.splits if_splits)
  with names_remove[OF assms(1)] RemoveMinecraftClient assms(2) show ?thesis by blast
qed (use w assms(1) in \<open>auto simp: handle_writer_def writer_response_def split: if_splits\<close>)

lemma names_reader:
  assumes "names d i tx" "rd \<noteq> Incoming (Frame (ProxyDisconnect i))" "handle_reader d rd = (d', effs, go)"
  shows "names d' i tx"
proof (cases rule: handle_reader_cases[of rd d])
  case (1 k)
  then have "k \<noteq> i" using assms(2) by blast
  with names_remove[OF assms(1)] 1(2) assms(3) show ?thesis by simp
qed (use assms(1,3) in simp_all)

subsection \<open>What the reader delivers\<close>

definition data_sent :: "reader_effect list \<Rightarrow> (channel \<times> minecraft_data_packet) list" where
  "data_sent effs = concat (map (\<lambda>e. case e of SendToMinecraft tx d \<Rightarrow> [(tx, d)] | _ \<Rightarrow> []) effs)"

definition told_writer :: "reader_effect list \<Rightarrow> client_to_proxy list" where
  "told_writer effs = concat (map (\<lambda>e. case e of SendToWriter m \<Rightarrow> [m] | _ \<Rightarrow> []) effs)"

lemma fold_effects:
  "s_delivered (fold apply_effect effs s) = s_delivered s @ data_sent effs"
  "s_queue (fold apply_effect effs s) = s_queue s @ told_writer effs"
  by (induction effs arbitrary: s)
    (auto simp: apply_effect_def data_sent_def told_writer_def split: reader_effect.splits)

lemma reader_frames_turn:
  "frames_for i (reader_frames [ReaderTurn rd]) = (case rd of
     Incoming (Frame (ProxyData p)) \<Rightarrow> if data_client_id p = i then [data_bytes p] else [] | _ \<Rightarrow> [])"
  by (auto simp: reader_frames_def frames_for_def data_frames_def split: read_event.splits
      frame_event.splits socket_packet.splits)

lemma reader_delivers:
  assumes "names d i tx" "handle_reader d rd = (d', effs, go)"
  shows "to_channel tx (data_sent effs) = frames_for i (reader_frames [ReaderTurn rd])"
    and "set (told_writer effs) \<subseteq> range AnswerPingPacket"
proof -
  have "to_channel tx (data_sent effs) = frames_for i (reader_frames [ReaderTurn rd])
    \<and> set (told_writer effs) \<subseteq> range AnswerPingPacket"
  proof (cases rule: handle_reader_cases[of rd d])
    case (2 packet tx')
    have "tx' = tx \<longleftrightarrow> data_client_id packet = i"
      using 2(2) names_get[OF assms(1), of "data_client_id packet"] by simp
    moreover have "effs = [SendToMinecraft tx' (data_bytes packet)]" using 2(3) assms(2) by simp
    ultimately show ?thesis
      by (simp add: 2(1) reader_frames_turn to_channel_def data_sent_def told_writer_def)
  next
    case (4 go')
    then have e: "effs = []" using assms(2) by simp
    have "data_client_id p \<noteq> i" if "rd = Incoming (Frame (ProxyData p))" for p
    proof
      assume "data_client_id p = i"
      then have "get_by_id d (data_client_id p) = Some tx" using names_get[OF assms(1)] by simp
      with 4 that show False by (simp add: handle_reader_def)
    qed
    then show ?thesis
      by (auto simp: e reader_frames_turn to_channel_def data_sent_def told_writer_def
          split: read_event.splits frame_event.splits socket_packet.splits)
  qed (use assms(2) in \<open>auto simp: reader_frames_turn to_channel_def data_sent_def told_writer_def\<close>)
  then show "to_channel tx (data_sent effs) = frames_for i (reader_frames [ReaderTurn rd])"
    "set (told_writer effs) \<subseteq> range AnswerPingPacket" by blast+
qed

text \<open>The player with channel \<open>tx\<close> is served under the id \<open>i\<close>, and nothing that waits changes that.\<close>

definition served_as :: "client_id \<Rightarrow> channel \<Rightarrow> session \<Rightarrow> bool" where
  "served_as i tx s \<longleftrightarrow> names (s_dist s) i tx
     \<and> RemoveMinecraftClient i \<notin> set (s_queue s) \<and> (\<forall>o1. AddMinecraftClient o1 tx \<notin> set (s_queue s))"

definition leaves_alone :: "client_id \<Rightarrow> channel \<Rightarrow> session_event \<Rightarrow> bool" where
  "leaves_alone i tx ev \<longleftrightarrow> ev \<noteq> Enqueue (RemoveMinecraftClient i) \<and> (\<forall>o1. ev \<noteq> Enqueue (AddMinecraftClient o1 tx))
     \<and> ev \<noteq> ReaderTurn (Incoming (Frame (ProxyDisconnect i)))"

definition delivers :: "channel \<Rightarrow> session \<Rightarrow> session \<Rightarrow> minecraft_data_packet list \<Rightarrow> bool" where
  "delivers tx s s' ds \<longleftrightarrow> (\<exists>new. s_delivered s' = s_delivered s @ new \<and> to_channel tx new = ds)"

lemma delivers_refl: "s_delivered s' = s_delivered s \<Longrightarrow> delivers tx s s' []"
  by (simp add: delivers_def to_channel_def)

lemma delivers_trans: "delivers tx s1 s2 ds \<Longrightarrow> delivers tx s2 s3 es \<Longrightarrow> delivers tx s1 s3 (ds @ es)"
  by (auto simp: delivers_def to_channel_def)

lemma served_step:
  assumes "served_as i tx s" "leaves_alone i tx ev" "s_running (session_step ev s)"
  shows "served_as i tx (session_step ev s) \<and> delivers tx s (session_step ev s) (frames_for i (reader_frames [ev]))"
proof -
  have run: "s_running s" using assms(3) by (cases "s_running s") (simp_all add: session_step_stopped)
  have d: "names (s_dist s) i tx" and q: "RemoveMinecraftClient i \<notin> set (s_queue s)"
    "AddMinecraftClient o1 tx \<notin> set (s_queue s)" for o1
    using assms(1) by (simp_all add: served_as_def)
  show ?thesis
  proof (cases ev)
    case (Enqueue m)
    then show ?thesis
      using assms(1,2) run
      by (auto simp: session_step_def served_as_def leaves_alone_def reader_frames_def intro!: delivers_refl)
  next
    case (ReaderTurn rd)
    obtain d' effs go where h: "handle_reader (s_dist s) rd = (d', effs, go)" by (metis prod_cases3)
    have s': "session_step ev s = (fold apply_effect effs s)\<lparr>s_dist := d', s_running := go\<rparr>"
      using run h by (simp add: session_step_def ReaderTurn)
    have "rd \<noteq> Incoming (Frame (ProxyDisconnect i))" using assms(2) ReaderTurn by (auto simp: leaves_alone_def)
    note d' = names_reader[OF d this h]
    note eff = reader_delivers[OF d h]
    have "served_as i tx (session_step ev s)"
      using d' q eff(2) by (auto simp: s' fold_effects served_as_def)
    moreover have "delivers tx s (session_step ev s) (frames_for i (reader_frames [ev]))"
      unfolding delivers_def s' using eff(1) by (simp add: fold_effects ReaderTurn)
    ultimately show ?thesis ..
  next
    case (WriterTurn id_ok feed_ok)
    have r: "reader_frames [ev] = []" by (simp add: WriterTurn reader_frames_def)
    show ?thesis
    proof (cases "s_queue s")
      case Nil
      then show ?thesis using assms(1) run r by (simp add: WriterTurn session_step_def delivers_refl)
    next
      case (Cons m ms)
      obtain d' reply frames go where w: "handle_writer (s_dist s) m id_ok feed_ok = (d', reply, frames, go)"
        by (metis prod_cases4)
      have "names d' i tx" using q Cons by (intro names_writer[OF d _ _ w]) auto
      then show ?thesis
        using q Cons run w r
        by (simp add: WriterTurn session_step_def served_as_def delivers_refl)
    qed
  next
    case FlushFailed
    with assms(3) show ?thesis by (simp add: session_step_def run)
  qed
qed

lemma served_run:
  "served_as i tx (session_run evs0) \<Longrightarrow> list_all (leaves_alone i tx) evs
     \<Longrightarrow> s_running (session_run (evs0 @ evs))
     \<Longrightarrow> served_as i tx (session_run (evs0 @ evs))
       \<and> delivers tx (session_run evs0) (session_run (evs0 @ evs)) (frames_for i (reader_frames evs))"
proof (induction evs rule: rev_induct)
  case Nil
  then show ?case by (simp add: delivers_refl)
next
  case (snoc ev evs)
  let ?s = "session_run (evs0 @ evs)"
  have step: "session_run (evs0 @ evs @ [ev]) = session_step ev ?s"
    by (simp flip: append_assoc)
  have "s_running ?s"
    using snoc.prems(3) unfolding step by (cases "s_running ?s") (simp_all add: session_step_stopped)
  then have IH: "served_as i tx ?s" "delivers tx (session_run evs0) ?s (frames_for i (reader_frames evs))"
    using snoc.IH snoc.prems(1,2) by simp_all
  have "served_as i tx (session_step ev ?s) \<and> delivers tx ?s (session_step ev ?s) (frames_for i (reader_frames [ev]))"
    using served_step[OF IH(1)] snoc.prems(2,3) unfolding step by simp
  with delivers_trans[OF IH(2)] show ?case unfolding step by simp
qed

subsection \<open>The whole way\<close>

lemma client_writer_all: "client_writer (map (\<lambda>d. (d, True)) ds) = (concat ds, True)"
  by (induction ds) simp_all

text \<open>
  C9. A reply reaches its player, byte for byte. While player \<open>tx\<close> is served under the id \<open>i\<close>, the
  bytes that the local connection \<open>i\<close> reads from the Minecraft server are the bytes written to the
  socket of that player, in order and without a byte of anyone else, whatever the other
  connections and players do, however the messages of all connections interleave at the writer of
  the client and the events of the session at the proxy, and however TCP cuts the frames.
\<close>

theorem replies_reach_player:
  assumes "served_as i tx (session_run evs0)" and "list_all (leaves_alone i tx) evs"
    and "s_running (session_run (evs0 @ evs))"
    and "writer_run (taken ms) = (ids, frames, None)" and "LocalRemove i \<notin> set ms"
    and "own_packets i ms = own_packets i (snd (connection_task (client_connection_new mc i) True None reads))"
    and "list_all (sendable ser deser) frames" and "concat chunks = concat (map (frame ser) frames)"
    and "reader_frames evs = fst (receive (drain deser) chunks)"
  shows "\<exists>new. s_delivered (session_run (evs0 @ evs)) = s_delivered (session_run evs0) @ new
    \<and> client_writer (map (\<lambda>d. (d, True)) (to_channel tx new))
        = (concat (local_data (takeWhile goes_on reads)), True)"
proof -
  have "reader_frames evs = frames" using assms(9) wire.receive_frames[OF assms(7,8)] by simp
  moreover have "frames_for i frames = own_packets i ms" using writer_run_frames[OF assms(4,5)] by simp
  moreover have "own_packets i (snd (connection_task (client_connection_new mc i) True None reads))
      = local_data (takeWhile goes_on reads)"
    by (rule local_packets_sent)
  ultimately show ?thesis
    using served_run[OF assms(1-3)] assms(6) by (auto simp: delivers_def client_writer_all)
qed

text \<open>A reply in two reads, with a ping of the client in between.\<close>

definition join_events :: "session_event list" where
  "join_events = [Enqueue (AddMinecraftClient 4 5), WriterTurn True True]"

definition reply_reads :: "local_event list" where
  "reply_reads = [FromLocal (ReadOk [3, 4]) True, FromLocal (ReadOk [5]) True]"

definition reply_frames :: "socket_packet list" where
  "reply_frames = [ProxyData \<lparr>data_client_id = 0, data_bytes = [3, 4]\<rparr>, ProxyPing 7,
     ProxyData \<lparr>data_client_id = 0, data_bytes = [5]\<rparr>]"

definition reply_events :: "session_event list" where
  "reply_events = map (\<lambda>f. ReaderTurn (Incoming (Frame f))) reply_frames"

definition reply_stream :: bytes where
  "reply_stream = concat (map (frame sample_ser) reply_frames)"

lemma join_run: "session_run join_events = \<lparr>s_dist = put_id distributor_default 0 5, s_queue = [],
     s_frames = [ProxyJoin 0], s_ids = [(4, 0)], s_delivered = [], s_running = True\<rparr>"
  by (simp add: join_events_def session_run_def session_step_def session_new_def
      handle_writer_def writer_response_def insert_default)

lemma join_names: "names (put_id distributor_default 0 5) 0 5"
  using dist.look_put[of distributor_default 0 5] dist.wf_put[of distributor_default 0 5]
  by (auto simp: names_def MAXIMUM_CLIENTS_def split: if_splits)

lemma reply_run: "s_delivered (session_run (join_events @ reply_events)) = [(5, [3, 4]), (5, [5])]
    \<and> s_running (session_run (join_events @ reply_events))"
proof -
  have "get_by_id (put_id distributor_default 0 5) 0 = Some 5"
    using names_get[OF join_names] by simp
  moreover have "session_run (join_events @ evs) = fold session_step evs (session_run join_events)" for evs
    by (simp add: session_run_def)
  ultimately show ?thesis
    by (simp add: join_run reply_events_def reply_frames_def session_step_def handle_reader_def apply_effect_def)
qed

theorem replies_reach_player_witness:
  "client_writer [([3, 4], True), ([5], True)] = (concat (local_data (takeWhile goes_on reply_reads)), True)"
proof -
  have served: "served_as 0 5 (session_run join_events)" using join_names by (simp add: join_run served_as_def)
  have quiet: "list_all (leaves_alone 0 5) reply_events"
    by (simp add: reply_events_def reply_frames_def leaves_alone_def)
  have run: "writer_run (taken [LocalPacket 0 [3, 4], LocalPing 7, LocalPacket 0 [5]]) = ([], reply_frames, None)"
    by (simp add: taken_def writer_handler_def Let_def reply_frames_def proxy_data_packet_new_def)
  have own: "own_packets 0 [LocalPacket 0 [3, 4], LocalPing 7, LocalPacket 0 [5]]
      = own_packets 0 (snd (connection_task (client_connection_new [] 0) True None reply_reads))"
    by (simp add: local_packets_sent) (simp add: own_packets_def reply_reads_def goes_on_def local_data_def)
  have send: "list_all (sendable sample_ser sample_deser) reply_frames"
    by (simp add: reply_frames_def) (simp add: sendable_def)
  have cut: "concat [take 5 reply_stream, drop 5 reply_stream] = concat (map (frame sample_ser) reply_frames)"
    by (simp add: reply_stream_def)
  have frames: "reader_frames reply_events = fst (receive (drain sample_deser) [take 5 reply_stream, drop 5 reply_stream])"
    using wire.receive_frames[OF send cut] by (simp add: reader_frames_def reply_events_def comp_def)
  obtain new where "s_delivered (session_run (join_events @ reply_events)) = s_delivered (session_run join_events) @ new"
    "client_writer (map (\<lambda>d. (d, True)) (to_channel 5 new)) = (concat (local_data (takeWhile goes_on reply_reads)), True)"
    using replies_reach_player[OF served quiet _ run _ own send cut frames] reply_run by auto
  then show ?thesis using reply_run by (auto simp: join_run to_channel_def)
qed

end
