(* ===== verification/Request_Path.thy ===== *)
theory Request_Path
  imports Return_Path
begin

text \<open>
  The other direction: what a player sends, from the task of the player at the proxy
  (\<^verbatim>\<open>MCClient::client_reader\<close>) over the channel and the frames of the session
  (\<^verbatim>\<open>ProxyClient::handle_writer\<close>) and the reader of the CraftIP client (\<^verbatim>\<open>Client::reader_handler\<close>,
  \<^verbatim>\<open>send_to\<close>) to the local connection that writes it to the Minecraft server.
\<close>

subsection \<open>The session of the proxy\<close>

definition queued_for :: "client_id \<Rightarrow> client_to_proxy list \<Rightarrow> minecraft_data_packet list" where
  "queued_for i ms = map snd (filter (\<lambda>p. fst p = i) (queued_data ms))"

lemma queued_for_append [simp]: "queued_for i (ms @ ns) = queued_for i ms @ queued_for i ns"
  by (simp add: queued_for_def)

text \<open>What a running session framed since an earlier moment is what was put on its channel since.\<close>

lemma framed_since:
  assumes "s_running (session_run evs0)" "s_running (session_run (evs0 @ evs))"
    and "s_frames (session_run (evs0 @ evs)) = s_frames (session_run evs0) @ frames"
    and "queued_for i (s_queue (session_run evs0)) = []" "queued_for i (s_queue (session_run (evs0 @ evs))) = []"
  shows "frames_for i frames = queued_for i (enqueued evs)"
proof -
  have pick: "map snd (filter (\<lambda>p. fst p = i) (data_frames fs)) @ queued_for i q = queued_for i ms"
    if "data_frames fs @ queued_data q = queued_data ms" for fs q ms
    using arg_cong[OF that, of "\<lambda>ps. map snd (filter (\<lambda>p. fst p = i) ps)"] by (simp add: queued_for_def)
  have "data_frames (s_frames (session_run es)) @ queued_data (s_queue (session_run es)) = queued_data (enqueued es)"
    if "s_running (session_run es)" for es
    using session_fifo_inv[of es] that by (simp add: fifo_def)
  from pick[OF this[OF assms(1)]] pick[OF this[OF assms(2)]] assms(3-5) show ?thesis
    by (simp add: frames_for_def)
qed

subsection \<open>The reader of the client\<close>

definition input_frames :: "client_input list \<Rightarrow> socket_packet list" where
  "input_frames is = concat (map (\<lambda>i. case in_event i of FromProxy (Frame f) \<Rightarrow> [f] | _ \<Rightarrow> []) is)"

lemma input_frames_Cons: "input_frames (i # is) = input_frames [i] @ input_frames is"
  by (simp add: input_frames_def)

definition to_connection :: "channel \<Rightarrow> client_effect list \<Rightarrow> minecraft_data_packet list" where
  "to_connection tx effs = concat (map (\<lambda>e. case e of Deliver t d \<Rightarrow> if t = tx then [d] else [] | _ \<Rightarrow> []) effs)"

lemma to_connection_simps [simp]:
  "to_connection tx [] = []" "to_connection tx (es @ fs) = to_connection tx es @ to_connection tx fs"
  "to_connection tx (Stat st # es) = to_connection tx es" "to_connection tx (Spawn k ch # es) = to_connection tx es"
  "to_connection tx (client_effect.ToProxy m # es) = to_connection tx es"
  "to_connection tx (Deliver t d # es) = (if t = tx then [d] else []) @ to_connection tx es"
  by (simp_all add: to_connection_def)

definition connects :: "client \<Rightarrow> client_id \<Rightarrow> channel \<Rightarrow> bool" where
  "connects c i tx \<longleftrightarrow> wf_client c \<and> get_connection c i = Some tx
     \<and> (\<forall>j. get_connection c j = Some tx \<longrightarrow> j = i)"

lemma connects_get: "connects c i tx \<Longrightarrow> get_connection c j = Some tx \<longleftrightarrow> j = i"
  by (auto simp: connects_def)

lemma connects_clear: "connects c i tx \<Longrightarrow> k \<noteq> i \<Longrightarrow> connects (clear_connection c k) i tx"
  by (auto simp: connects_def table_simps)

lemma connects_put:
  "connects c i tx \<Longrightarrow> k \<noteq> i \<Longrightarrow> k < MAXIMUM_CLIENTS \<Longrightarrow> ch \<noteq> tx \<Longrightarrow> connects (put_connection c k ch) i tx"
  by (auto simp: connects_def table_simps)

lemma notify_quiet: "notify c = Inr (c', effs) \<Longrightarrow> to_connection tx effs = []"
  by (auto simp: notify_def split: option.splits if_splits)

lemma connects_add:
  assumes "connects c i tx" "add_connection c k ch = Inr (c', effs)" "k \<noteq> i" "ch \<noteq> tx"
  shows "connects c' i tx \<and> to_connection tx effs = []"
proof -
  have "wf_client c" using assms(1) by (simp add: connects_def)
  from add_connection_Inr[OF this assms(2)] show ?thesis
    using assms connects_put[OF assms(1), of k ch] notify_quiet by (auto simp: add_connection_def)
qed

lemma connects_remove:
  assumes "connects c i tx" "remove_connection c k = Inr (c', effs)" "k \<noteq> i"
  shows "connects c' i tx \<and> to_connection tx effs = []"
proof -
  have "wf_client c" using assms(1) by (simp add: connects_def)
  moreover have "to_connection tx effs = []"
    using assms(2) notify_quiet by (auto simp: remove_connection_def split: if_splits)
  ultimately show ?thesis
    using remove_connection_Inr[of c k c' effs] assms connects_clear[OF assms(1,3)] by auto
qed

text \<open>An input that leaves the connection alone, and finds it alive when it has data for it.\<close>

definition keeps_connection :: "client_id \<Rightarrow> channel \<Rightarrow> client_input \<Rightarrow> bool" where
  "keeps_connection i tx inp \<longleftrightarrow> in_fresh inp \<noteq> tx \<and> (case in_event inp of
     FromProxy (Frame (ProxyData p)) \<Rightarrow> data_client_id p = i \<longrightarrow> in_alive inp
   | FromProxy (Frame (ProxyJoin k)) \<Rightarrow> k \<noteq> i
   | FromProxy (Frame (ProxyDisconnect k)) \<Rightarrow> k \<noteq> i
   | FromWriter (Some k) \<Rightarrow> k \<noteq> i
   | _ \<Rightarrow> True)"

lemma send_to_connection:
  assumes "connects c i tx" "send_to c k d alive = Inr (c', effs)" "k = i \<longrightarrow> alive"
  shows "connects c' i tx \<and> to_connection tx effs = (if k = i then [d] else [])"
proof -
  obtain t where t: "get_connection c k = Some t"
    using assms(2) by (auto simp: send_to_def split: option.splits)
  then have same: "t = tx \<longleftrightarrow> k = i" using connects_get[OF assms(1), of k] by simp
  show ?thesis
  proof (cases alive)
    case True
    then have "c' = c" "effs = [Deliver t d]" using assms(2) t by (simp_all add: send_to_def)
    with same assms(1) show ?thesis by simp
  next
    case False
    then have "k \<noteq> i" "remove_connection c k = Inr (c', effs)"
      using assms(2,3) t by (simp_all add: send_to_def)
    with connects_remove[OF assms(1)] show ?thesis by simp
  qed
qed

lemma reader_step_connection:
  assumes "connects c i tx" "keeps_connection i tx inp"
    and "reader_handler c (in_fresh inp) (in_alive inp) (in_now inp) (in_writer_ok inp) (in_event inp) = Inr (c', effs)"
  shows "connects c' i tx \<and> to_connection tx effs = frames_for i (input_frames [inp])"
proof (cases "in_event inp")
  case (FromProxy fe)
  show ?thesis
  proof (cases fe)
    case (Frame p)
    note ev = FromProxy Frame
    show ?thesis
    proof (cases p)
      case (ProxyJoin k)
      then obtain e where "add_connection c k (in_fresh inp) = Inr (c', e)" "effs = e @ [Spawn k (in_fresh inp)]"
        using assms(3) ev by (auto simp: reader_handler_def split: sum.splits)
      then show ?thesis
        using connects_add[OF assms(1)] assms(2) ev ProxyJoin
        by (auto simp: keeps_connection_def input_frames_def frames_for_def data_frames_def)
    next
      case (ProxyData d)
      then have "send_to c (data_client_id d) (data_bytes d) (in_alive inp) = Inr (c', effs)"
        using assms(3) ev by (simp add: reader_handler_def)
      then show ?thesis
        using send_to_connection[OF assms(1)] assms(2) ev ProxyData
        by (auto simp: keeps_connection_def input_frames_def frames_for_def data_frames_def)
    next
      case (ProxyDisconnect k)
      then have "remove_connection c k = Inr (c', effs)"
        using assms(3) ev by (simp add: reader_handler_def)
      then show ?thesis
        using connects_remove[OF assms(1)] assms(2) ev ProxyDisconnect
        by (auto simp: keeps_connection_def input_frames_def frames_for_def data_frames_def)
    qed (use assms(1,3) ev in \<open>auto simp: reader_handler_def input_frames_def frames_for_def data_frames_def
        split: option.splits if_splits\<close>)
  qed (use assms(3) FromProxy in \<open>auto simp: reader_handler_def\<close>)
next
  case (FromWriter k)
  then obtain k' where k': "k = Some k'" "remove_connection c k' = Inr (c', effs)"
    using assms(3) by (auto simp: reader_handler_def split: option.splits)
  then show ?thesis
    using connects_remove[OF assms(1) k'(2)] assms(2) FromWriter
    by (auto simp: keeps_connection_def input_frames_def)
qed (use assms(1,3) in \<open>auto simp: reader_handler_def input_frames_def split: if_splits\<close>)

lemma client_run_connection:
  "client_run c inputs = (c', effs, None) \<Longrightarrow> connects c i tx \<Longrightarrow> list_all (keeps_connection i tx) inputs
     \<Longrightarrow> connects c' i tx \<and> to_connection tx effs = frames_for i (input_frames inputs)"
proof (induction inputs arbitrary: c effs)
  case (Cons inp inputs)
  obtain c1 e1 where r: "reader_handler c (in_fresh inp) (in_alive inp) (in_now inp) (in_writer_ok inp)
      (in_event inp) = Inr (c1, e1)"
    using Cons.prems(1) by (auto split: sum.splits)
  obtain e2 where run: "client_run c1 inputs = (c', e2, None)" "effs = e1 @ e2"
    using Cons.prems(1) r by (auto split: prod.splits)
  have "connects c1 i tx \<and> to_connection tx e1 = frames_for i (input_frames [inp])"
    using reader_step_connection[OF Cons.prems(2) _ r] Cons.prems(3) by simp
  with Cons.IH[OF run(1)] Cons.prems(3) show ?case
    by (simp add: run(2) input_frames_Cons[of inp inputs])
qed (simp add: input_frames_def)

subsection \<open>The whole way\<close>

lemma queued_packets: "queued_for i (map (Packet i) cs) = cs"
  by (induction cs) (simp_all add: queued_for_def queued_data_def)

lemma queued_player: "queued_for i (Packet i first # map (Packet i) cs) = first # cs"
  using queued_packets[of i "first # cs"] by simp

text \<open>
  C8. What a player sends reaches the Minecraft server, byte for byte. Take a stretch of a session
  at whose ends nothing of player \<open>i\<close> waits: if the player's task put its first packet and what it
  read since on the channel, the local connection of that player writes exactly these bytes, in
  order, and not a byte of another player, however the messages of all players interleave on the
  channel, however TCP cuts the frames, and whatever the client does for the other connections
  in between. When the player's task has not failed, these are all the bytes it read.
\<close>

theorem requests_reach_server:
  assumes "s_running (session_run evs0)" and "s_running (session_run (evs0 @ evs))"
    and "queued_for i (s_queue (session_run evs0)) = []" and "queued_for i (s_queue (session_run (evs0 @ evs))) = []"
    and "s_frames (session_run (evs0 @ evs)) = s_frames (session_run evs0) @ frames"
    and "queued_for i (enqueued evs) = queued_for i (Packet i first # fst (client_reader i reads))"
    and "list_all (sendable ser deser) frames" and "concat chunks = concat (map (frame ser) frames)"
    and "input_frames inputs = fst (receive (drain deser) chunks)"
    and "connects c i tx" and "list_all (keeps_connection i tx) inputs" and "client_run c inputs = (c', effs, None)"
    and "tunnel_data (takeWhile goes_on local) = to_connection tx effs"
  shows "\<exists>cs. fst (client_reader i reads) = map (Packet i) cs \<and> prefix cs (chunks_read reads)
    \<and> (snd (client_reader i reads) \<longrightarrow> cs = chunks_read reads)
    \<and> fst (connection_task (client_connection_new mc i) True None local) = first @ concat cs"
proof -
  obtain cs where cs: "fst (client_reader i reads) = map (Packet i) cs" "prefix cs (chunks_read reads)"
    "snd (client_reader i reads) \<longrightarrow> cs = chunks_read reads"
    using client_reader_packets by blast
  have "input_frames inputs = frames" using assms(9) wire.receive_frames[OF assms(7,8)] by simp
  then have "to_connection tx effs = frames_for i frames"
    using client_run_connection[OF assms(12,10,11)] by simp
  also have "\<dots> = first # cs"
    using framed_since[OF assms(1,2,5,3,4)] assms(6) cs(1) by (simp add: queued_player)
  finally have "tunnel_data (takeWhile goes_on local) = first # cs" using assms(13) by simp
  then have "fst (connection_task (client_connection_new mc i) True None local) = first @ concat cs"
    by (simp add: connection_task_def handle_client_def handle_client_loop_spec Let_def)
  with cs show ?thesis by blast
qed

text \<open>
  Player 0 on channel 5 sends a first packet and two more bytes; at the client its connection has
  the channel 9. The session before the stretch has given the player its id.
\<close>

definition request_events :: "session_event list" where
  "request_events = [Enqueue (Packet 0 [1]), Enqueue (AnswerPingPacket 7), WriterTurn True True,
     WriterTurn True True, Enqueue (Packet 0 [2, 3]), WriterTurn True True]"

definition request_frames :: "socket_packet list" where
  "request_frames = [ProxyData \<lparr>data_client_id = 0, data_bytes = [1]\<rparr>, ProxyPong 7,
     ProxyData \<lparr>data_client_id = 0, data_bytes = [2, 3]\<rparr>]"

definition request_stream :: bytes where
  "request_stream = concat (map (frame sample_ser) request_frames)"

definition request_inputs :: "client_input list" where
  "request_inputs = map (\<lambda>f. \<lparr>in_event = FromProxy (Frame f), in_fresh = 0, in_alive = True, in_now = 9,
     in_writer_ok = True\<rparr>) request_frames"

definition request_client :: "server \<Rightarrow> client" where
  "request_client cfg = put_connection (client_new cfg None) 0 9"

lemma request_connects: "connects (request_client cfg) 0 9"
  by (auto simp: connects_def request_client_def client_new_def put_connection_def wf_client_def
      get_connection_def MAXIMUM_CLIENTS_def nth_list_update split: if_splits)

definition player_reads :: "(client_read \<times> bool) list" where
  "player_reads = [(Read (ReadOk [2, 3]), True)]"

definition served_locally :: "local_event list" where
  "served_locally = [FromTunnel (Some [1]) True, FromLocal (ReadOk [8]) True, FromTunnel (Some [2, 3]) True]"

lemma request_run: "session_run (join_events @ request_events) = \<lparr>s_dist = put_id distributor_default 0 5,
     s_queue = [], s_frames = ProxyJoin 0 # request_frames, s_ids = [(4, 0)], s_delivered = [], s_running = True\<rparr>"
proof -
  have "session_run (join_events @ evs) = fold session_step evs (session_run join_events)" for evs
    by (simp add: session_run_def)
  then show ?thesis
    by (simp add: join_run request_events_def request_frames_def session_step_def handle_writer_def
        writer_response_def proxy_data_packet_new_def)
qed

lemma request_client_run: "client_run (request_client cfg) request_inputs
     = (request_client cfg, [Deliver 9 [1], Deliver 9 [2, 3]], None)"
proof -
  have "get_connection (request_client cfg) 0 = Some 9"
    using connects_get[OF request_connects] by simp
  moreover have "stats_rx (request_client cfg) = None"
    by (simp add: request_client_def put_connection_def client_new_def)
  ultimately show ?thesis
    by (simp add: request_inputs_def request_frames_def reader_handler_def send_to_def)
qed

theorem requests_reach_server_witness:
  "\<exists>cs. fst (client_reader 0 player_reads) = map (Packet 0) cs \<and> prefix cs (chunks_read player_reads)
    \<and> fst (connection_task (client_connection_new [] 0) True None served_locally) = [1] @ concat cs"
proof -
  define cfg where "cfg = \<lparr>server_name = [], server_local = [], server_auth = Key \<lparr>private_key_bytes = []\<rparr>\<rparr>"
  have run: "s_running (session_run join_events)" "s_running (session_run (join_events @ request_events))"
    "queued_for 0 (s_queue (session_run join_events)) = []"
    "queued_for 0 (s_queue (session_run (join_events @ request_events))) = []"
    "s_frames (session_run (join_events @ request_events)) = s_frames (session_run join_events) @ request_frames"
    by (simp_all add: join_run request_run) (simp_all add: queued_for_def)
  have sent: "queued_for 0 (enqueued request_events)
      = queued_for 0 (Packet 0 [1] # fst (client_reader 0 player_reads))"
    by (simp add: queued_for_def queued_data_def enqueued_def request_events_def player_reads_def)
  have send: "list_all (sendable sample_ser sample_deser) request_frames"
    by (simp add: request_frames_def) (simp add: sendable_def)
  have cut: "concat [take 5 request_stream, drop 5 request_stream] = concat (map (frame sample_ser) request_frames)"
    by (simp add: request_stream_def)
  have frames: "input_frames request_inputs
      = fst (receive (drain sample_deser) [take 5 request_stream, drop 5 request_stream])"
    using wire.receive_frames[OF send cut]
    by (simp add: request_inputs_def input_frames_def request_frames_def)
  have quiet: "list_all (keeps_connection 0 9) request_inputs"
    by (simp add: request_inputs_def request_frames_def keeps_connection_def)
  have local: "tunnel_data (takeWhile goes_on served_locally) = to_connection 9 [Deliver 9 [1], Deliver 9 [2, 3]]"
    by (simp add: served_locally_def goes_on_def tunnel_data_def to_connection_def)
  from requests_reach_server[OF run sent send cut frames request_connects quiet request_client_run[of cfg] local]
  show ?thesis by blast
qed

end
