(* ===== verification/Reconnect.thy ===== *)
theory Reconnect
  imports Tunnel
begin

text \<open>
  Several sessions of one \<^verbatim>\<open>Client\<close>: \<^verbatim>\<open>Client::handle\<close> of \<^verbatim>\<open>crates/client/src/client.rs\<close>, called again and
  again by the connection loop of the graphical client. The table of connections is a field of the
  client and outlives a session; the host name is free again once the proxy has met the end of the
  old connection.
\<close>

subsection \<open>Sessions\<close>

text \<open>
  \<^verbatim>\<open>handle\<close> takes the two halves of the connection out of the client and runs the reader until it
  stops; without a connection it panics.
\<close>

definition client_handle ::
  "bool \<Rightarrow> client \<Rightarrow> client_input list \<Rightarrow> client \<times> client_effect list \<times> stop option" where
  "client_handle has_proxy c inputs = (if \<not> has_proxy then (c, [], Some Panic) else client_run c inputs)"

text \<open>
  The connection loop goes on after an error, with the same client. Each session has been preceded
  by a \<^verbatim>\<open>connect\<close> and an \<^verbatim>\<open>auth\<close>, which do not touch the table.
\<close>

fun sessions :: "client \<Rightarrow> client_input list list \<Rightarrow> client \<times> client_effect list list \<times> stop option" where
  "sessions c [] = (c, [], None)"
| "sessions c (inputs # rest) = (case client_handle True c inputs of
     (c', effs, Some (Bail r)) \<Rightarrow> (case sessions c' rest of (c'', es, st) \<Rightarrow> (c'', effs # es, st))
   | (c', effs, st) \<Rightarrow> (c', [effs], st))"

subsection \<open>Joins for ids that are in the table\<close>

definition rejoin :: "client \<Rightarrow> client_event \<Rightarrow> nat" where
  "rejoin c ev = (case ev of
     FromProxy (Frame (ProxyJoin i)) \<Rightarrow> if i < MAXIMUM_CLIENTS \<and> get_connection c i \<noteq> None then 1 else 0
   | _ \<Rightarrow> 0)"

fun rejoins :: "client \<Rightarrow> client_input list \<Rightarrow> nat" where
  "rejoins c [] = 0"
| "rejoins c (i # is) =
     (case reader_handler c (in_fresh i) (in_alive i) (in_now i) (in_writer_ok i) (in_event i) of
        Inl s \<Rightarrow> 0
      | Inr (c', effs) \<Rightarrow> rejoin c (in_event i) + rejoins c' is)"

fun session_rejoins :: "client \<Rightarrow> client_input list list \<Rightarrow> nat" where
  "session_rejoins c [] = 0"
| "session_rejoins c (inputs # rest) = rejoins c inputs + (case client_handle True c inputs of
     (c', effs, Some (Bail r)) \<Rightarrow> session_rejoins c' rest
   | _ \<Rightarrow> 0)"

text \<open>\<open>n\<close> connections too many are counted.\<close>

definition overcounted :: "client \<Rightarrow> nat \<Rightarrow> bool" where
  "overcounted c n \<longleftrightarrow> wf_client c \<and> connections_len c = card (dom (get_connection c)) + n"

lemma overcounted_put:
  assumes "overcounted c n" "i < MAXIMUM_CLIENTS" "n + MAXIMUM_CLIENTS < USIZE_MAX"
  shows "overcounted (put_connection c i tx) (n + (if get_connection c i \<noteq> None then 1 else 0))"
proof -
  have "card (dom (get_connection c)) \<le> MAXIMUM_CLIENTS"
    using assms(1) conn.card_dom by (simp add: overcounted_def)
  then have "connections_len (put_connection c i tx) = Suc (card (dom (get_connection c)) + n)"
    using assms(1,3) by (simp add: overcounted_def put_connection_def)
  then show ?thesis
    using assms(1) conn.card_put[OF _ assms(2), of c tx] conn.wf_put by (simp add: overcounted_def)
qed

lemma overcounted_clear:
  assumes "overcounted c n" "get_connection c i \<noteq> None"
  shows "overcounted (clear_connection c i) n"
proof -
  have "0 < card (dom (get_connection c))"
    using assms conn.finite_dom[of c] by (auto simp: overcounted_def card_gt_0_iff)
  moreover have "connections_len (clear_connection c i) = connections_len c - 1"
    by (simp add: clear_connection_def)
  ultimately show ?thesis
    using assms(1) conn.card_clear[of c i] conn.wf_clear[of c i] assms(2)[THEN not_sym]
    by (auto simp: overcounted_def)
qed

lemma overcounted_remove:
  "overcounted c n \<Longrightarrow> remove_connection c i = Inr (c', effs) \<Longrightarrow> overcounted c' n"
  using remove_connection_Inr[of c i c' effs] overcounted_clear[of c n i]
  by (auto simp: overcounted_def split: if_splits)

lemma overcounted_send_to: "overcounted c n \<Longrightarrow> send_to c i d alive = Inr (c', effs) \<Longrightarrow> overcounted c' n"
  by (auto simp: send_to_def split: option.splits if_splits intro: overcounted_remove)

lemma overcounted_step:
  assumes "overcounted c n" "n + MAXIMUM_CLIENTS < USIZE_MAX"
    and "reader_handler c fresh alive now writer_ok ev = Inr (c', effs)"
  shows "overcounted c' (n + rejoin c ev)"
proof (cases "\<exists>i. ev = FromProxy (Frame (ProxyJoin i))")
  case True
  then obtain i where i: "ev = FromProxy (Frame (ProxyJoin i))" by blast
  then obtain e where "add_connection c i fresh = Inr (c', e)"
    using assms(3) by (auto simp: reader_handler_def split: sum.splits)
  then have "c' = (if i < MAXIMUM_CLIENTS then put_connection c i fresh else c)"
    using assms(1) add_connection_Inr by (auto simp: overcounted_def)
  then show ?thesis using i assms(1) overcounted_put[OF assms(1) _ assms(2), of i fresh] by (auto simp: rejoin_def)
next
  case False
  have "overcounted c' n"
    using assms(3) False overcounted_remove[OF assms(1)] overcounted_send_to[OF assms(1)] assms(1)
    by (auto simp: reader_handler_def split: client_event.splits frame_event.splits
        socket_packet.splits option.splits if_splits)
  moreover have "rejoin c ev = 0"
    using False by (auto simp: rejoin_def split: client_event.splits frame_event.splits socket_packet.splits)
  ultimately show ?thesis by simp
qed

lemma rejoin_le: "rejoin c ev \<le> 1"
  by (auto simp: rejoin_def split: client_event.splits frame_event.splits socket_packet.splits)

lemma rejoins_le: "rejoins c is \<le> length is"
proof (induction c "is" rule: rejoins.induct)
  case (2 c i "is")
  show ?case
  proof (cases "reader_handler c (in_fresh i) (in_alive i) (in_now i) (in_writer_ok i) (in_event i)")
    case (Inr r)
    then show ?thesis
      using "2.IH"[OF Inr, of "fst r" "snd r"] rejoin_le[of c "in_event i"] by (cases r) simp
  qed simp
qed simp

lemma overcounted_run:
  "client_run c is = (c', effs, st) \<Longrightarrow> overcounted c n \<Longrightarrow> n + length is + MAXIMUM_CLIENTS \<le> USIZE_MAX
     \<Longrightarrow> overcounted c' (n + rejoins c is)"
proof (induction c "is" arbitrary: n effs rule: client_run.induct)
  case (2 c i "is")
  show ?case
  proof (cases "reader_handler c (in_fresh i) (in_alive i) (in_now i) (in_writer_ok i) (in_event i)")
    case (Inr r)
    obtain c1 e1 where r: "r = (c1, e1)" by (cases r)
    obtain e2 where run: "client_run c1 is = (c', e2, st)"
      using "2.prems"(1) Inr r by (auto split: prod.splits)
    have "overcounted c1 (n + rejoin c (in_event i))"
      using overcounted_step[OF "2.prems"(2) _ Inr[unfolded r]] "2.prems"(3) by simp
    moreover have "n + rejoin c (in_event i) + length is + MAXIMUM_CLIENTS \<le> USIZE_MAX"
      using "2.prems"(3) rejoin_le[of c "in_event i"] by simp
    ultimately have "overcounted c' (n + rejoin c (in_event i) + rejoins c1 is)"
      using "2.IH"[OF Inr r[symmetric] run] by simp
    then show ?thesis using Inr r by (simp add: add.assoc)
  qed (use 2 in simp)
qed simp

lemma overcounted_sessions:
  "sessions c iss = (c', es, st) \<Longrightarrow> overcounted c n
     \<Longrightarrow> n + length (concat iss) + MAXIMUM_CLIENTS \<le> USIZE_MAX
     \<Longrightarrow> overcounted c' (n + session_rejoins c iss)"
proof (induction iss arbitrary: c n es)
  case (Cons inputs rest)
  obtain c1 e1 s1 where run: "client_run c inputs = (c1, e1, s1)" by (metis prod_cases3)
  have o: "overcounted c1 (n + rejoins c inputs)"
    using overcounted_run[OF run Cons.prems(2)] Cons.prems(3) by simp
  show ?case
  proof (cases "\<exists>r. s1 = Some (Bail r)")
    case True
    then obtain r where s1: "s1 = Some (Bail r)" by blast
    obtain e2 where "sessions c1 rest = (c', e2, st)"
      using Cons.prems(1) run s1 by (auto simp: client_handle_def split: prod.splits)
    from Cons.IH[OF this o] show ?thesis
      using Cons.prems(3) rejoins_le[of c inputs] run s1 by (simp add: client_handle_def add.assoc)
  next
    case False
    then have "c' = c1" "session_rejoins c (inputs # rest) = rejoins c inputs"
      using Cons.prems(1) run by (auto simp: client_handle_def split: option.splits stop.splits)
    with o show ?thesis by simp
  qed
qed simp

text \<open>
  C32. How many players the client says are connected, over all sessions of a client: the number of
  connections in its table, plus one for every join so far that met an id still in the table.
  Within a session the proxy does not send such a join, but after a lost session nothing clears the
  table, and the next session gives out the same ids again, so from then on the number is too high.
\<close>

theorem sessions_count:
  assumes "sessions (client_new cfg stats) iss = (c, es, st)"
    and "length (concat iss) + MAXIMUM_CLIENTS \<le> USIZE_MAX"
  shows "connections_len c = card (dom (get_connection c)) + session_rejoins (client_new cfg stats) iss"
proof -
  have "overcounted (client_new cfg stats) 0"
    by (simp add: overcounted_def) (simp add: client_new_def)
  from overcounted_sessions[OF assms(1) this] assms(2) show ?thesis by (simp add: overcounted_def)
qed

text \<open>A player, a lost connection, and the player again: the window shows two.\<close>

definition lost_session :: "client_input list list" where
  "lost_session =
     (let inp = (\<lambda>ev fresh. \<lparr>in_event = ev, in_fresh = fresh, in_alive = True, in_now = 0, in_writer_ok = True\<rparr>)
      in [[inp (FromProxy (Frame (ProxyJoin 0))) 7, inp (FromProxy Eof) 0], [inp (FromProxy (Frame (ProxyJoin 0))) 8]])"

theorem sessions_count_witness:
  "\<exists>c. sessions (client_new sample_server (Some True)) lost_session =
      (c, [[Stat (ClientsConnected 1), Spawn 0 7], [Stat (ClientsConnected 2), Spawn 0 8]], None)
    \<and> card (dom (get_connection c)) = 1 \<and> connections_len c = 2"
proof -
  let ?c = "client_new sample_server (Some True)"
  let ?c1 = "put_connection ?c 0 7" and ?c2 = "put_connection (put_connection ?c 0 7) 0 8"
  have len: "0 < length (connections ?c)" "0 < length (connections ?c1)"
    by (simp_all add: client_new_def put_connection_def MAXIMUM_CLIENTS_def)
  have a: "add_connection ?c 0 7 = Inr (?c1, [Stat (ClientsConnected 1)])"
    and b: "add_connection ?c1 0 8 = Inr (?c2, [Stat (ClientsConnected 2)])"
    using len by (simp_all add: add_connection_def notify_def put_connection_def client_new_def USIZE_MAX_def)
  have s: "sessions ?c lost_session =
      (?c2, [[Stat (ClientsConnected 1), Spawn 0 7], [Stat (ClientsConnected 2), Spawn 0 8]], None)"
    by (simp add: lost_session_def client_handle_def reader_handler_def a b Let_def)
  have g: "get_connection ?c1 = [0 \<mapsto> 7]" "get_connection ?c2 = [0 \<mapsto> 8]"
    using conn.look_put[of ?c 0 7] conn.look_put[of ?c1 0 8] conn.wf_put[of ?c 0 7]
    by (simp_all add: MAXIMUM_CLIENTS_def)
  have r: "session_rejoins ?c lost_session = 1"
    by (simp add: lost_session_def client_handle_def reader_handler_def a b Let_def rejoin_def g MAXIMUM_CLIENTS_def)
  have "length (concat lost_session) + MAXIMUM_CLIENTS \<le> USIZE_MAX"
    by (simp add: lost_session_def MAXIMUM_CLIENTS_def USIZE_MAX_def Let_def)
  from sessions_count[OF s this] r s g show ?thesis by simp
qed

subsection \<open>A new session after a lost one\<close>

text \<open>A session keeps the configuration and the statistics channel of its client.\<close>

definition same_owner :: "client \<Rightarrow> client \<Rightarrow> bool" where
  "same_owner c c' \<longleftrightarrow> server_cfg c' = server_cfg c \<and> stats_rx c' = stats_rx c"

lemma same_owner_add: "add_connection c i ch = Inr (c', effs) \<Longrightarrow> same_owner c c'"
  by (auto simp: add_connection_def notify_def same_owner_def split: option.splits if_splits)

lemma same_owner_remove: "remove_connection c i = Inr (c', effs) \<Longrightarrow> same_owner c c'"
  by (auto simp: remove_connection_def notify_def same_owner_def split: option.splits if_splits)

lemma same_owner_step: "reader_handler c fresh alive now writer_ok ev = Inr (c', effs) \<Longrightarrow> same_owner c c'"
  by (auto simp: reader_handler_def send_to_def split: client_event.splits frame_event.splits socket_packet.splits
      option.splits if_splits sum.splits dest: same_owner_add same_owner_remove)
    (simp_all add: same_owner_def)

lemma same_owner_run: "client_run c inputs = (c', effs, st) \<Longrightarrow> same_owner c c'"
proof (induction inputs arbitrary: c effs)
  case (Cons i inputs)
  show ?case
  proof (cases "reader_handler c (in_fresh i) (in_alive i) (in_now i) (in_writer_ok i) (in_event i)")
    case (Inr r)
    obtain c1 e1 where r: "r = (c1, e1)" by (cases r)
    obtain e2 where "client_run c1 inputs = (c', e2, st)"
      using Cons.prems Inr r by (auto split: prod.splits)
    from Cons.IH[OF this] same_owner_step[OF Inr[unfolded r]] show ?thesis by (simp add: same_owner_def)
  qed (use Cons.prems in \<open>simp add: same_owner_def\<close>)
qed (simp add: same_owner_def)

text \<open>The steps of the proxy: the lost connection \<open>c\<close> ends, and \<open>d\<close> says hello, proves its key, and starts.\<close>

definition resume_steps :: "channel \<Rightarrow> channel \<Rightarrow> socket_packet \<Rightarrow> challenge \<Rightarrow> signature \<Rightarrow> label list" where
  "resume_steps c d hello chal sig =
     [Serve c (ReaderTurn (Incoming Eof)), Finish c, Greet d [(Frame hello, True)],
      Auth d (Some chal) True (Frame (ProxyAuthResponse sig)), Start d True]"

lemma reader_eof: "\<not> s_running (session_step (ReaderTurn (Incoming Eof)) s)"
  by (simp add: session_step_def handle_reader_def)

lemma sys_reach_step: "sys_reach api tr sys \<Longrightarrow> sys_step api sys l sys' \<Longrightarrow> sys_reach api (tr @ [l]) sys'"
  by (rule sys_reach.step)

lemma session_ends:
  assumes "sys_reach api tr sys" "sys_conns sys c = Serving pc s"
  shows "\<exists>sys'. sys_reach api (tr @ [Serve c (ReaderTurn (Incoming Eof)), Finish c]) sys'
    \<and> get_server (sys_register sys') = (get_server (sys_register sys))(pc_hostname pc := None)
    \<and> sys_conns sys' = (sys_conns sys)(c := Closed)"
proof -
  let ?s = "session_step (ReaderTurn (Incoming Eof)) s"
  let ?sys1 = "set_phase c (Serving pc ?s) sys"
  have r1: "sys_reach api (tr @ [Serve c (ReaderTurn (Incoming Eof))]) ?sys1"
    using sys_reach_step[OF assms(1) sys_step.serve[OF assms(2)]] .
  have "sys_step api ?sys1 (Finish c)
      (set_phase c Closed (?sys1\<lparr>sys_register := fst (into_disconnected (sys_register ?sys1) pc)\<rparr>))"
    by (rule sys_step.finish[where s = ?s]) (simp_all add: reader_eof into_disconnected_def)
  from sys_reach_step[OF r1 this] show ?thesis
    by (intro exI[of _ "set_phase c Closed (?sys1\<lparr>sys_register := fst (into_disconnected (sys_register ?sys1) pc)\<rparr>)"])
      (simp add: into_disconnected_def reg.look_del)
qed

lemma key_starts:
  assumes "sys_reach api tr sys" "sys_conns sys d = Fresh"
    and "verify api pk chal sig" "server_name cfg = get_hostname api pk"
    and "get_server (sys_register sys) (server_name cfg) = None"
  shows "\<exists>sys'. sys_reach api (tr @ [Greet d [(Frame (auth_hello cfg pk), True)],
      Auth d (Some chal) True (Frame (ProxyAuthResponse sig)), Start d True]) sys'
    \<and> get_server (sys_register sys') = (get_server (sys_register sys))(server_name cfg \<mapsto> d)"
proof -
  define pc0 where "pc0 = \<lparr>pc_hostname = server_name cfg, pc_state = \<lparr>na_hello =
      \<lparr>hello_version = PROTOCOL_VERSION, hello_hostname = server_name cfg, hello_auth = PublicKey pk\<rparr>\<rparr>\<rparr>"
  define pc1 where "pc1 = \<lparr>pc_hostname = get_hostname api pk, pc_state = Authenticated\<rparr>"
  let ?sys1 = "set_phase d (Greeted pc0) sys" and ?sys2 = "set_phase d (Ready pc1) (set_phase d (Greeted pc0) sys)"
  have "sys_step api sys (Greet d [(Frame (auth_hello cfg pk), True)]) ?sys1"
    using assms(2) by (rule sys_step.greet) (simp add: auth_hello_def pc0_def)
  note r1 = sys_reach_step[OF assms(1) this]
  have "fst (authenticate api pc0 (Some chal) True (Frame (ProxyAuthResponse sig))) = Inr pc1"
    using assms(3,4) by (simp add: authenticate_Inr proves_key_def pc0_def pc1_def)
  then have "sys_step api ?sys1 (Auth d (Some chal) True (Frame (ProxyAuthResponse sig))) ?sys2"
    by (intro sys_step.auth[of ?sys1 d pc0]) simp_all
  note r2 = sys_reach_step[OF r1 this]
  obtain r out where r: "handle_start (sys_register ?sys2) pc1 d True = (r, Inr pc1, out)"
    "get_server r = (get_server (sys_register ?sys2))(pc_hostname pc1 \<mapsto> d)"
    using handle_start_free[of "sys_register ?sys2" pc1 d] assms(4,5) by (auto simp: pc1_def)
  have "sys_step api ?sys2 (Start d True) (set_phase d (Serving pc1 session_new) (?sys2\<lparr>sys_register := r\<rparr>))"
    using r(1) by (intro sys_step.start[of ?sys2 d pc1]) simp_all
  from sys_reach_step[OF r2 this] r(2) assms(4) show ?thesis
    by (intro exI[of _ "set_phase d (Serving pc1 session_new) (?sys2\<lparr>sys_register := r\<rparr>)"])
      (simp add: pc1_def)
qed

text \<open>
  C15. A lost session can be taken up again. Let a client that serves its own key lose its session,
  in any reachable state of the proxy. When the reader of the old connection meets the end of its
  stream, the host name is free, and the same client, with whatever it has left in its table, can
  say hello on a fresh connection, answer the challenge and serve again: the register then leads
  from the host name to the new connection, every other host name is as before, and the client's
  \<^verbatim>\<open>auth\<close> returns \<^verbatim>\<open>Ok\<close>.
\<close>

theorem lost_session_resumes:
  assumes "ring_ok api" "server_new_from_key api key = Some cfg"
    and "server_cfg c0 = cfg" "stats_rx c0 \<noteq> Some False"
    and "client_handle True c0 inputs = (c1, effs, Some (Bail why))"
    and "sys_reach api tr sys" "sys_conns sys c = Serving pc s" "pc_hostname pc = server_name cfg"
    and "sys_conns sys d = Fresh"
  shows "\<exists>pk sig sys' told.
      sys_reach api (tr @ resume_steps c d (auth_hello cfg pk) chal sig) sys'
    \<and> get_server (sys_register sys') = (get_server (sys_register sys))(server_name cfg \<mapsto> d)
    \<and> auth api c1 (True, True) (Frame (ProxyAuthRequest chal))
        (Frame (ProxyHelloResponse \<lparr>connected_version = PROTOCOL_VERSION\<rparr>))
        = Some (Inr (), [auth_hello cfg pk, ProxyAuthResponse sig], told)"
proof -
  obtain pk where pk: "get_public_key api key = Some pk"
    and cfg: "cfg = \<lparr>server_name = get_hostname api pk, server_local = STANDARD_LOCAL_PORT, server_auth = Key key\<rparr>"
    using assms(2) by (auto simp: server_new_from_key_def split: option.splits)
  obtain sig where sig: "sign api key chal = Some sig" "verify api pk chal sig"
    using sign_verifies[OF assms(1) pk] by blast
  obtain sys1 where e: "sys_reach api (tr @ [Serve c (ReaderTurn (Incoming Eof)), Finish c]) sys1"
    "get_server (sys_register sys1) = (get_server (sys_register sys))(pc_hostname pc := None)"
    "sys_conns sys1 = (sys_conns sys)(c := Closed)"
    using session_ends[OF assms(6,7)] by blast
  have "sys_conns sys1 d = Fresh" "get_server (sys_register sys1) (server_name cfg) = None"
    using e(2,3) assms(7-9) by auto
  from key_starts[OF e(1) this(1) sig(2) _ this(2)] obtain sys2 where
    "sys_reach api (tr @ resume_steps c d (auth_hello cfg pk) chal sig) sys2"
    "get_server (sys_register sys2) = (get_server (sys_register sys1))(server_name cfg \<mapsto> d)"
    by (auto simp: cfg resume_steps_def)
  moreover have "same_owner c0 c1" using assms(5) same_owner_run by (simp add: client_handle_def)
  then have "server_cfg c1 = cfg" "stats_rx c1 \<noteq> Some False" using assms(3,4) by (simp_all add: same_owner_def)
  then have "\<exists>told. auth api c1 (True, True) (Frame (ProxyAuthRequest chal))
      (Frame (ProxyHelloResponse \<lparr>connected_version = PROTOCOL_VERSION\<rparr>))
      = Some (Inr (), [auth_hello cfg pk, ProxyAuthResponse sig], told)"
    using pk sig(1) by (auto simp: auth_def auth_finish_def cfg Let_def split: option.splits)
  ultimately show ?thesis using e(2) assms(8) by auto
qed

theorem lost_session_resumes_witness:
  "\<exists>pk sig sys'. sys_reach sample_api ((sample_labels @ [Start 3 True])
        @ resume_steps 3 8 (auth_hello sample_server pk) (replicate 64 2) sig) sys'
    \<and> get_server (sys_register sys') (server_name sample_server) = Some 8"
proof -
  have run: "client_handle True (client_new sample_server (Some True))
      [\<lparr>in_event = FromProxy Eof, in_fresh = 0, in_alive = True, in_now = 0, in_writer_ok = True\<rparr>]
      = (client_new sample_server (Some True), [], Some (Bail ProxyHasClosed))"
    by (simp add: client_handle_def reader_handler_def)
  have own: "server_cfg (client_new sample_server (Some True)) = sample_server"
    "stats_rx (client_new sample_server (Some True)) \<noteq> Some False"
    by (simp_all add: client_new_def)
  have sys: "sys_conns sample_serving 3 = Serving sample_ready session_new" "sys_conns sample_serving 8 = Fresh"
    "pc_hostname sample_ready = server_name sample_server"
    by (simp_all add: sample_serving_def system_init_def sample_ready_def sample_server_def)
  from lost_session_resumes[OF ring_ok_sample sample_server_new own run sample_reach_serving sys(1,3,2)]
  show ?thesis by (metis fun_upd_same)
qed

end
