(* ===== verification/Session_Progress.thy ===== *)
theory Session_Progress
  imports Proxy_Session
begin

text \<open>
  Progress of a proxy session: what waits on its channel is handled by as many turns of the writer
  (\<^verbatim>\<open>ProxyClient::handle_writer\<close>) as there are messages, when the peer takes the frames and the
  players still wait for their ids.
\<close>

subsection \<open>One turn\<close>

definition room_for :: "client_to_proxy list \<Rightarrow> distributor \<Rightarrow> bool" where
  "room_for ms d \<longleftrightarrow> wf_distributor d
     \<and> card (dom (get_by_id d)) + length (queued_adds ms) \<le> MAXIMUM_CLIENTS"

lemma queued_adds_Cons: "queued_adds (m # ms) = queued_adds [m] @ queued_adds ms"
  using history_append(6)[of "[m]" ms] by simp

lemma distributor_insert_fits:
  assumes "wf_distributor d" "card (dom (get_by_id d)) < MAXIMUM_CLIENTS"
  obtains i d' where "distributor_insert d tx = Inr (i, d')" "wf_distributor d'"
    "card (dom (get_by_id d')) = Suc (card (dom (get_by_id d)))"
proof (cases "distributor_insert d tx")
  case (Inl e)
  with distributor_insert_spec[OF assms(1), of tx] assms(2) show ?thesis by simp
next
  case (Inr r)
  obtain i d' where r: "r = (i, d')" by (cases r)
  note h = insert_Inr[OF assms(1) Inr[unfolded r]]
  have "card (dom (get_by_id d')) = Suc (card (dom (get_by_id d)))"
    using dist.card_put[OF assms(1) h(1), of tx] h(2,4) by simp
  with that[OF Inr[unfolded r] h(5)] show ?thesis by simp
qed

lemma handle_writer_progress:
  assumes "room_for (m # ms) d"
  shows "\<exists>d' reply frames. handle_writer d m True True = (d', reply, frames, True) \<and> room_for ms d'"
proof (cases m)
  case (AddMinecraftClient o1 tx)
  have "card (dom (get_by_id d)) < MAXIMUM_CLIENTS" "wf_distributor d"
    using assms by (auto simp: AddMinecraftClient room_for_def queued_adds_Cons[of _ ms]) (simp add: queued_adds_def)
  then obtain i d' where "distributor_insert d tx = Inr (i, d')" "wf_distributor d'"
    "card (dom (get_by_id d')) = Suc (card (dom (get_by_id d)))"
    using distributor_insert_fits by blast
  with assms show ?thesis
    by (simp add: AddMinecraftClient handle_writer_def writer_response_def room_for_def queued_adds_def)
next
  case (RemoveMinecraftClient i)
  have "card (dom (get_by_id (snd (remove_by_id d i)))) \<le> card (dom (get_by_id d))"
    using assms dist.card_clear[of d i] by (simp add: room_for_def)
  with assms dist.wf_clear[of d i] show ?thesis
    by (auto simp: RemoveMinecraftClient handle_writer_def writer_response_def room_for_def queued_adds_def
        split: prod.splits)
qed (use assms in \<open>auto simp: handle_writer_def writer_response_def room_for_def queued_adds_def\<close>)

subsection \<open>All that waits\<close>

definition writer_turns :: "nat \<Rightarrow> session_event list" where
  "writer_turns n = replicate n (WriterTurn True True)"

lemma enqueued_writer_turns [simp]: "enqueued (writer_turns n) = []"
  by (induction n) (simp_all add: writer_turns_def enqueued_def)

lemma fold_writer_turns:
  "s_running s \<Longrightarrow> s_queue s = ms \<Longrightarrow> room_for ms (s_dist s)
     \<Longrightarrow> s_running (fold session_step (writer_turns (length ms)) s)
       \<and> s_queue (fold session_step (writer_turns (length ms)) s) = []"
proof (induction ms arbitrary: s)
  case Nil
  then show ?case by (simp add: writer_turns_def)
next
  case (Cons m ms)
  obtain d reply frames where w: "handle_writer (s_dist s) m True True = (d, reply, frames, True)" "room_for ms d"
    using handle_writer_progress Cons.prems(3) by blast
  then have "s_running (session_step (WriterTurn True True) s)" "s_queue (session_step (WriterTurn True True) s) = ms"
    "room_for ms (s_dist (session_step (WriterTurn True True) s))"
    using Cons.prems(1,2) by (simp_all add: session_step_def)
  from Cons.IH[OF this] show ?case by (simp add: writer_turns_def)
qed

text \<open>
  C5. Nothing waits for ever. When a running session has room for the players that ask for an id,
  one turn of the writer for each waiting message empties the channel and keeps the session
  running: then all data ever put on the channel has been framed, every ping of the CraftIP client
  has its pong, and every player that asked has got its id, each in the order they came.
\<close>

theorem session_drains:
  assumes "s_running (session_run evs)"
    and "card (dom (get_by_id (s_dist (session_run evs)))) + length (queued_adds (s_queue (session_run evs)))
      \<le> MAXIMUM_CLIENTS"
    and "s' = session_run (evs @ writer_turns (length (s_queue (session_run evs))))"
  shows "s_running s' \<and> s_queue s' = [] \<and> data_frames (s_frames s') = queued_data (enqueued evs)
    \<and> pong_frames (s_frames s') = queued_pings (enqueued evs)
    \<and> map fst (s_ids s') = queued_adds (enqueued evs)"
proof -
  have "room_for (s_queue (session_run evs)) (s_dist (session_run evs))"
    using session_addressed[of evs] assms(1,2) by (simp add: room_for_def addressed_def)
  from fold_writer_turns[OF assms(1) refl this] have "s_running s'" "s_queue s' = []"
    by (simp_all add: assms(3) session_run_def)
  with session_fifo_inv[of "evs @ writer_turns (length (s_queue (session_run evs)))"] show ?thesis
    by (simp add: fifo_def flip: assms(3))
qed

text \<open>A player that waits for its id, with its first packet, and a ping of the client.\<close>

definition waiting_events :: "session_event list" where
  "waiting_events = [Enqueue (AddMinecraftClient 4 5), ReaderTurn (Incoming (Frame (ProxyPing 7))),
     Enqueue (Packet 0 [1, 2])]"

theorem session_drains_witness:
  "s_running (session_run (waiting_events @ writer_turns 3))
    \<and> s_queue (session_run (waiting_events @ writer_turns 3)) = []
    \<and> data_frames (s_frames (session_run (waiting_events @ writer_turns 3))) = [(0, [1, 2])]
    \<and> pong_frames (s_frames (session_run (waiting_events @ writer_turns 3))) = [7]
    \<and> map fst (s_ids (session_run (waiting_events @ writer_turns 3))) = [4]"
proof -
  have q: "s_queue (session_run waiting_events) = [AddMinecraftClient 4 5, AnswerPingPacket 7, Packet 0 [1, 2]]"
    "s_running (session_run waiting_events)" "s_dist (session_run waiting_events) = distributor_default"
    by (simp_all add: waiting_events_def session_run_def session_step_def session_new_def handle_reader_def
        apply_effect_def)
  have e: "enqueued waiting_events = [AddMinecraftClient 4 5, AnswerPingPacket 7, Packet 0 [1, 2]]"
    by (simp add: waiting_events_def enqueued_def)
  have "dom (get_by_id distributor_default) = {}"
    by (auto simp: get_by_id_def distributor_default_def)
  then have "card (dom (get_by_id (s_dist (session_run waiting_events))))
      + length (queued_adds (s_queue (session_run waiting_events))) \<le> MAXIMUM_CLIENTS"
    by (simp add: q queued_adds_def MAXIMUM_CLIENTS_def)
  moreover have "queued_data (enqueued waiting_events) = [(0, [1, 2])]"
    "queued_pings (enqueued waiting_events) = [7]" "queued_adds (enqueued waiting_events) = [4]"
    by (simp_all add: e history_defs)
  moreover have "length (s_queue (session_run waiting_events)) = 3" by (simp add: q)
  ultimately show ?thesis using session_drains[OF q(2) _ refl] by metis
qed

end
