(* ===== verification/Player_Arrival.thy ===== *)
theory Player_Arrival
  imports Tunnel Client_Handler
begin

text \<open>
  How a player gets from a host name to a session: the bytes a Minecraft client writes first, the
  parser of first packets (\<^verbatim>\<open>minecraft.rs\<close>), \<^verbatim>\<open>clean_up_hostname\<close> and the register (\<^verbatim>\<open>register.rs\<close>), the host
  name of a key (\<^verbatim>\<open>crypto.rs\<close>), and the handler of Minecraft clients (\<^verbatim>\<open>client_handler.rs\<close>).
\<close>

subsection \<open>Host names as players type them\<close>

definition plain :: "str \<Rightarrow> bool" where
  "plain s \<longleftrightarrow> list_all (\<lambda>b. b \<noteq> 0 \<and> unat b < 0x80) s"

lemma plain_simps [simp]:
  "plain []" "plain (b # s) \<longleftrightarrow> b \<noteq> 0 \<and> unat b < 0x80 \<and> plain s" "plain (s @ t) \<longleftrightarrow> plain s \<and> plain t"
  "plain (replicate n b) \<longleftrightarrow> n = 0 \<or> b \<noteq> 0 \<and> unat b < 0x80"
  by (auto simp: plain_def list_all_iff)

lemma plain_subset: "plain t \<Longrightarrow> set s \<subseteq> set t \<Longrightarrow> plain s"
  by (auto simp: plain_def list_all_iff)

lemma plain_hostname:
  assumes "ring_ok api"
  shows "plain (get_hostname api pk)"
proof -
  have "plain BASE36_ENCODER_STRING" "plain KEY_SERVER_SUFFIX"
    by (simp_all add: BASE36_ENCODER_STRING_def KEY_SERVER_SUFFIX_def str_lit_def)
  then show ?thesis
    using plain_subset[OF _ get_host_letters[OF assms]] by (simp add: get_hostname_def)
qed

lemma length_hostname: "ring_ok api \<Longrightarrow> length (get_hostname api pk) = 34"
  using length_get_host[of api pk] by (simp add: get_hostname_def KEY_SERVER_SUFFIX_def)

definition nocache_label :: "str \<Rightarrow> str" where
  "nocache_label label = str_lit ''random-'' @ label @ [0x2E]"

text \<open>
  What is typed: the host name, with dots behind it, perhaps with a label in front that gets around
  DNS caches. A Forge client adds its mark.
\<close>

definition typed_name :: "str option \<Rightarrow> str \<Rightarrow> nat \<Rightarrow> str" where
  "typed_name label host n = (case label of None \<Rightarrow> [] | Some l \<Rightarrow> nocache_label l) @ host @ replicate n 0x2E"

lemma plain_typed:
  "plain host \<Longrightarrow> (\<And>l. label = Some l \<Longrightarrow> plain l) \<Longrightarrow> plain (typed_name label host n)"
  by (auto simp: typed_name_def nocache_label_def str_lit_def split: option.splits)

lemma typed_name_found:
  assumes "ring_ok api" "\<And>l. label = Some l \<Longrightarrow> 0x2E \<notin> set l"
  shows "clean_up_hostname (typed_name label (get_hostname api pk) n) = get_hostname api pk"
proof (cases label)
  case None
  have "0x2E \<notin> set []" by simp
  from clean_up_finds_hostname[OF assms(1) this] show ?thesis by (simp add: typed_name_def None)
next
  case (Some l)
  from clean_up_finds_hostname[OF assms(1) assms(2)[OF this]] show ?thesis
    by (simp add: typed_name_def nocache_label_def Some)
qed

subsection \<open>The handshake of a player\<close>

lemma strip_mark:
  assumes "plain s" "mark = [] \<or> mark = FORGE_STRING"
  shows "strip_after_nul (s @ mark) = s" "utf8_valid (s @ mark)"
proof -
  have "0 \<notin> set s" using assms(1) by (auto simp: plain_def list_all_iff)
  then have "split_once 0 (s @ 0 # y) = Some (s, y)" "split_once 0 s = None" for y
    by (simp_all add: split_once_append split_once_None)
  then show "strip_after_nul (s @ mark) = s"
    using assms(2) by (auto simp: strip_after_nul_def FORGE_STRING_def)
  have "\<forall>b \<in> set (s @ mark). unat b < 0x80"
    using assms by (auto simp: plain_def list_all_iff FORGE_STRING_def str_lit_def)
  then show "utf8_valid (s @ mark)" by (rule utf8_valid_ascii)
qed

lemma handshake_short:
  assumes "length host \<le> 117" "next_state = 1 \<or> next_state = 2"
  shows "length (handshake_body version host prt next_state) < 128"
proof -
  have "length (put_varint next_state []) = 1"
    using assms(2) put_varint_small[of 1] put_varint_small[of 2] by auto
  moreover have "length (put_varint (of_nat (length host)) []) = 1"
    using assms(1) put_varint_small by simp
  ultimately show ?thesis
    using assms(1) length_put_varint[of version]
    by (simp add: handshake_body_def put_varint_zero put_utf8_string_def)
qed

lemma handshake_parsed:
  assumes "ring_ok api" "\<And>l. label = Some l \<Longrightarrow> plain l" "mark = [] \<or> mark = FORGE_STRING"
    and "next_state = 1 \<or> next_state = 2"
    and "length (typed_name label (get_hostname api pk) n @ mark) \<le> 117"
  shows "\<exists>packet. hello_new (handshake version (typed_name label (get_hostname api pk) n @ mark) prt next_state @ rest)
      = Parsed packet \<and> hostname_hello packet = typed_name label (get_hostname api pk) n"
proof -
  let ?typed = "typed_name label (get_hostname api pk) n"
  have "plain ?typed" using plain_typed[OF plain_hostname[OF assms(1)] assms(2)] .
  note m = strip_mark[OF this assms(3)]
  have "length (?typed @ mark) < 2 ^ 30" using assms(5) by simp
  from handshake_read[OF m(2) this assms(4)] handshake_short[OF assms(5,4)] m(1) show ?thesis by simp
qed

subsection \<open>Arrival\<close>

definition serves :: "system \<Rightarrow> str \<Rightarrow> channel \<Rightarrow> bool" where
  "serves sys h c \<longleftrightarrow> (\<exists>pc s. sys_conns sys c = Serving pc s \<and> pc_hostname pc = h)"

text \<open>
  What the handler does once it knows the packet, when nothing fails: \<open>first\<close> is all it has read.
\<close>

lemma handle_minecraft_client_first:
  assumes "first_minecraft_packet (env_first env) = Some (Inr (packet, first))"
    and "env_addr_ok env" "env_add_ok env" "env_data_ok env" "env_reply env = Some i"
  shows "handle_minecraft_client r env =
    (case get_server r (clean_up_hostname (hostname_hello packet)) of
       None \<Rightarrow> (NotOnline packet first, [], [])
     | Some c \<Rightarrow> (Served \<lparr>mc_proxy_tx = c, mc_rx = env_channel env, mc_id = i,
           mc_hostname = clean_up_hostname (hostname_hello packet)\<rparr>, [AddClient, RemoveClient],
         [AddMinecraftClient (env_oneshot env) (env_channel env), Packet i first]
           @ fst (client_reader i (env_reads env)) @ [RemoveMinecraftClient i]))"
  using assms
  by (simp add: handle_minecraft_client_def mc_client_new_def mc_client_handle_def Let_def split: option.split)

lemma player_arrives:
  assumes "ring_ok api" "sys_reach api tr sys"
    and "list_all (\<lambda>b. b \<noteq> 0x2E \<and> b \<noteq> 0 \<and> unat b < 0x80) (case label of None \<Rightarrow> [] | Some l \<Rightarrow> l)"
    and "mark \<in> {[], FORGE_STRING}" "next_state \<in> {1, 2}"
    and "length (typed_name label (get_hostname api pk) n @ mark) \<le> 117"
    and "concat chunks = handshake version (typed_name label (get_hostname api pk) n @ mark) prt next_state @ rest"
    and "env_first env = map ReadOk chunks"
    and "env_addr_ok env" "env_add_ok env" "env_data_ok env" "env_reply env = Some i"
  shows "\<exists>packet k. k \<le> length chunks
    \<and> (\<forall>c. serves sys (get_hostname api pk) c \<longrightarrow> handle_minecraft_client (sys_register sys) env =
        (Served \<lparr>mc_proxy_tx = c, mc_rx = env_channel env, mc_id = i, mc_hostname = get_hostname api pk\<rparr>,
         [AddClient, RemoveClient],
         [AddMinecraftClient (env_oneshot env) (env_channel env), Packet i (concat (take k chunks))]
           @ fst (client_reader i (env_reads env)) @ [RemoveMinecraftClient i]))
    \<and> ((\<forall>c. \<not> serves sys (get_hostname api pk) c) \<longrightarrow>
        handle_minecraft_client (sys_register sys) env = (NotOnline packet (concat (take k chunks)), [], []))"
proof -
  let ?host = "get_hostname api pk"
  have label: "plain l" "0x2E \<notin> set l" if "label = Some l" for l
    using assms(3) that by (auto simp: plain_def list_all_iff)
  obtain packet where p: "hello_new (concat chunks) = Parsed packet" "hostname_hello packet = typed_name label ?host n"
    using handshake_parsed[OF assms(1) label(1) _ _ assms(6), of next_state version prt rest] assms(4,5,7) by auto
  obtain k where k: "k \<le> length chunks"
    "first_minecraft_packet (env_first env) = Some (Inr (packet, concat (take k chunks)))"
    using first_packet_read[OF p(1)] assms(8) by auto
  have host: "clean_up_hostname (hostname_hello packet) = ?host"
    using typed_name_found[OF assms(1) label(2)] p(2) by simp
  have reg: "get_server (sys_register sys) ?host = Some c \<longleftrightarrow> serves sys ?host c" for c
    using sys_reach_consistent[OF assms(2)] by (auto simp: consistent_def owners_def serves_def)
  have none: "get_server (sys_register sys) ?host = None" if "\<forall>c. \<not> serves sys ?host c"
    using that reg by (metis not_None_eq)
  note h = handle_minecraft_client_first[OF k(2) assms(9-12), of "sys_register sys", unfolded host]
  show ?thesis
  proof (intro exI[of _ packet] exI[of _ k] conjI allI impI)
    fix c
    assume "serves sys ?host c"
    then have "get_server (sys_register sys) ?host = Some c" using reg by blast
    with h show "handle_minecraft_client (sys_register sys) env =
        (Served \<lparr>mc_proxy_tx = c, mc_rx = env_channel env, mc_id = i, mc_hostname = ?host\<rparr>,
         [AddClient, RemoveClient],
         [AddMinecraftClient (env_oneshot env) (env_channel env), Packet i (concat (take k chunks))]
           @ fst (client_reader i (env_reads env)) @ [RemoveMinecraftClient i])"
      by simp
  qed (use none k(1) h in simp_all)
qed

text \<open>
  C11. A player reaches the owner of the key: in every reachable state of the proxy, a player that
  types the host name of a key, with or without dots behind it, a \<^verbatim>\<open>random-\<close> label in front, or
  Forge, and whose client sends a handshake that TCP may cut anywhere, is handed to exactly the
  connection that serves this host name, and the session gets all that was read as its first data;
  when no connection serves it, the player gets the answer of an offline server. A name of up to 117 bytes is short enough
  for the length that \<^verbatim>\<open>new_packet\<close> refuses.
\<close>

theorem player_reaches_owner:
  assumes "ring_ok api" "sys_reach api tr sys"
    and "list_all (\<lambda>b. b \<noteq> 0x2E \<and> b \<noteq> 0 \<and> unat b < 0x80) (case label of None \<Rightarrow> [] | Some l \<Rightarrow> l)"
    and "mark \<in> {[], FORGE_STRING}" "next_state \<in> {1, 2}"
    and "length (typed_name label (get_hostname api pk) n @ mark) \<le> 117"
    and "concat chunks = handshake version (typed_name label (get_hostname api pk) n @ mark) prt next_state @ rest"
    and "env_first env = map ReadOk chunks"
    and "env_addr_ok env" "env_add_ok env" "env_data_ok env" "env_reply env = Some i"
  shows "\<exists>packet k. k \<le> length chunks
    \<and> (\<forall>c. serves sys (get_hostname api pk) c \<longrightarrow> handle_minecraft_client (sys_register sys) env =
        (Served \<lparr>mc_proxy_tx = c, mc_rx = env_channel env, mc_id = i, mc_hostname = get_hostname api pk\<rparr>,
         [AddClient, RemoveClient],
         [AddMinecraftClient (env_oneshot env) (env_channel env), Packet i (concat (take k chunks))]
           @ fst (client_reader i (env_reads env)) @ [RemoveMinecraftClient i]))
    \<and> ((\<forall>c. \<not> serves sys (get_hostname api pk) c) \<longrightarrow>
        handle_minecraft_client (sys_register sys) env = (NotOnline packet (concat (take k chunks)), [], []))"
  using assms by (rule player_arrives)

text \<open>A player with a label, a dot and Forge, whose handshake arrives in two pieces.\<close>

definition arrival_name :: str where
  "arrival_name = typed_name (Some (str_lit ''ab12'')) (get_hostname sample_api sample_public) 1 @ FORGE_STRING"

definition arrival_env :: mc_env where
  "arrival_env = \<lparr>env_first = map ReadOk [take 9 (handshake 767 arrival_name 25565 2),
       drop 9 (handshake 767 arrival_name 25565 2)], env_addr_ok = True, env_oneshot = 4, env_channel = 5,
     env_add_ok = True, env_reply = Some 0, env_data_ok = True, env_reads = [(Read (ReadOk [1, 2]), True)]\<rparr>"

lemma arrival_served:
  "\<exists>first. handle_minecraft_client (sys_register sample_serving) arrival_env =
     (Served \<lparr>mc_proxy_tx = 3, mc_rx = 5, mc_id = 0, mc_hostname = get_hostname sample_api sample_public\<rparr>,
      [AddClient, RemoveClient],
      [AddMinecraftClient 4 5, Packet 0 first, Packet 0 [1, 2], RemoveMinecraftClient 0])"
proof -
  have label: "list_all (\<lambda>b. b \<noteq> 0x2E \<and> b \<noteq> 0 \<and> unat b < 0x80)
      (case Some (str_lit ''ab12'') of None \<Rightarrow> [] | Some l \<Rightarrow> l)"
    by (simp add: str_lit_def)
  have short: "length (typed_name (Some (str_lit ''ab12'')) (get_hostname sample_api sample_public) 1 @ FORGE_STRING) \<le> 117"
    using length_hostname[OF ring_ok_sample, of sample_public]
    by (simp add: typed_name_def nocache_label_def FORGE_STRING_def)
  have chunks: "concat [take 9 (handshake 767 arrival_name 25565 2), drop 9 (handshake 767 arrival_name 25565 2)]
      = handshake 767 (typed_name (Some (str_lit ''ab12'')) (get_hostname sample_api sample_public) 1
          @ FORGE_STRING) 25565 2 @ []"
    by (simp add: arrival_name_def)
  have env: "env_first arrival_env = map ReadOk [take 9 (handshake 767 arrival_name 25565 2),
      drop 9 (handshake 767 arrival_name 25565 2)]" "env_addr_ok arrival_env" "env_add_ok arrival_env"
    "env_data_ok arrival_env" "env_reply arrival_env = Some 0"
    by (simp_all add: arrival_env_def)
  have "serves sample_serving (get_hostname sample_api sample_public) 3"
    by (auto simp: serves_def sample_serving_def sample_ready_def)
  moreover have "FORGE_STRING \<in> {[], FORGE_STRING}" "(2 :: i32) \<in> {1, 2}" by simp_all
  ultimately show ?thesis
    using player_arrives[OF ring_ok_sample sample_reach_serving label _ _ short chunks env]
    by (auto simp: arrival_env_def)
qed

theorem player_reaches_owner_witness:
  "\<exists>first. handle_minecraft_client (sys_register sample_serving) arrival_env =
     (Served \<lparr>mc_proxy_tx = 3, mc_rx = 5, mc_id = 0, mc_hostname = get_hostname sample_api sample_public\<rparr>,
      [AddClient, RemoveClient],
      [AddMinecraftClient 4 5, Packet 0 first, Packet 0 [1, 2], RemoveMinecraftClient 0])"
proof -
  have label: "list_all (\<lambda>b. b \<noteq> 0x2E \<and> b \<noteq> 0 \<and> unat b < 0x80)
      (case Some (str_lit ''ab12'') of None \<Rightarrow> [] | Some l \<Rightarrow> l)"
    by (simp add: str_lit_def)
  have short: "length (typed_name (Some (str_lit ''ab12'')) (get_hostname sample_api sample_public) 1 @ FORGE_STRING) \<le> 117"
    using length_hostname[OF ring_ok_sample, of sample_public]
    by (simp add: typed_name_def nocache_label_def FORGE_STRING_def)
  have chunks: "concat [take 9 (handshake 767 arrival_name 25565 2), drop 9 (handshake 767 arrival_name 25565 2)]
      = handshake 767 (typed_name (Some (str_lit ''ab12'')) (get_hostname sample_api sample_public) 1
          @ FORGE_STRING) 25565 2 @ []"
    by (simp add: arrival_name_def)
  have env: "env_first arrival_env = map ReadOk [take 9 (handshake 767 arrival_name 25565 2),
      drop 9 (handshake 767 arrival_name 25565 2)]" "env_addr_ok arrival_env" "env_add_ok arrival_env"
    "env_data_ok arrival_env" "env_reply arrival_env = Some 0"
    by (simp_all add: arrival_env_def)
  have "serves sample_serving (get_hostname sample_api sample_public) 3"
    by (auto simp: serves_def sample_serving_def sample_ready_def)
  moreover have "FORGE_STRING \<in> {[], FORGE_STRING}" "(2 :: i32) \<in> {1, 2}" by simp_all
  ultimately show ?thesis
    using player_reaches_owner[OF ring_ok_sample sample_reach_serving label _ _ short chunks env]
    by (auto simp: arrival_env_def)
qed

subsection \<open>A peer that closes too early\<close>

text \<open>
  A read of zero bytes does not end the loop of \<^verbatim>\<open>first_minecraft_packet\<close>: a peer that closes before
  its packet is complete makes it read again and again, without a pause, until the timeout.
\<close>

lemma closed_peer_spins:
  assumes "\<And>packet. hello_new buf \<noteq> Parsed packet"
  shows "first_packet_loop buf (replicate n (ReadOk []) @ rs) = first_packet_loop buf rs"
  using assms by (induction n) (auto simp: Let_def split: outcome.splits)

end
