(* ===== verification/Buffered_File.thy ===== *)
theory Buffered_File
  imports Prelude
begin

text \<open>
  What \<^verbatim>\<open>updater_proto.rs\<close> and the update tool use of \<^verbatim>\<open>std::io::BufWriter\<close> over a \<^verbatim>\<open>File\<close>: data
  is collected in a buffer of 8192 bytes and handed to the file when the buffer is full. When the
  writer is dropped it flushes the rest, and the result of that last flush is lost.
\<close>

subsection \<open>Files\<close>

text \<open>
  A file that is written has the bytes that reached it, and it takes \<open>file_room\<close> bytes in all
  before writing fails, with a full disk for example; \<open>None\<close> is a file to which every write succeeds.
\<close>

record out_file =
  file_bytes :: bytes
  file_room :: "nat option"

definition file_create :: "nat option \<Rightarrow> out_file" where
  "file_create room = \<lparr>file_bytes = [], file_room = room\<rparr>"

text \<open>\<^verbatim>\<open>File::write_all\<close>; a write that fails has written what there was room for.\<close>

definition file_write_all :: "bytes \<Rightarrow> out_file \<Rightarrow> bool \<times> out_file" where
  "file_write_all bs f = (case file_room f of
     None \<Rightarrow> (True, f\<lparr>file_bytes := file_bytes f @ bs\<rparr>)
   | Some m \<Rightarrow> (length (file_bytes f @ bs) \<le> m, f\<lparr>file_bytes := take m (file_bytes f @ bs)\<rparr>))"

subsection \<open>The buffered writer\<close>

record buf_writer =
  bw_buffer :: bytes
  bw_file :: out_file

definition BUF_CAPACITY :: nat where
  "BUF_CAPACITY = 8192"

definition buf_writer_new :: "out_file \<Rightarrow> buf_writer" where
  "buf_writer_new f = \<lparr>bw_buffer = [], bw_file = f\<rparr>"

definition spare_capacity :: "buf_writer \<Rightarrow> nat" where
  "spare_capacity w = BUF_CAPACITY - length (bw_buffer w)"

text \<open>\<^verbatim>\<open>flush_buf\<close>: what could not be written stays in the buffer.\<close>

definition flush_buf :: "buf_writer \<Rightarrow> bool \<times> buf_writer" where
  "flush_buf w = (case file_write_all (bw_buffer w) (bw_file w) of (ok, f) \<Rightarrow>
     (ok, \<lparr>bw_buffer = drop (length (file_bytes f) - length (file_bytes (bw_file w))) (bw_buffer w),
           bw_file = f\<rparr>))"

definition buf_write_all :: "bytes \<Rightarrow> buf_writer \<Rightarrow> bool \<times> buf_writer" where
  "buf_write_all bs w =
    (if length bs < spare_capacity w then (True, w\<lparr>bw_buffer := bw_buffer w @ bs\<rparr>)
     else (case (if spare_capacity w < length bs then flush_buf w else (True, w)) of
         (False, w') \<Rightarrow> (False, w')
       | (True, w') \<Rightarrow>
           if BUF_CAPACITY \<le> length bs
           then (case file_write_all bs (bw_file w') of (ok, f) \<Rightarrow> (ok, w'\<lparr>bw_file := f\<rparr>))
           else (True, w'\<lparr>bw_buffer := bw_buffer w' @ bs\<rparr>)))"

text \<open>\<^verbatim>\<open>drop\<close> flushes and ignores whether that worked: the file that is left.\<close>

definition buf_writer_drop :: "buf_writer \<Rightarrow> out_file" where
  "buf_writer_drop w = bw_file (snd (flush_buf w))"

text \<open>The loops of the source that hand one piece after the other to \<^verbatim>\<open>write_all\<close> and stop at an error.\<close>

fun write_pieces :: "bytes list \<Rightarrow> buf_writer \<Rightarrow> bool \<times> buf_writer" where
  "write_pieces [] w = (True, w)"
| "write_pieces (p # ps) w =
     (case buf_write_all p w of (False, w') \<Rightarrow> (False, w') | (True, w') \<Rightarrow> write_pieces ps w')"

subsection \<open>What reaches the file\<close>

definition fits :: "nat option \<Rightarrow> nat \<Rightarrow> bool" where
  "fits room n = (case room of None \<Rightarrow> True | Some m \<Rightarrow> n \<le> m)"

definition cut_at :: "nat option \<Rightarrow> bytes \<Rightarrow> bytes" where
  "cut_at room bs = (case room of None \<Rightarrow> bs | Some m \<Rightarrow> take m bs)"

lemma file_write_all_eq:
  "fits (file_room f) (length (file_bytes f)) \<Longrightarrow> file_write_all bs f =
     (fits (file_room f) (length (file_bytes f @ bs)),
      f\<lparr>file_bytes := cut_at (file_room f) (file_bytes f @ bs)\<rparr>)"
  by (simp add: file_write_all_def fits_def cut_at_def split: option.splits)

lemma cut_at_fits: "fits room (length bs) \<Longrightarrow> cut_at room bs = bs"
  by (simp add: cut_at_def fits_def split: option.splits)

lemma fits_mono: "fits room n \<Longrightarrow> m \<le> n \<Longrightarrow> fits room m"
  by (simp add: fits_def split: option.splits)

text \<open>All bytes that were given to the writer, and the states it can be in.\<close>

definition bw_data :: "buf_writer \<Rightarrow> bytes" where
  "bw_data w = file_bytes (bw_file w) @ bw_buffer w"

definition bw_ok :: "buf_writer \<Rightarrow> bool" where
  "bw_ok w \<longleftrightarrow> length (bw_buffer w) \<le> BUF_CAPACITY
     \<and> fits (file_room (bw_file w)) (length (file_bytes (bw_file w)))"

lemma buf_writer_new_ok [simp]: "bw_ok (buf_writer_new (file_create room))"
  "bw_data (buf_writer_new (file_create room)) = []"
  "file_room (bw_file (buf_writer_new (file_create room))) = room"
  by (simp_all add: bw_ok_def bw_data_def buf_writer_new_def file_create_def fits_def split: option.splits)

lemma flush_buf_True:
  assumes "bw_ok w"
  shows "fst (flush_buf w) = fits (file_room (bw_file w)) (length (bw_data w))"
    and "fst (flush_buf w) \<Longrightarrow> flush_buf w =
      (True, \<lparr>bw_buffer = [], bw_file = (bw_file w)\<lparr>file_bytes := bw_data w\<rparr>\<rparr>)"
  using assms by (auto simp: flush_buf_def bw_ok_def bw_data_def file_write_all_eq cut_at_fits)

lemma buf_write_all_True:
  assumes "bw_ok w" "buf_write_all bs w = (True, w')"
  shows "bw_ok w' \<and> bw_data w' = bw_data w @ bs \<and> file_room (bw_file w') = file_room (bw_file w)"
proof (cases "length bs \<le> spare_capacity w")
  case True
  then have w': "w' = (if BUF_CAPACITY \<le> length bs \<and> length bs = spare_capacity w
      then w\<lparr>bw_file := snd (file_write_all bs (bw_file w))\<rparr>
      else w\<lparr>bw_buffer := bw_buffer w @ bs\<rparr>)"
    "BUF_CAPACITY \<le> length bs \<and> length bs = spare_capacity w \<Longrightarrow> fst (file_write_all bs (bw_file w))"
    using assms(2) by (auto simp: buf_write_all_def split: if_splits prod.splits)
  show ?thesis
  proof (cases "BUF_CAPACITY \<le> length bs \<and> length bs = spare_capacity w")
    case True
    then have "bw_buffer w = []" by (cases "bw_buffer w") (auto simp: spare_capacity_def BUF_CAPACITY_def)
    with True w' assms(1) show ?thesis
      by (auto simp: bw_ok_def bw_data_def file_write_all_eq cut_at_fits)
  next
    case False
    with True w' assms(1) show ?thesis by (auto simp: bw_ok_def bw_data_def spare_capacity_def)
  qed
next
  case False
  then have "fst (flush_buf w)"
    using assms(2) by (auto simp: buf_write_all_def split: if_splits prod.splits bool.splits)
  note fl = flush_buf_True(1)[OF assms(1)] flush_buf_True(2)[OF assms(1) this]
  let ?f = "(bw_file w)\<lparr>file_bytes := bw_data w\<rparr>"
  have "fits (file_room ?f) (length (file_bytes ?f))" using fl(1) \<open>fst (flush_buf w)\<close> by simp
  then show ?thesis using assms(2) False fl(2)
    by (auto simp: buf_write_all_def bw_ok_def bw_data_def file_write_all_eq cut_at_fits
        split: if_splits)
qed

text \<open>A piece is accepted when what was given before fits: the piece itself may stay in the buffer.\<close>

lemma buf_write_all_accepts:
  assumes "bw_ok w" "fits (file_room (bw_file w)) (length (bw_data w))" "length bs < BUF_CAPACITY"
  shows "fst (buf_write_all bs w)"
  using assms flush_buf_True[OF assms(1)] by (auto simp: buf_write_all_def split: prod.splits bool.splits)

lemma write_pieces_True:
  assumes "bw_ok w" "write_pieces ps w = (True, w')"
  shows "bw_ok w' \<and> bw_data w' = bw_data w @ concat ps \<and> file_room (bw_file w') = file_room (bw_file w)"
  using assms
proof (induction ps arbitrary: w)
  case (Cons p ps)
  then obtain w1 where w1: "buf_write_all p w = (True, w1)" "write_pieces ps w1 = (True, w')"
    by (auto split: prod.splits bool.splits)
  from buf_write_all_True[OF Cons.prems(1) w1(1)] Cons.IH[OF _ w1(2)] show ?case by simp
qed simp

lemma write_pieces_accepts:
  assumes "bw_ok w" "\<And>p. p \<in> set (ps @ [q]) \<Longrightarrow> length p < BUF_CAPACITY"
    and "fits (file_room (bw_file w)) (length (bw_data w @ concat ps))"
  shows "fst (write_pieces (ps @ [q]) w)"
  using assms
proof (induction ps arbitrary: w)
  case Nil
  then show ?case using buf_write_all_accepts[of w q] by (auto split: prod.splits bool.splits)
next
  case (Cons p ps)
  have "fst (buf_write_all p w)"
    using Cons.prems by (intro buf_write_all_accepts) (auto elim: fits_mono)
  then obtain w1 where w1: "buf_write_all p w = (True, w1)" by (cases "buf_write_all p w") auto
  from buf_write_all_True[OF Cons.prems(1) w1] have "fst (write_pieces (ps @ [q]) w1)"
    using Cons.prems by (intro Cons.IH) auto
  with w1 show ?case by simp
qed

lemma buf_writer_drop_bytes:
  assumes "bw_ok w"
  shows "file_bytes (buf_writer_drop w) = cut_at (file_room (bw_file w)) (bw_data w)"
  using assms by (simp add: buf_writer_drop_def flush_buf_def bw_ok_def bw_data_def file_write_all_eq)

text \<open>
  What a loop of writes without an error leaves behind once the writer is dropped: all the data, or
  the data up to the point where the last flush failed, which is inside the last buffer.
\<close>

lemma written_file:
  assumes "write_pieces ps (buf_writer_new (file_create room)) = (True, w)"
  shows "file_bytes (buf_writer_drop w) = cut_at room (concat ps)"
    and "room = Some m \<Longrightarrow> length (concat ps) \<le> m + BUF_CAPACITY"
proof -
  note w = write_pieces_True[OF buf_writer_new_ok(1) assms]
  then show "file_bytes (buf_writer_drop w) = cut_at room (concat ps)"
    by (simp add: buf_writer_drop_bytes)
  assume "room = Some m"
  with w have "length (file_bytes (bw_file w)) \<le> m" "length (bw_buffer w) \<le> BUF_CAPACITY"
    "bw_data w = concat ps"
    by (auto simp: bw_ok_def fits_def)
  then have "length (file_bytes (bw_file w)) \<le> m" "length (bw_buffer w) \<le> BUF_CAPACITY"
    "file_bytes (bw_file w) @ bw_buffer w = concat ps"
    by (simp_all add: bw_data_def)
  then show "length (concat ps) \<le> m + BUF_CAPACITY" by (metis add_mono length_append)
qed

lemma written_without_failure:
  assumes "\<And>p. p \<in> set ps \<Longrightarrow> length p < BUF_CAPACITY" "fits room (length (concat ps))"
  obtains w where "write_pieces ps (buf_writer_new (file_create room)) = (True, w)"
    "file_bytes (buf_writer_drop w) = concat ps"
proof -
  have "fst (write_pieces ps (buf_writer_new (file_create room)))"
  proof (cases ps rule: rev_cases)
    case (snoc qs q)
    then show ?thesis using assms
      by (simp only: snoc, intro write_pieces_accepts) (auto elim: fits_mono)
  qed simp
  then obtain w where w: "write_pieces ps (buf_writer_new (file_create room)) = (True, w)"
    by (cases "write_pieces ps (buf_writer_new (file_create room))") auto
  with written_file(1)[OF w] assms(2) that show thesis by (simp add: cut_at_fits)
qed

text \<open>A failure that hits only the last piece goes unnoticed.\<close>

lemma written_truncated:
  assumes "\<And>p. p \<in> set (ps @ [q]) \<Longrightarrow> length p < BUF_CAPACITY"
    and "length (concat ps) \<le> m"
  obtains w where "write_pieces (ps @ [q]) (buf_writer_new (file_create (Some m))) = (True, w)"
    "file_bytes (buf_writer_drop w) = take m (concat (ps @ [q]))"
proof -
  have "fst (write_pieces (ps @ [q]) (buf_writer_new (file_create (Some m))))"
    using assms by (intro write_pieces_accepts) (auto simp: fits_def)
  then obtain w where w: "write_pieces (ps @ [q]) (buf_writer_new (file_create (Some m))) = (True, w)"
    by (cases "write_pieces (ps @ [q]) (buf_writer_new (file_create (Some m)))") auto
  with written_file(1)[OF w] that show thesis by (simp add: cut_at_def)
qed

end
