(* ===== verification/Updater.thy ===== *)
theory Updater
  imports Crypto Buffered_File
begin

text \<open>
  The self-update of the client: \<^verbatim>\<open>crates/updater/src/updater.rs\<close> and \<^verbatim>\<open>updater_proto.rs\<close>, and the
  tool that builds releases, \<^verbatim>\<open>util/update-tool/src/main.rs\<close>. The crates ring, base64, semver and
  liblzma are the parameter \<open>api\<close>; the network and the file system are inputs of each run.
\<close>

subsection \<open>The libraries\<close>

record 'v update_api =
  sha512 :: "bytes \<Rightarrow> bytes"
  ed_verify :: "bytes \<Rightarrow> bytes \<Rightarrow> bytes \<Rightarrow> bool"
  ed_sign :: "bytes \<Rightarrow> bytes \<Rightarrow> bytes"
  ed_public :: "bytes \<Rightarrow> bytes option"
  base64_decode :: "str \<Rightarrow> bytes option"
  base64_encode :: "bytes \<Rightarrow> str"
  version_parse :: "str \<Rightarrow> 'v option"
  version_ge :: "'v \<Rightarrow> 'v \<Rightarrow> bool"
  xz_reads :: "bytes \<Rightarrow> bytes list \<times> bool"
  xz_pieces :: "bytes \<Rightarrow> bytes list"

text \<open>
  The decoder \<open>xz_reads\<close> gives the pieces that reads with a buffer of 1024 bytes return for an
  archive, and whether they end with \<^verbatim>\<open>Ok(0)\<close> rather than an error; the encoder \<open>xz_pieces\<close> gives those
  of the archive it makes. Put together:
\<close>

definition xz_decode :: "'v update_api \<Rightarrow> bytes \<Rightarrow> bytes option" where
  "xz_decode api bs = (case xz_reads api bs of
     (pieces, ended) \<Rightarrow> if ended then Some (concat pieces) else None)"

definition xz_encode :: "'v update_api \<Rightarrow> bytes \<Rightarrow> bytes" where
  "xz_encode api bs = concat (xz_pieces api bs)"

text \<open>
  What is relied on: a read fills at most the buffer it is given, a digest has 64 bytes, signatures of a key pair verify under its public key,
  and base64 and xz are decoded back. \<open>ed_public\<close> is the key pair a PKCS8 document holds, if any.
\<close>

definition update_api_ok :: "'v update_api \<Rightarrow> bool" where
  "update_api_ok api \<longleftrightarrow>
     (\<forall>bs. \<forall>p \<in> set (fst (xz_reads api bs)) \<union> set (xz_pieces api bs). p \<noteq> [] \<and> length p \<le> 1024)
   \<and> (\<forall>bs. length (sha512 api bs) = 64)
   \<and> (\<forall>key pk m. ed_public api key = Some pk \<longrightarrow> ed_verify api pk m (ed_sign api key m))
   \<and> (\<forall>bs. base64_decode api (base64_encode api bs) = Some bs)
   \<and> (\<forall>bs. xz_decode api (xz_encode api bs) = Some bs)"

definition DISTRIBUTION_PUBLIC_KEY :: bytes where
  "DISTRIBUTION_PUBLIC_KEY =
    [0x56, 0x6c, 0xea, 0xad, 0xff, 0x19, 0xcc, 0xd6, 0xe3, 0x95, 0xf6, 0xd8, 0xb1, 0x45, 0x4e, 0x8a,
     0x54, 0x7e, 0xd4, 0x92, 0xfb, 0x0d, 0x1b, 0xc2, 0xfd, 0x8e, 0x28, 0x78, 0x82, 0x1e, 0xc5, 0x77]"

subsection \<open>Releases\<close>

record target =
  target_name :: str
  target_url :: str
  target_signature :: str
  target_size :: nat

record latest_release =
  release_version :: str
  release_changelog :: str
  release_timestamp :: nat
  release_targets :: "target list"

datatype updater_error =
    RequestError
  | ParsingError
  | CouldNotParseVersion
  | TargetNotFound
  | UpdateIoError
  | Base64DecodeError
  | SignatureMatchFailed
  | DecompressionFailed
  | ReplaceFailed
  | RestartFailed

definition SIGNATURE_SEPARATOR_NONCE :: str where
  "SIGNATURE_SEPARATOR_NONCE = str_lit ''CraftIPVersion''"

definition get_bytes_for_signature :: "bytes \<Rightarrow> str \<Rightarrow> bytes" where
  "get_bytes_for_signature hash version = hash @ (SIGNATURE_SEPARATOR_NONCE @ version)"

definition verify_signature :: "'v update_api \<Rightarrow> bytes \<Rightarrow> str \<Rightarrow> str \<Rightarrow> updater_error + unit" where
  "verify_signature api hash version signature =
    (let to_be_checked = get_bytes_for_signature hash version in
     case base64_decode api signature of
       None \<Rightarrow> Inl Base64DecodeError
     | Some remote_signature \<Rightarrow>
         if ed_verify api DISTRIBUTION_PUBLIC_KEY to_be_checked remote_signature then Inr ()
         else Inl SignatureMatchFailed)"

text \<open>
  What the file system does while an archive is unpacked: whether the two files can be opened, after
  how many reads the archive cannot be read any more, and how much of the output it takes.
\<close>

record unpack_io =
  up_open_ok :: bool
  up_read_fail :: "nat option"
  up_room :: "nat option"

definition smooth_unpack :: unpack_io where
  "smooth_unpack = \<lparr>up_open_ok = True, up_read_fail = None, up_room = None\<rparr>"

text \<open>The answers of the decoder up to the first failure, and whether they end with \<^verbatim>\<open>Ok(0)\<close>.\<close>

definition archive_reads :: "'v update_api \<Rightarrow> bytes \<Rightarrow> nat option \<Rightarrow> bytes list \<times> bool" where
  "archive_reads api source read_fail = (case xz_reads api source of (pieces, ended) \<Rightarrow>
     (case read_fail of
        None \<Rightarrow> (pieces, ended)
      | Some n \<Rightarrow> (take n pieces, ended \<and> length pieces < n)))"

text \<open>
  \<^verbatim>\<open>decompress\<close>: the pieces go through a buffered writer, which is never flushed but by its \<^verbatim>\<open>drop\<close>. The
  result of \<^verbatim>\<open>Ok(())\<close> is what is then in the file.
\<close>

definition decompress :: "'v update_api \<Rightarrow> bytes \<Rightarrow> unpack_io \<Rightarrow> updater_error + bytes" where
  "decompress api source io =
    (if \<not> up_open_ok io then Inl UpdateIoError
     else
       let (pieces, ended) = archive_reads api source (up_read_fail io);
           output = buf_writer_new (file_create (up_room io))
       in case write_pieces pieces output of
           (False, output') \<Rightarrow> Inl UpdateIoError
         | (True, output') \<Rightarrow>
             if \<not> ended then Inl DecompressionFailed
             else Inr (file_bytes (buf_writer_drop output')))"

subsection \<open>The updater\<close>

record updater =
  u_target :: target
  u_version :: str
  u_changelog :: str

record update_info =
  info_version :: str
  info_changelog :: str
  info_size :: nat

datatype release_response = NoResponse | BadJson | Release latest_release

text \<open>\<^verbatim>\<open>Updater::new\<close>; the outer \<open>None\<close> is the panic on an own version that does not parse.\<close>

definition updater_new ::
  "'v update_api \<Rightarrow> str \<Rightarrow> str \<Rightarrow> release_response \<Rightarrow> (updater_error + updater option) option" where
  "updater_new api current_version platform resp = (case resp of
     NoResponse \<Rightarrow> Some (Inl RequestError)
   | BadJson \<Rightarrow> Some (Inl ParsingError)
   | Release release \<Rightarrow>
      (case version_parse api (release_version release) of
         None \<Rightarrow> Some (Inl CouldNotParseVersion)
       | Some version \<Rightarrow>
         (case version_parse api current_version of
            None \<Rightarrow> None
          | Some current \<Rightarrow>
             if version_ge api current version then Some (Inr None)
             else (case find (\<lambda>t. target_name t = platform) (release_targets release) of
                 None \<Rightarrow> Some (Inl TargetNotFound)
               | Some t \<Rightarrow> Some (Inr (Some \<lparr>u_target = t, u_version = release_version release,
                                            u_changelog = release_changelog release\<rparr>))))))"

definition get_update_info :: "updater \<Rightarrow> update_info" where
  "get_update_info u = \<lparr>info_version = u_version u, info_changelog = u_changelog u,
     info_size = target_size (u_target u)\<rparr>"

text \<open>
  The download loop: every buffer that is read goes into the hash and into the file, an empty one
  is the end. \<open>None\<close> in the list is a read error, \<open>False\<close> a failed write; the result is what was
  hashed and what was written, or \<open>None\<close> while the download goes on.
\<close>

fun download_loop ::
  "bytes \<Rightarrow> bytes \<Rightarrow> (bytes option \<times> bool) list \<Rightarrow> (updater_error + bytes \<times> bytes) option" where
  "download_loop hashed out [] = None"
| "download_loop hashed out ((None, ok) # rs) = Some (Inl UpdateIoError)"
| "download_loop hashed out ((Some buf, ok) # rs) =
     (let hashed' = hashed @ buf in
      if \<not> ok then Some (Inl UpdateIoError)
      else let out' = out @ buf in
        if buf = [] then Some (Inr (hashed', out')) else download_loop hashed' out' rs)"

record update_env =
  ue_tempdir_ok :: bool
  ue_request_ok :: bool
  ue_create_ok :: bool
  ue_reads :: "(bytes option \<times> bool) list"
  ue_unpack :: unpack_io
  ue_replace_ok :: bool

text \<open>\<^verbatim>\<open>update\<close>: the result is the new executable that replaces the running one.\<close>

definition update :: "'v update_api \<Rightarrow> updater \<Rightarrow> update_env \<Rightarrow> (updater_error + bytes) option" where
  "update api u env =
    (if \<not> ue_tempdir_ok env then Some (Inl UpdateIoError)
     else if \<not> ue_request_ok env then Some (Inl RequestError)
     else if \<not> ue_create_ok env then Some (Inl UpdateIoError)
     else (case download_loop [] [] (ue_reads env) of
         None \<Rightarrow> None
       | Some (Inl e) \<Rightarrow> Some (Inl e)
       | Some (Inr (hashed, archive)) \<Rightarrow>
          (case verify_signature api (sha512 api hashed) (u_version u) (target_signature (u_target u)) of
             Inl e \<Rightarrow> Some (Inl e)
           | Inr ok \<Rightarrow>
              (case decompress api archive (ue_unpack env) of
                 Inl e \<Rightarrow> Some (Inl e)
               | Inr new_exe \<Rightarrow>
                   if ue_replace_ok env then Some (Inr new_exe) else Some (Inl ReplaceFailed)))))"

subsection \<open>Building a release\<close>

definition hash_file :: "'v update_api \<Rightarrow> bytes \<Rightarrow> bytes" where
  "hash_file api file = sha512 api file"

text \<open>\<open>None\<close> in the functions of the tool is a panic: it stops instead of publishing.\<close>

definition sign_file :: "'v update_api \<Rightarrow> bytes \<Rightarrow> str \<Rightarrow> str \<Rightarrow> str option" where
  "sign_file api file key version = (case base64_decode api key of
     None \<Rightarrow> None
   | Some k \<Rightarrow> (case ed_public api k of
        None \<Rightarrow> None
      | Some pk \<Rightarrow>
          if pk \<noteq> DISTRIBUTION_PUBLIC_KEY then None
          else Some (base64_encode api
            (ed_sign api k (get_bytes_for_signature (hash_file api file) version)))))"

definition verify_signature_of_file :: "'v update_api \<Rightarrow> bytes \<Rightarrow> target \<Rightarrow> str \<Rightarrow> unit option" where
  "verify_signature_of_file api archive t version =
    (if length archive \<noteq> target_size t then None
     else if length archive = 0 then None
     else (case verify_signature api (hash_file api archive) version (target_signature t) of
         Inl e \<Rightarrow> None
       | Inr u \<Rightarrow> Some ()))"

text \<open>
  \<^verbatim>\<open>compress\<close> writes through a buffered writer as well. \<open>read_ok\<close> is whether the files can be opened
  and the executable be read; every error of it ends in an \<^verbatim>\<open>unwrap\<close>.
\<close>

definition compress :: "'v update_api \<Rightarrow> bytes \<Rightarrow> bool \<Rightarrow> nat option \<Rightarrow> bytes option" where
  "compress api source read_ok room =
    (if \<not> read_ok then None
     else case write_pieces (xz_pieces api source) (buf_writer_new (file_create room)) of
         (False, output) \<Rightarrow> None
       | (True, output) \<Rightarrow> Some (file_bytes (buf_writer_drop output)))"

text \<open>What the file system does while a target is built.\<close>

record build_io =
  bio_read_ok :: bool
  bio_room :: "nat option"
  bio_test :: unpack_io

definition TARGETS :: "str list" where
  "TARGETS = [str_lit ''x86_64-pc-windows-msvc'', str_lit ''i686-pc-windows-msvc'',
     str_lit ''aarch64-apple-darwin'', str_lit ''x86_64-apple-darwin'']"

definition URL_PREFIX :: str where
  "URL_PREFIX = str_lit ''https://update.craftip.net/update/v1/binaries/''"

text \<open>One turn of the loop over the targets: the entry of the release and the archive it names.\<close>

definition build_target ::
  "'v update_api \<Rightarrow> str \<Rightarrow> str \<Rightarrow> str \<Rightarrow> bytes \<Rightarrow> build_io \<Rightarrow> (target \<times> bytes) option" where
  "build_target api key version name executable io =
    (let compressed_exe_name = name @ str_lit ''-'' @ version @ str_lit ''.xz'' in
     case compress api executable (bio_read_ok io) (bio_room io) of
       None \<Rightarrow> None
     | Some archive \<Rightarrow>
    (case sign_file api archive key version of
       None \<Rightarrow> None
     | Some signature \<Rightarrow>
        (let json_target = \<lparr>target_name = name, target_url = URL_PREFIX @ compressed_exe_name,
                            target_signature = signature, target_size = length archive\<rparr> in
         case verify_signature_of_file api archive json_target version of
           None \<Rightarrow> None
         | Some u \<Rightarrow>
            (case decompress api archive (bio_test io) of
               Inl e \<Rightarrow> None
             | Inr test \<Rightarrow> if hash_file api test = hash_file api executable
                           then Some (json_target, archive) else None))))"

fun build_targets ::
  "'v update_api \<Rightarrow> str \<Rightarrow> str \<Rightarrow> (str \<Rightarrow> bytes) \<Rightarrow> (str \<Rightarrow> build_io) \<Rightarrow> str list
     \<Rightarrow> (target \<times> bytes) list option" where
  "build_targets api key version input io [] = Some []"
| "build_targets api key version input io (t # ts) =
     (case build_target api key version t (input t) (io t) of
        None \<Rightarrow> None
      | Some built \<Rightarrow> map_option (Cons built) (build_targets api key version input io ts))"

text \<open>\<^verbatim>\<open>build_update\<close>: the release that is published, with the archives.\<close>

definition build_update ::
  "'v update_api \<Rightarrow> str \<Rightarrow> str \<Rightarrow> nat \<Rightarrow> (str \<Rightarrow> bytes) \<Rightarrow> (str \<Rightarrow> build_io)
     \<Rightarrow> (latest_release \<times> (target \<times> bytes) list) option" where
  "build_update api key version timestamp input io =
    map_option (\<lambda>built. (\<lparr>release_version = version, release_changelog = [],
        release_timestamp = timestamp, release_targets = map fst built\<rparr>, built))
      (build_targets api key version input io TARGETS)"

text \<open>\<^verbatim>\<open>verify_release_json\<close> over the downloaded release and archives.\<close>

definition verify_release_json :: "'v update_api \<Rightarrow> latest_release \<Rightarrow> (target \<Rightarrow> bytes) \<Rightarrow> unit option" where
  "verify_release_json api release download =
    (if length (release_targets release) \<noteq> length TARGETS then None
     else if list_all (\<lambda>t. target_name t \<in> set TARGETS
            \<and> verify_signature_of_file api (download t) t (release_version release) = Some ())
          (release_targets release)
     then Some () else None)"

text \<open>
  The \<^verbatim>\<open>main\<close> of the tool: it checks the staged release (\<open>release\<close> and \<open>download\<close> are what the
  server has), or builds one from the executables of the input directory and publishes it, or asks
  for its arguments and fails.
\<close>

record tool_args =
  arg_input :: "str option"
  arg_output :: "str option"
  arg_ver :: "str option"
  arg_test_staging :: bool

datatype tool_result = StagingPassed | Built latest_release "(target \<times> bytes) list"

definition tool_main ::
  "'v update_api \<Rightarrow> tool_args \<Rightarrow> str \<Rightarrow> nat \<Rightarrow> (str \<Rightarrow> str \<Rightarrow> bytes) \<Rightarrow> (str \<Rightarrow> build_io) \<Rightarrow> latest_release
     \<Rightarrow> (target \<Rightarrow> bytes) \<Rightarrow> (unit + tool_result) option" where
  "tool_main api args key timestamp files io release download =
    (if arg_test_staging args
     then (case verify_release_json api release download of None \<Rightarrow> None | Some u \<Rightarrow> Some (Inr StagingPassed))
     else (case (arg_input args, arg_output args, arg_ver args) of
         (Some dir, Some out, Some version) \<Rightarrow>
           (case build_update api key version timestamp (files dir) io of
              None \<Rightarrow> None
            | Some (rel, built) \<Rightarrow> Some (Inr (Built rel built)))
       | _ \<Rightarrow> Some (Inl ())))"

lemma tool_main_built:
  "tool_main api args key timestamp files io staged download = Some (Inr (Built release built))
     \<Longrightarrow> arg_input args = Some dir \<Longrightarrow> arg_ver args = Some version
     \<Longrightarrow> build_update api key version timestamp (files dir) io = Some (release, built)"
  by (auto simp: tool_main_def split: if_splits option.splits)

subsection \<open>Properties\<close>

lemma download_loop_same:
  "download_loop hashed out rs = Some (Inr (h, a)) \<Longrightarrow> hashed = out \<Longrightarrow> h = a"
  by (induction hashed out rs rule: download_loop.induct) (auto simp: Let_def split: if_splits)

lemma download_loop_chunks:
  "[] \<notin> set chunks \<Longrightarrow>
     download_loop hashed out (map (\<lambda>c. (Some c, True)) chunks @ [(Some [], True)])
       = Some (Inr (hashed @ concat chunks, out @ concat chunks))"
  by (induction chunks arbitrary: hashed out) (auto simp: Let_def)

lemma verify_signature_Inr:
  "verify_signature api hash version sig = Inr u \<longleftrightarrow>
     (\<exists>s. base64_decode api sig = Some s
        \<and> ed_verify api DISTRIBUTION_PUBLIC_KEY (get_bytes_for_signature hash version) s)"
  by (auto simp: verify_signature_def Let_def split: option.splits)

lemma signature_bytes_inj:
  "length h = length h' \<Longrightarrow> get_bytes_for_signature h v = get_bytes_for_signature h' v'
     \<longleftrightarrow> h = h' \<and> v = v'"
  by (simp add: get_bytes_for_signature_def)

text \<open>The pieces of the libraries are smaller than the buffer of a writer.\<close>

lemma piece_small:
  assumes "update_api_ok api" "p \<in> set (fst (xz_reads api bs)) \<or> p \<in> set (xz_pieces api bs)"
  shows "length p < BUF_CAPACITY"
proof -
  from assms have "length p \<le> 1024" unfolding update_api_ok_def by blast
  then show ?thesis by (simp add: BUF_CAPACITY_def)
qed

text \<open>What \<^verbatim>\<open>decompress\<close> leaves when it returns \<^verbatim>\<open>Ok\<close>: the output, or the output cut in its last buffer.\<close>

lemma decompress_Inr:
  assumes "decompress api source io = Inr file"
  obtains unpacked where "xz_decode api source = Some unpacked" "file = cut_at (up_room io) unpacked"
    "\<And>m. up_room io = Some m \<Longrightarrow> length unpacked \<le> m + BUF_CAPACITY"
proof -
  obtain pieces ended where r: "archive_reads api source (up_read_fail io) = (pieces, ended)"
    by (cases "archive_reads api source (up_read_fail io)") auto
  with assms obtain w where w: "write_pieces pieces (buf_writer_new (file_create (up_room io))) = (True, w)"
    and e: "ended" and f: "file = file_bytes (buf_writer_drop w)"
    by (auto simp: decompress_def Let_def split: if_splits prod.splits bool.splits)
  from r e have "xz_decode api source = Some (concat pieces)"
    by (auto simp: archive_reads_def xz_decode_def split: prod.splits option.splits)
  with that written_file[OF w] f show thesis by blast
qed

lemma decompress_ok:
  assumes "update_api_ok api" "xz_decode api source = Some unpacked"
    and "up_open_ok io" "up_read_fail io = None" "fits (up_room io) (length unpacked)"
  shows "decompress api source io = Inr unpacked"
proof -
  obtain pieces where r: "xz_reads api source = (pieces, True)" "unpacked = concat pieces"
    using assms(2) by (auto simp: xz_decode_def split: prod.splits if_splits)
  have "length p < BUF_CAPACITY" if "p \<in> set pieces" for p
    using piece_small[OF assms(1), of p source] that r by simp
  from written_without_failure[OF this] assms(5) r(2) obtain w where
    "write_pieces pieces (buf_writer_new (file_create (up_room io))) = (True, w)"
    "file_bytes (buf_writer_drop w) = unpacked"
    by blast
  then show ?thesis using assms(3,4) by (simp add: decompress_def archive_reads_def r(1))
qed

lemma update_signed:
  assumes "update_api_ok api" and "updater_new api current platform resp = Some (Inr (Some u))"
    and "update api u env = Some (Inr exe)"
  shows "\<exists>archive unpacked signature running new. xz_decode api archive = Some unpacked
    \<and> (exe = unpacked \<or> (\<exists>m. up_room (ue_unpack env) = Some m \<and> m < length unpacked
          \<and> length unpacked \<le> m + 8192 \<and> exe = take m unpacked))
    \<and> ed_verify api DISTRIBUTION_PUBLIC_KEY
        (get_bytes_for_signature (sha512 api archive) (u_version u)) signature
    \<and> version_parse api current = Some running \<and> version_parse api (u_version u) = Some new
    \<and> \<not> version_ge api running new
    \<and> (\<forall>archive' v'. get_bytes_for_signature (sha512 api archive') v'
          = get_bytes_for_signature (sha512 api archive) (u_version u) \<longrightarrow> v' = u_version u)"
proof -
  obtain hashed archive where d: "download_loop [] [] (ue_reads env) = Some (Inr (hashed, archive))"
    "verify_signature api (sha512 api hashed) (u_version u) (target_signature (u_target u)) = Inr ()"
    "decompress api archive (ue_unpack env) = Inr exe"
    using assms(3) by (auto simp: update_def split: if_splits option.splits sum.splits)
  have "hashed = archive" using download_loop_same[OF d(1)] by simp
  then obtain s where s: "ed_verify api DISTRIBUTION_PUBLIC_KEY
      (get_bytes_for_signature (sha512 api archive) (u_version u)) s"
    using d(2) by (auto simp: verify_signature_Inr)
  from d(3) obtain unpacked where x: "xz_decode api archive = Some unpacked"
    and cut: "exe = cut_at (up_room (ue_unpack env)) unpacked"
      "\<And>m. up_room (ue_unpack env) = Some m \<Longrightarrow> length unpacked \<le> m + BUF_CAPACITY"
    by (rule decompress_Inr) blast
  have exe: "exe = unpacked \<or> (\<exists>m. up_room (ue_unpack env) = Some m \<and> m < length unpacked
      \<and> length unpacked \<le> m + 8192 \<and> exe = take m unpacked)"
    using cut by (cases "up_room (ue_unpack env)") (auto simp: cut_at_def BUF_CAPACITY_def)
  obtain running new where v: "version_parse api current = Some running"
    "version_parse api (u_version u) = Some new" "\<not> version_ge api running new"
    using assms(2) by (auto simp: updater_new_def split: release_response.splits option.splits if_splits)
  have "length (sha512 api a) = length (sha512 api b)" for a b
    using assms(1) by (simp add: update_api_ok_def)
  then have "\<forall>archive' v'. get_bytes_for_signature (sha512 api archive') v'
      = get_bytes_for_signature (sha512 api archive) (u_version u) \<longrightarrow> v' = u_version u"
    by (simp add: signature_bytes_inj)
  with s x exe v show ?thesis by blast
qed

text \<open>
  C12. Only signed, newer releases are installed: whatever a server or the network answers, an
  executable that replaces the running one was unpacked from an archive whose hash, together with
  the version of the release, carries a signature that verifies under the distribution key, and
  that version is not one the running version has reached. The signed bytes tell hash and version
  apart, so the signature cannot be moved to another version. The executable is all that the archive
  unpacks to, unless the disk gave out while the last buffer (at most 8192 bytes) was flushed: the
  code does not notice that, and what is installed is then cut off there.
\<close>

theorem update_installs_signed:
  assumes "update_api_ok api" and "updater_new api current platform resp = Some (Inr (Some u))"
    and "update api u env = Some (Inr exe)"
  shows "\<exists>archive unpacked signature running new. xz_decode api archive = Some unpacked
    \<and> (exe = unpacked \<or> (\<exists>m. up_room (ue_unpack env) = Some m \<and> m < length unpacked
          \<and> length unpacked \<le> m + 8192 \<and> exe = take m unpacked))
    \<and> ed_verify api DISTRIBUTION_PUBLIC_KEY
        (get_bytes_for_signature (sha512 api archive) (u_version u)) signature
    \<and> version_parse api current = Some running \<and> version_parse api (u_version u) = Some new
    \<and> \<not> version_ge api running new
    \<and> (\<forall>archive' v'. get_bytes_for_signature (sha512 api archive') v'
          = get_bytes_for_signature (sha512 api archive) (u_version u) \<longrightarrow> v' = u_version u)"
  using assms by (rule update_signed)

subsection \<open>A small instance of the libraries\<close>

definition sample_update_api :: "nat update_api" where
  "sample_update_api = \<lparr>sha512 = (\<lambda>bs. take 64 (bs @ replicate 64 0)),
     ed_verify = (\<lambda>pk m s. s = m), ed_sign = (\<lambda>k m. m),
     ed_public = (\<lambda>k. if k = [1] then Some DISTRIBUTION_PUBLIC_KEY else None),
     base64_decode = Some, base64_encode = (\<lambda>bs. bs),
     version_parse = (\<lambda>s. Some (length s)), version_ge = (\<lambda>a b. b \<le> a),
     xz_reads = (\<lambda>bs. case bs of [] \<Rightarrow> ([], False)
        | b # t \<Rightarrow> if b = 0xFD then (map (\<lambda>x. [x]) t, True) else ([], False)),
     xz_pieces = (\<lambda>bs. [0xFD] # map (\<lambda>x. [x]) bs)\<rparr>"

lemma sample_xz:
  "xz_encode sample_update_api bs = 0xFD # bs" "xz_decode sample_update_api (0xFD # bs) = Some bs"
proof -
  have singles: "concat (map (\<lambda>x. [x]) bs) = bs" for bs :: bytes by (induction bs) auto
  show "xz_encode sample_update_api bs = 0xFD # bs" "xz_decode sample_update_api (0xFD # bs) = Some bs"
    by (simp_all add: xz_encode_def xz_decode_def sample_update_api_def singles)
qed

lemma sample_update_api_ok: "update_api_ok sample_update_api"
proof -
  have "p \<noteq> [] \<and> length p \<le> 1024"
    if "p \<in> set (fst (xz_reads sample_update_api bs)) \<union> set (xz_pieces sample_update_api bs)" for p bs
    using that by (auto simp: sample_update_api_def split: list.splits if_splits)
  then show ?thesis
    unfolding update_api_ok_def sample_xz by (auto simp: sample_update_api_def min_def)
qed

subsection \<open>From the build to the installation\<close>

lemma compress_ok:
  assumes "compress api exe read_ok None = Some a"
  shows "a = xz_encode api exe"
  using assms written_file(1)
  by (fastforce simp: compress_def xz_encode_def cut_at_def split: if_splits prod.splits bool.splits)

lemma compress_done:
  assumes "update_api_ok api"
  shows "compress api exe True None = Some (xz_encode api exe)"
proof -
  have "length p < BUF_CAPACITY" if "p \<in> set (xz_pieces api exe)" for p
    using piece_small[OF assms] that by blast
  from written_without_failure[OF this, where room = None] obtain w where
    "write_pieces (xz_pieces api exe) (buf_writer_new (file_create None)) = (True, w)"
    "file_bytes (buf_writer_drop w) = xz_encode api exe"
    by (auto simp: fits_def xz_encode_def)
  then show ?thesis by (simp add: compress_def)
qed

lemma build_target_Some:
  "build_target api key version name exe io = Some (t, a) \<Longrightarrow>
     target_name t = name \<and> compress api exe (bio_read_ok io) (bio_room io) = Some a
     \<and> verify_signature_of_file api a t version = Some ()"
  by (auto simp: build_target_def Let_def split: option.splits sum.splits if_splits)

lemma build_targets_Some:
  "build_targets api key version input io ts = Some built \<Longrightarrow>
     map (target_name \<circ> fst) built = ts \<and>
     (\<forall>(t, a) \<in> set built. compress api (input (target_name t)) (bio_read_ok (io (target_name t)))
          (bio_room (io (target_name t))) = Some a
        \<and> verify_signature_of_file api a t version = Some ())"
proof (induction ts arbitrary: built)
  case (Cons t ts)
  then show ?case
    by (auto split: option.splits dest!: build_target_Some)
qed simp

lemma build_update_Some:
  "build_update api key version timestamp input io = Some x \<Longrightarrow>
     build_targets api key version input io TARGETS = Some (snd x)"
  by (auto simp: build_update_def)

lemma verify_signature_of_file_Some:
  "verify_signature_of_file api a t version = Some u \<Longrightarrow>
     verify_signature api (sha512 api a) version (target_signature t) = Inr ()"
  by (auto simp: verify_signature_of_file_def hash_file_def split: if_splits sum.splits)

lemma find_in_map:
  "x \<in> set (map f ts) \<Longrightarrow> \<exists>t \<in> set ts. find (\<lambda>t. f t = x) ts = Some t \<and> f t = x"
  by (induction ts) auto

text \<open>The inputs of an update in which nothing fails, with the archive cut into chunks.\<close>

definition smooth :: "bytes list \<Rightarrow> update_env" where
  "smooth chunks = \<lparr>ue_tempdir_ok = True, ue_request_ok = True, ue_create_ok = True,
     ue_reads = map (\<lambda>c. (Some c, True)) chunks @ [(Some [], True)],
     ue_unpack = smooth_unpack, ue_replace_ok = True\<rparr>"

lemma built_installs:
  assumes "update_api_ok api" and "build_update api key version timestamp input io = Some (release, built)"
    and "version_parse api current = Some running" "version_parse api version = Some new"
    and "\<not> version_ge api running new" "platform \<in> set TARGETS"
    and "list_all (\<lambda>(t, a). download t = a) built" "\<And>name. bio_room (io name) = None"
  shows "verify_release_json api release download = Some () \<and>
    (\<exists>u. updater_new api current platform (Release release) = Some (Inr (Some u))
      \<and> target_name (u_target u) = platform
      \<and> (\<forall>chunks. [] \<notin> set chunks \<and> concat chunks = download (u_target u) \<longrightarrow>
            update api u (smooth chunks) = Some (Inr (input platform))))"
proof -
  have b: "build_targets api key version input io TARGETS = Some built"
    and r: "release_version release = version" "release_targets release = map fst built"
    using assms(2) by (auto simp: build_update_def)
  note spec = build_targets_Some[OF b]
  have dl: "download t = xz_encode api (input (target_name t))
      \<and> verify_signature_of_file api (download t) t version = Some ()" if "t \<in> fst ` set built" for t
    using that spec assms(7,8) by (fastforce simp: list_all_iff dest!: compress_ok)
  have names: "map target_name (map fst built) = TARGETS" using spec by simp
  then have len: "length built = length TARGETS" by (metis length_map)
  have in_targets: "target_name t \<in> set TARGETS" if "t \<in> fst ` set built" for t
    unfolding names[symmetric] using that by auto
  have vf: "verify_signature_of_file api (download t) t version = Some ()" if "t \<in> fst ` set built" for t
    using dl that by blast
  have check: "verify_release_json api release download = Some ()"
    using in_targets len by (simp add: verify_release_json_def r list_all_iff vf)
  have "platform \<in> set (map target_name (map fst built))" using names assms(6) by simp
  then obtain t where t: "t \<in> fst ` set built" "target_name t = platform"
    "find (\<lambda>t. target_name t = platform) (map fst built) = Some t"
    using find_in_map[of platform target_name "map fst built"] by auto
  let ?u = "\<lparr>u_target = t, u_version = version, u_changelog = release_changelog release\<rparr>"
  have "updater_new api current platform (Release release) = Some (Inr (Some ?u))"
    using assms(3-5) t(3) by (simp add: updater_new_def r)
  moreover have "update api ?u (smooth chunks) = Some (Inr (input platform))"
    if "[] \<notin> set chunks" "concat chunks = download t" for chunks
  proof -
    have "xz_decode api (download t) = Some (input platform)"
      using dl[OF t(1)] t(2) assms(1) by (simp add: update_api_ok_def)
    moreover have "verify_signature api (sha512 api (download t)) version (target_signature t) = Inr ()"
      using dl[OF t(1)] verify_signature_of_file_Some by blast
    moreover from calculation(1) have "decompress api (download t) smooth_unpack = Inr (input platform)"
      using assms(1) by (intro decompress_ok) (simp_all add: smooth_unpack_def fits_def)
    ultimately show ?thesis
      using download_loop_chunks[OF that(1), of "[]" "[]"] that(2)
      by (simp add: update_def smooth_def)
  qed
  ultimately show ?thesis using check t(2) by (intro conjI exI[of _ ?u]) auto
qed

text \<open>
  C36. What the release tool publishes is what clients install: when the tool has built a release, an
  older client on any platform of the release finds its target, and from the archive of that
  target, however the download is cut, it installs exactly the executable that was in the input
  directory for it. The published files also pass the tool's own check of the staged release. (The
  archives were written without a failure of the disk; the tool would not notice one in the last
  flush of an archive when it happens, only when it unpacks the archive again.)
\<close>

theorem built_release_installs:
  assumes "update_api_ok api"
    and "tool_main api args key timestamp files io staged offered = Some (Inr (Built release built))"
    and "arg_input args = Some dir" "arg_ver args = Some version"
    and "version_parse api current = Some running" "version_parse api version = Some new"
    and "\<not> version_ge api running new" "platform \<in> set TARGETS"
    and "list_all (\<lambda>(t, a). download t = a) built" "\<And>name. bio_room (io name) = None"
  shows "tool_main api (args\<lparr>arg_test_staging := True\<rparr>) key timestamp files io release download
      = Some (Inr StagingPassed) \<and>
    (\<exists>u. updater_new api current platform (Release release) = Some (Inr (Some u))
      \<and> target_name (u_target u) = platform
      \<and> (\<forall>chunks. [] \<notin> set chunks \<and> concat chunks = download (u_target u) \<longrightarrow>
            update api u (smooth chunks) = Some (Inr (files dir platform))))"
  using built_installs[OF assms(1) tool_main_built[OF assms(2-4)] assms(5-10)]
  by (simp add: tool_main_def)

definition smooth_build :: "str \<Rightarrow> build_io" where
  "smooth_build name = \<lparr>bio_read_ok = True, bio_room = None, bio_test = smooth_unpack\<rparr>"

definition sample_build :: "latest_release \<times> (target \<times> bytes) list" where
  "sample_build = the (build_update sample_update_api [1] [2, 3] 0 (\<lambda>name. [7, 8]) smooth_build)"

lemma sample_build_update:
  "build_update sample_update_api [1] [2, 3] 0 (\<lambda>name. [7, 8]) smooth_build = Some sample_build"
proof -
  let ?a = "[0xFD, 7, 8] :: bytes"
  have c: "compress sample_update_api [7, 8] True None = Some ?a"
    using compress_done[OF sample_update_api_ok, of "[7, 8]"] by (simp add: sample_xz)
  have d: "decompress sample_update_api ?a smooth_unpack = Inr [7, 8]"
    by (rule decompress_ok[OF sample_update_api_ok]) (simp_all add: sample_xz smooth_unpack_def fits_def)
  have sig: "sign_file sample_update_api ?a [1] [2, 3]
      = Some (get_bytes_for_signature (sha512 sample_update_api ?a) [2, 3])"
    by (simp add: sign_file_def sample_update_api_def hash_file_def)
  have v: "verify_signature_of_file sample_update_api ?a t [2, 3] = Some ()"
    if "target_size t = 3" "target_signature t = get_bytes_for_signature (sha512 sample_update_api ?a) [2, 3]"
    for t using that
    by (simp add: verify_signature_of_file_def verify_signature_def hash_file_def sample_update_api_def Let_def)
  have t: "build_target sample_update_api [1] [2, 3] name [7, 8] (smooth_build name) \<noteq> None" for name
    by (simp add: build_target_def smooth_build_def c d sig v Let_def)
  have "build_targets sample_update_api [1] [2, 3] (\<lambda>name. [7, 8]) smooth_build ts \<noteq> None" for ts
  proof (induction ts)
    case (Cons a ts)
    obtain p where "build_target sample_update_api [1] [2, 3] a [7, 8] (smooth_build a) = Some p" using t[of a] by blast
    with Cons show ?case by auto
  qed simp
  then show ?thesis by (auto simp: sample_build_def build_update_def)
qed

lemma sample_build_archive: "(t, a) \<in> set (snd sample_build) \<Longrightarrow> a = [0xFD, 7, 8]"
proof -
  assume "(t, a) \<in> set (snd sample_build)"
  moreover have "build_targets sample_update_api [1] [2, 3] (\<lambda>name. [7, 8]) smooth_build TARGETS = Some (snd sample_build)"
    using sample_build_update by (rule build_update_Some)
  ultimately have "compress sample_update_api [7, 8] True None = Some a"
    using build_targets_Some by (fastforce simp: smooth_build_def)
  then show ?thesis using compress_ok by (fastforce simp: sample_xz)
qed

definition sample_args :: tool_args where
  "sample_args = \<lparr>arg_input = Some [5], arg_output = Some [6], arg_ver = Some [2, 3], arg_test_staging = False\<rparr>"

theorem built_release_installs_witness:
  "tool_main sample_update_api (sample_args\<lparr>arg_test_staging := True\<rparr>) [1] 0 (\<lambda>dir name. [7, 8]) smooth_build
      (fst sample_build) (\<lambda>t. [0xFD, 7, 8]) = Some (Inr StagingPassed) \<and>
    (\<exists>u. updater_new sample_update_api [9] (str_lit ''aarch64-apple-darwin'')
            (Release (fst sample_build)) = Some (Inr (Some u))
      \<and> update sample_update_api u (smooth [[0xFD], [7, 8]]) = Some (Inr [7, 8]))"
proof -
  have "tool_main sample_update_api sample_args [1] 0 (\<lambda>dir name. [7, 8]) smooth_build staged offered
      = Some (Inr (Built (fst sample_build) (snd sample_build)))" for staged offered
    by (simp add: tool_main_def sample_args_def sample_build_update case_prod_beta)
  moreover have "list_all (\<lambda>(t, a). (\<lambda>t. [0xFD, 7, 8]) t = a) (snd sample_build)"
    using sample_build_archive by (fastforce simp: list_all_iff)
  moreover have "version_parse sample_update_api [9] = Some 1"
    "version_parse sample_update_api [2, 3] = Some 2" "\<not> version_ge sample_update_api 1 2"
    by (simp_all add: sample_update_api_def)
  moreover have "str_lit ''aarch64-apple-darwin'' \<in> set TARGETS" by (simp add: TARGETS_def)
  moreover have "arg_input sample_args = Some [5]" "arg_ver sample_args = Some [2, 3]"
    "\<And>name. bio_room (smooth_build name) = None"
    by (simp_all add: sample_args_def smooth_build_def)
  ultimately obtain u where
    "tool_main sample_update_api (sample_args\<lparr>arg_test_staging := True\<rparr>) [1] 0 (\<lambda>dir name. [7, 8]) smooth_build
      (fst sample_build) (\<lambda>t. [0xFD, 7, 8]) = Some (Inr StagingPassed)"
    "updater_new sample_update_api [9] (str_lit ''aarch64-apple-darwin'')
      (Release (fst sample_build)) = Some (Inr (Some u))"
    "\<forall>chunks. [] \<notin> set chunks \<and> concat chunks = [0xFD, 7, 8] \<longrightarrow>
      update sample_update_api u (smooth chunks) = Some (Inr [7, 8])"
    using built_release_installs[OF sample_update_api_ok, where key = "[1]" and version = "[2, 3]"
        and timestamp = 0 and files = "\<lambda>dir name. [7, 8]" and io = smooth_build and release = "fst sample_build" and dir = "[5]"
        and args = sample_args
        and built = "snd sample_build" and current = "[9]" and running = 1 and new = 2
        and platform = "str_lit ''aarch64-apple-darwin''" and download = "\<lambda>t. [0xFD, 7, 8]"]
    by blast
  then show ?thesis by auto
qed

text \<open>A signed release with the archive \<open>0xFD # exe\<close>, for the sample libraries.\<close>

definition sample_signed :: "bytes \<Rightarrow> updater" where
  "sample_signed exe = \<lparr>u_target = \<lparr>target_name = [5], target_url = [],
       target_signature = get_bytes_for_signature (sha512 sample_update_api (0xFD # exe)) [2, 3],
       target_size = length (0xFD # exe)\<rparr>,
     u_version = [2, 3], u_changelog = []\<rparr>"

definition sample_release :: "bytes \<Rightarrow> latest_release" where
  "sample_release exe = \<lparr>release_version = [2, 3], release_changelog = [], release_timestamp = 0,
     release_targets = [u_target (sample_signed exe)]\<rparr>"

lemma sample_signed_new:
  "updater_new sample_update_api [9] [5] (Release (sample_release exe)) = Some (Inr (Some (sample_signed exe)))"
  by (simp add: updater_new_def sample_release_def sample_signed_def) (simp add: sample_update_api_def)

lemma sample_signed_verifies:
  "verify_signature sample_update_api (sha512 sample_update_api (0xFD # exe)) [2, 3]
     (target_signature (u_target (sample_signed exe))) = Inr ()"
  by (simp add: verify_signature_def sample_signed_def Let_def) (simp add: sample_update_api_def)

lemma sample_signed_update:
  "update sample_update_api (sample_signed exe) (smooth [0xFD # exe]) = Some (Inr exe)"
proof -
  have d: "decompress sample_update_api (0xFD # exe) smooth_unpack = Inr exe"
    by (rule decompress_ok[OF sample_update_api_ok]) (simp_all add: sample_xz smooth_unpack_def fits_def)
  have "u_version (sample_signed exe) = [2, 3]" by (simp add: sample_signed_def)
  with d show ?thesis
    by (simp add: update_def smooth_def Let_def sample_signed_verifies)
qed

theorem update_installs_signed_witness:
  "\<exists>archive signature. xz_decode sample_update_api archive = Some [7, 8]
    \<and> ed_verify sample_update_api DISTRIBUTION_PUBLIC_KEY
        (get_bytes_for_signature (sha512 sample_update_api archive) [2, 3]) signature"
proof -
  have "u_version (sample_signed [7, 8]) = [2, 3]"
    "up_room (ue_unpack (smooth [[0xFD, 7, 8]])) = None"
    by (simp_all add: sample_signed_def smooth_def smooth_unpack_def)
  then show ?thesis
    using update_installs_signed[OF sample_update_api_ok sample_signed_new sample_signed_update, of "[7, 8]"]
    by (metis option.distinct(1))
qed

subsection \<open>A truncated update\<close>

text \<open>
  C40. A truncated executable can be installed as if nothing had happened: when the disk gives out
  while the last piece of the archive's output is written (it is still in the buffer then, and
  flushed only when the writer is dropped), \<^verbatim>\<open>decompress\<close> returns \<^verbatim>\<open>Ok\<close>, and \<^verbatim>\<open>update\<close> replaces the running
  executable by the part that reached the file. This holds for every signed release and every
  output, however long.
\<close>

theorem truncated_update_installed:
  assumes "update_api_ok api"
    and "verify_signature api (sha512 api archive) (u_version u) (target_signature (u_target u)) = Inr ()"
    and "xz_reads api archive = (ps @ [p], True)"
    and "length (concat ps) \<le> m" "m < length (concat ps @ p)"
    and "[] \<notin> set chunks" "concat chunks = archive"
  shows "update api u ((smooth chunks)\<lparr>ue_unpack := smooth_unpack\<lparr>up_room := Some m\<rparr>\<rparr>)
      = Some (Inr (take m (concat ps @ p)))
    \<and> xz_decode api archive = Some (concat ps @ p) \<and> take m (concat ps @ p) \<noteq> concat ps @ p"
proof -
  have "length q < BUF_CAPACITY" if "q \<in> set (ps @ [p])" for q
    using piece_small[OF assms(1), of q archive] that assms(3) by auto
  from written_truncated[OF this assms(4)] obtain w where
    "write_pieces (ps @ [p]) (buf_writer_new (file_create (Some m))) = (True, w)"
    "file_bytes (buf_writer_drop w) = take m (concat (ps @ [p]))"
    by blast
  then have "decompress api archive (smooth_unpack\<lparr>up_room := Some m\<rparr>) = Inr (take m (concat ps @ p))"
    by (simp add: decompress_def archive_reads_def smooth_unpack_def assms(3) Let_def)
  moreover have "download_loop [] [] (ue_reads (smooth chunks)) = Some (Inr (archive, archive))"
    using download_loop_chunks[OF assms(6), of "[]" "[]"] assms(7) by (simp add: smooth_def)
  moreover have "length (take m (concat ps @ p)) \<noteq> length (concat ps @ p)" using assms(5) by simp
  then have "take m (concat ps @ p) \<noteq> concat ps @ p" by metis
  ultimately show ?thesis
    using assms(2,3) by (simp add: update_def smooth_def xz_decode_def)
qed

theorem truncated_update_installed_witness:
  "update sample_update_api (sample_signed [7, 8])
      ((smooth [[0xFD, 7, 8]])\<lparr>ue_unpack := smooth_unpack\<lparr>up_room := Some 1\<rparr>\<rparr>)
      = Some (Inr (take 1 (concat [[7]] @ [8])))
    \<and> xz_decode sample_update_api [0xFD, 7, 8] = Some (concat [[7]] @ [8])
    \<and> take 1 (concat [[7]] @ [8]) \<noteq> concat [[7]] @ [8 :: u8]"
proof (rule truncated_update_installed[OF sample_update_api_ok])
  show "verify_signature sample_update_api (sha512 sample_update_api [0xFD, 7, 8])
      (u_version (sample_signed [7, 8])) (target_signature (u_target (sample_signed [7, 8]))) = Inr ()"
    using sample_signed_verifies[of "[7, 8]"] by (simp add: sample_signed_def)
  show "xz_reads sample_update_api [0xFD, 7, 8] = ([[7]] @ [[8]], True)"
    by (simp add: sample_update_api_def)
qed simp_all

end
