(* ===== verification/Gui_State.thy ===== *)
theory Gui_State
  imports Client Updater
begin

text \<open>
  The state that the window of the graphical client, its controller and its connection loop share:
  \<^verbatim>\<open>GuiState\<close> and \<^verbatim>\<open>ServerPanel\<close> of \<^verbatim>\<open>client-gui/src/main.rs\<close>, \<^verbatim>\<open>gui_channel.rs\<close>, and the numbers that
  are read from and printed into the panels. The repaint requests to egui are left out.
\<close>

subsection \<open>State\<close>

datatype server_state =
    PanelDisconnected
  | PanelConnecting nat
  | PanelConnected nat
  | PanelDisconnecting

datatype gui_event = ConnectTo server | DisconnectNow

record server_panel =
  panel_server :: str
  panel_auth :: server_authentication
  panel_local :: str
  edit_local :: "str option"
  panel_state :: server_state
  panel_ping :: "u16 option"
  panel_error :: "str option"

datatype update_state =
    CheckingForUpdate
  | UpToDate
  | NewVersionFound update_info
  | Updating
  | UpdateFailed updater_error

record gui_state =
  gs_loading :: bool
  gs_update_status :: update_state
  gs_error :: "str option"
  gs_servers :: "server_panel list option"

definition panel_of_server :: "server \<Rightarrow> server_panel" where
  "panel_of_server s = \<lparr>panel_server = server_name s, panel_auth = server_auth s,
     panel_local = server_local s, edit_local = None, panel_state = PanelDisconnected,
     panel_ping = None, panel_error = None\<rparr>"

definition server_of_panel :: "server_panel \<Rightarrow> server" where
  "server_of_panel p = \<lparr>server_name = panel_server p, server_local = panel_local p,
     server_auth = panel_auth p\<rparr>"

definition gui_new :: gui_state where
  "gui_new = \<lparr>gs_loading = False, gs_update_status = CheckingForUpdate, gs_error = None,
     gs_servers = None\<rparr>"

definition active :: "server_panel \<Rightarrow> bool" where
  "active p \<longleftrightarrow> panel_state p \<noteq> PanelDisconnected"

primrec update_first ::
  "(server_panel \<Rightarrow> server_panel) \<Rightarrow> server_panel list \<Rightarrow> server_panel list option" where
  "update_first f [] = None"
| "update_first f (p # ps) =
     (if active p then Some (f p # ps) else map_option (Cons p) (update_first f ps))"

text \<open>\<^verbatim>\<open>set_active_server\<close>; every caller unwraps the result, so \<open>None\<close> is a panic in the caller.\<close>

definition set_active_server :: "(server_panel \<Rightarrow> server_panel) \<Rightarrow> gui_state \<Rightarrow> gui_state option" where
  "set_active_server f gs = (case gs_servers gs of
     None \<Rightarrow> None
   | Some ps \<Rightarrow> map_option (\<lambda>ps'. gs\<lparr>gs_servers := Some ps'\<rparr>) (update_first f ps))"

definition set_updater_status :: "update_state \<Rightarrow> gui_state \<Rightarrow> gui_state" where
  "set_updater_status st gs = gs\<lparr>gs_update_status := st\<rparr>"

subsection \<open>Port numbers\<close>

fun show_nat :: "nat \<Rightarrow> str" where
  "show_nat n = (if n < 10 then [of_nat (0x30 + n)] else show_nat (n div 10) @ [of_nat (0x30 + n mod 10)])"

declare show_nat.simps [simp del]

definition digit :: "u8 \<Rightarrow> bool" where
  "digit b \<longleftrightarrow> 0x30 \<le> unat b \<and> unat b \<le> 0x39"

text \<open>\<^verbatim>\<open>str::parse::<u16>\<close>: an optional plus sign, then digits, below \<open>2 ^ 16\<close>.\<close>

definition parse_u16 :: "str \<Rightarrow> u16 option" where
  "parse_u16 s =
    (let ds = (case s of b # t \<Rightarrow> if b = 0x2B then t else s | [] \<Rightarrow> []);
         v = foldl (\<lambda>acc b. 10 * acc + (unat b - 0x30)) 0 ds
     in if ds = [] \<or> \<not> list_all digit ds \<or> v \<ge> 2 ^ 16 then None else Some (of_nat v))"

end
