(* ===== verification/Ui.thy ===== *)
theory Ui
  imports Prelude "HOL-Library.State_Monad"
begin

text \<open>
  The immediate-mode interface of egui as the drawing code of \<^verbatim>\<open>client-gui/src\<close> uses it. A frame is a
  run of the state monad of the library: the state is what has been asked of egui so far, and each
  call is answered by egui, a parameter. Colours, sizes, layout and tooltips are left out.
\<close>

subsection \<open>Calls and answers\<close>

datatype widget =
    Heading str
  | Label str
  | ErrorLabel str
  | Hyperlink str str
  | Button str
  | TextEdit str
  | Spinner
  | Window str

text \<open>
  An answer: whether the widget was clicked (for a window: its close button), the new text of a
  text field that was typed into, and whether a text field lost the focus by the enter key.
\<close>

record response =
  resp_clicked :: bool
  resp_text :: "str option"
  resp_enter :: bool

definition no_response :: response where
  "no_response = \<lparr>resp_clicked = False, resp_text = None, resp_enter = False\<rparr>"

text \<open>The widgets of a frame in the order they are added, each with whether it is enabled.\<close>

type_synonym drawn = "(widget \<times> bool) list"

text \<open>egui answers a call from all that has been drawn in the frame, the widget itself included.\<close>

type_synonym egui = "drawn \<Rightarrow> response"

text \<open>
  What is relied on: a disabled widget does not react. Any number of the enabled ones may react in
  one frame: \<^verbatim>\<open>clicked\<close> is also true for a focused widget when a key is pressed.
\<close>

definition egui_ok :: "egui \<Rightarrow> bool" where
  "egui_ok e \<longleftrightarrow> (\<forall>ds w. e (ds @ [(w, False)]) = no_response)"

text \<open>A user whose input reaches the widgets with the given numbers, as far as they are enabled.\<close>

definition click_all :: "nat set \<Rightarrow> egui" where
  "click_all ns ds = (if ds \<noteq> [] \<and> snd (last ds) \<and> length ds - 1 \<in> ns
     then no_response\<lparr>resp_clicked := True\<rparr> else no_response)"

lemma click_all_ok: "egui_ok (click_all ns)"
  by (simp add: egui_ok_def click_all_def)

text \<open>A user who clicks the \<open>n\<close>-th widget of a frame, or none.\<close>

definition click_nth :: "nat option \<Rightarrow> egui" where
  "click_nth n ds = (if ds \<noteq> [] \<and> snd (last ds) \<and> n = Some (length ds - 1)
     then no_response\<lparr>resp_clicked := True\<rparr> else no_response)"

lemma click_nth_ok: "egui_ok (click_nth n)"
  by (simp add: egui_ok_def click_nth_def)

lemma no_response_simps [simp]:
  "\<not> resp_clicked no_response" "resp_text no_response = None" "\<not> resp_enter no_response"
  by (simp_all add: no_response_def)

lemma egui_disabled:
  assumes "egui_ok e" "ds \<noteq> []" "\<not> snd (last ds)"
  shows "e ds = no_response"
proof -
  have "ds = butlast ds @ [(fst (last ds), False)]"
    using assms(2,3) by (metis append_butlast_last_id prod.collapse)
  with assms(1) show ?thesis by (metis egui_ok_def)
qed

subsection \<open>The drawing monad\<close>

record ui =
  ui_enabled :: bool
  ui_drawn :: drawn
  ui_copied :: "str list"

definition ui_init :: ui where
  "ui_init = \<lparr>ui_enabled = True, ui_drawn = [], ui_copied = []\<rparr>"

type_synonym 'a draw = "(ui, 'a) state"

definition skip :: "unit draw" where
  "skip = State_Monad.return ()"

definition add :: "egui \<Rightarrow> widget \<Rightarrow> response draw" where
  "add e w = State (\<lambda>u. let ds = ui_drawn u @ [(w, ui_enabled u)] in (e ds, u\<lparr>ui_drawn := ds\<rparr>))"

definition show_widget :: "egui \<Rightarrow> widget \<Rightarrow> unit draw" where
  "show_widget e w = add e w \<bind> (\<lambda>_. skip)"

definition clicked :: "egui \<Rightarrow> widget \<Rightarrow> bool draw" where
  "clicked e w = add e w \<bind> (\<lambda>r. State_Monad.return (resp_clicked r))"

definition copy_text :: "str \<Rightarrow> unit draw" where
  "copy_text t = State (\<lambda>u. ((), u\<lparr>ui_copied := ui_copied u @ [t]\<rparr>))"

definition disable_if :: "bool \<Rightarrow> unit draw" where
  "disable_if b = State (\<lambda>u. ((), if b then u\<lparr>ui_enabled := False\<rparr> else u))"

text \<open>A nested region: what is disabled in it does not reach the widgets after it.\<close>

definition scope :: "'a draw \<Rightarrow> 'a draw" where
  "scope m = State (\<lambda>u. case run_state m u of (x, u') \<Rightarrow> (x, u'\<lparr>ui_enabled := ui_enabled u\<rparr>))"

text \<open>A window over the others is a region of its own, enabled whatever is around it.\<close>

definition window :: "'a draw \<Rightarrow> 'a draw" where
  "window m = State (\<lambda>u. case run_state m (u\<lparr>ui_enabled := True\<rparr>) of
     (x, u') \<Rightarrow> (x, u'\<lparr>ui_enabled := ui_enabled u\<rparr>))"

text \<open>A text field: its text after the frame.\<close>

definition text_field :: "egui \<Rightarrow> str \<Rightarrow> str draw" where
  "text_field e t = add e (TextEdit t) \<bind>
     (\<lambda>r. State_Monad.return (case resp_text r of Some t' \<Rightarrow> t' | None \<Rightarrow> t))"

text \<open>A copy button.\<close>

definition copy_button :: "egui \<Rightarrow> widget \<Rightarrow> str \<Rightarrow> unit draw" where
  "copy_button e w t = clicked e w \<bind> (\<lambda>c. if c then copy_text t else skip)"

named_theorems draw_simps \<open>running the drawing primitives\<close>

lemma run_skip [draw_simps]: "run_state skip u = ((), u)"
  by (simp add: skip_def)

lemma run_add [draw_simps]:
  "run_state (add e w) u =
     (e (ui_drawn u @ [(w, ui_enabled u)]), u\<lparr>ui_drawn := ui_drawn u @ [(w, ui_enabled u)]\<rparr>)"
  by (simp add: add_def Let_def)

lemma run_show [draw_simps]:
  "run_state (show_widget e w) u = ((), u\<lparr>ui_drawn := ui_drawn u @ [(w, ui_enabled u)]\<rparr>)"
  by (simp add: show_widget_def run_add run_skip)

lemma run_clicked [draw_simps]:
  "run_state (clicked e w) u = (resp_clicked (e (ui_drawn u @ [(w, ui_enabled u)])),
     u\<lparr>ui_drawn := ui_drawn u @ [(w, ui_enabled u)]\<rparr>)"
  by (simp add: clicked_def run_add)

lemma run_text_field [draw_simps]:
  "run_state (text_field e t) u =
     (case resp_text (e (ui_drawn u @ [(TextEdit t, ui_enabled u)])) of Some t' \<Rightarrow> t' | None \<Rightarrow> t,
      u\<lparr>ui_drawn := ui_drawn u @ [(TextEdit t, ui_enabled u)]\<rparr>)"
  by (simp add: text_field_def run_add)

lemma run_copy_text [draw_simps]:
  "run_state (copy_text t) u = ((), u\<lparr>ui_copied := ui_copied u @ [t]\<rparr>)"
  by (simp add: copy_text_def)

lemma run_disable_if [draw_simps]:
  "run_state (disable_if b) u = ((), if b then u\<lparr>ui_enabled := False\<rparr> else u)"
  by (simp add: disable_if_def)

lemma run_scope [draw_simps]:
  "run_state (scope m) u = (case run_state m u of (x, u') \<Rightarrow> (x, u'\<lparr>ui_enabled := ui_enabled u\<rparr>))"
  by (simp add: scope_def)

lemma run_window [draw_simps]:
  "run_state (window m) u = (case run_state m (u\<lparr>ui_enabled := True\<rparr>) of
     (x, u') \<Rightarrow> (x, u'\<lparr>ui_enabled := ui_enabled u\<rparr>))"
  by (simp add: window_def)

lemma run_copy_button [draw_simps]:
  "run_state (copy_button e w t) u =
    (let ds = ui_drawn u @ [(w, ui_enabled u)] in
     ((), u\<lparr>ui_drawn := ds, ui_copied := ui_copied u @ (if resp_clicked (e ds) then [t] else [])\<rparr>))"
  by (simp add: copy_button_def draw_simps Let_def)

subsection \<open>Regions of a frame\<close>

text \<open>A computation that puts the enabled flag back.\<close>

definition balanced :: "'a draw \<Rightarrow> bool" where
  "balanced m \<longleftrightarrow> (\<forall>u. ui_enabled (snd (run_state m u)) = ui_enabled u)"

named_theorems draw_intros \<open>computations that put the enabled flag back\<close>

lemma balanced_return [draw_intros]: "balanced (State_Monad.return x)"
  by (simp add: balanced_def)

lemma balanced_skip [draw_intros]: "balanced skip"
  by (simp add: balanced_def draw_simps)

lemma balanced_bind [draw_intros]: "balanced m \<Longrightarrow> (\<And>x. balanced (f x)) \<Longrightarrow> balanced (m \<bind> f)"
  unfolding balanced_def by (auto split: prod.splits) (metis snd_conv)

lemma balanced_prims [draw_intros]:
  "balanced (add e w)" "balanced (text_field e t)" "balanced (show_widget e w)" "balanced (clicked e w)"
  "balanced (copy_text t)" "balanced (copy_button e w t)" "balanced (scope m)" "balanced (window m)"
  by (simp_all add: balanced_def draw_simps Let_def split: prod.splits)

lemma balanced_cases [draw_intros]:
  "balanced m \<Longrightarrow> balanced n \<Longrightarrow> balanced (if b then m else n)"
  "balanced m \<Longrightarrow> (\<And>y. balanced (f y)) \<Longrightarrow> balanced (case z of None \<Rightarrow> m | Some y \<Rightarrow> f y)"
  "(\<And>x y. balanced (g x y)) \<Longrightarrow> balanced (case p of (x, y) \<Rightarrow> g x y)"
  by (auto split: option.split prod.split)

lemma balancedD: "balanced m \<Longrightarrow> run_state m u = (x, u') \<Longrightarrow> ui_enabled u' = ui_enabled u"
  unfolding balanced_def by (metis snd_conv)

end
