(* ===== verification/Server_Panel.thy ===== *)
theory Server_Panel
  imports Gui_State Ui
begin

text \<open>
  \<^verbatim>\<open>ServerPanel::render\<close> of \<^verbatim>\<open>client-gui/src/main.rs\<close>: what a panel draws, and what the user can do
  with it in a frame.
\<close>

subsection \<open>The rows of a panel\<close>

definition INFO_SIGN :: str where
  "INFO_SIGN = [0xE2, 0x84, 0xB9]"

definition CLIPBOARD :: str where
  "CLIPBOARD = [0xF0, 0x9F, 0x93, 0x8B]"

definition PENCIL :: str where
  "PENCIL = [0xE2, 0x9C, 0x8F]"

definition WASTEBASKET :: str where
  "WASTEBASKET = [0xF0, 0x9F, 0x97, 0x91]"

definition PLUG :: str where
  "PLUG = [0xF0, 0x9F, 0x94, 0x8C]"

definition address_row :: "egui \<Rightarrow> server_panel \<Rightarrow> unit draw" where
  "address_row e p = do {
     show_widget e (Label (str_lit ''Server IP''));
     show_widget e (Label INFO_SIGN);
     show_widget e (Label (panel_server p));
     copy_button e (Button CLIPBOARD) (panel_server p)
   }"

text \<open>
  The local port. The pencil opens the field for editing; the field writes into \<open>edit_local\<close> while
  it is typed into, and \<^verbatim>\<open>take().unwrap()\<close> finds it there. The three buttons are asked in turn.
\<close>

definition port_view :: "egui \<Rightarrow> server_panel \<Rightarrow> server_panel draw" where
  "port_view e p = do {
     show_widget e (Label (panel_local p));
     q \<leftarrow> scope (do {
       disable_if (panel_state p \<noteq> PanelDisconnected);
       c \<leftarrow> clicked e (Button PENCIL);
       State_Monad.return (if c then p\<lparr>edit_local := Some (panel_local p)\<rparr> else p)
     });
     copy_button e (Button CLIPBOARD) (panel_local q);
     State_Monad.return q
   }"

definition port_edit :: "egui \<Rightarrow> server_panel \<Rightarrow> str \<Rightarrow> server_panel draw" where
  "port_edit e p text = do {
     r \<leftarrow> add e (TextEdit text);
     ok \<leftarrow> clicked e (Button (str_lit ''ok''));
     let text' = (case resp_text r of Some t \<Rightarrow> t | None \<Rightarrow> text);
     let q = (if resp_enter r \<or> ok then p\<lparr>panel_local := text', edit_local := None\<rparr>
              else p\<lparr>edit_local := Some text'\<rparr>);
     cancel \<leftarrow> clicked e (Button (str_lit ''cancel''));
     let q' = (if cancel then q\<lparr>edit_local := None\<rparr> else q);
     reset \<leftarrow> clicked e (Button (str_lit ''reset''));
     State_Monad.return
       (if reset then q'\<lparr>edit_local := None, panel_local := STANDARD_LOCAL_PORT\<rparr> else q')
   }"

definition port_row :: "egui \<Rightarrow> server_panel \<Rightarrow> server_panel draw" where
  "port_row e p = do {
     show_widget e (Label (str_lit ''local port''));
     show_widget e (Label INFO_SIGN);
     scope (case edit_local p of None \<Rightarrow> port_view e p | Some text \<Rightarrow> port_edit e p text)
   }"

definition status_column :: "egui \<Rightarrow> server_panel \<Rightarrow> unit draw" where
  "status_column e p = scope (case panel_state p of
     PanelDisconnected \<Rightarrow> do {
       disable_if True;
       _ \<leftarrow> clicked e (Button WASTEBASKET);
       skip
     }
   | PanelConnecting attempt \<Rightarrow> do {
       show_widget e (Label (if attempt = 0 then str_lit ''Connecting...''
         else str_lit ''Connecting ('' @ show_nat attempt @ str_lit ''x)''));
       show_widget e Spinner
     }
   | PanelDisconnecting \<Rightarrow> do {
       show_widget e (Label (str_lit ''Disconnecting...''));
       show_widget e Spinner
     }
   | PanelConnected connected \<Rightarrow> do {
       show_widget e (Label (show_nat connected @ str_lit '' Clients''));
       show_widget e (Label PLUG)
     })"

subsection \<open>The button of a panel\<close>

text \<open>
  What a click does, with the events it sends to the controller. \<open>None\<close> is a panic: the \<^verbatim>\<open>unreachable!\<close>,
  or the \<^verbatim>\<open>expect\<close> on sending when the controller is not \<open>alive\<close> to receive.
\<close>

definition button_clicked :: "bool \<Rightarrow> server_panel \<Rightarrow> (server_panel \<times> gui_event list) option" where
  "button_clicked alive p = (let q = p\<lparr>panel_error := None\<rparr> in case panel_state q of
     PanelConnected n \<Rightarrow>
       if alive then Some (q\<lparr>panel_state := PanelDisconnecting\<rparr>, [DisconnectNow]) else None
   | PanelConnecting n \<Rightarrow>
       if alive then Some (q\<lparr>panel_state := PanelDisconnecting\<rparr>, [DisconnectNow]) else None
   | PanelDisconnected \<Rightarrow>
       (let q' = q\<lparr>panel_state := PanelConnecting 0\<rparr>;
            srv = server_of_panel q';
            local = (case parse_u16 (server_local srv) of
               Some port \<Rightarrow> str_lit ''localhost:'' @ show_nat (unat port)
             | None \<Rightarrow> server_local srv)
        in if alive then Some (q', [ConnectTo (srv\<lparr>server_local := local\<rparr>)]) else None)
   | PanelDisconnecting \<Rightarrow> None)"

definition button_text :: "server_state \<Rightarrow> str" where
  "button_text st = (case st of
     PanelDisconnected \<Rightarrow> str_lit ''Connect''
   | PanelConnecting n \<Rightarrow> str_lit ''Stop connecting''
   | PanelConnected n \<Rightarrow> str_lit ''Disconnect''
   | PanelDisconnecting \<Rightarrow> str_lit ''Disconnecting...'')"

definition LATENCY_HINT :: str where
  "LATENCY_HINT =
     str_lit ''Users far from Europe could experience high latency. We are working on this.''"

definition footer ::
  "egui \<Rightarrow> bool \<Rightarrow> bool \<Rightarrow> server_panel \<Rightarrow> (server_panel \<times> gui_event list) option draw" where
  "footer e alive enabled p = scope (do {
     (case panel_error p of Some err \<Rightarrow> show_widget e (ErrorLabel err) | None \<Rightarrow> skip);
     (if 100 < (case panel_ping p of Some ms \<Rightarrow> ms | None \<Rightarrow> 0)
      then show_widget e (Label LATENCY_HINT) else skip);
     disable_if (\<not> enabled \<or> edit_local p \<noteq> None);
     disable_if (panel_state p = PanelDisconnecting);
     c \<leftarrow> clicked e (Button (button_text (panel_state p)));
     State_Monad.return (if c then button_clicked alive p else Some (p, []))
   })"

definition panel_render ::
  "egui \<Rightarrow> bool \<Rightarrow> bool \<Rightarrow> server_panel \<Rightarrow> (server_panel \<times> gui_event list) option draw" where
  "panel_render e alive enabled p = scope (do {
     disable_if (\<not> enabled);
     q \<leftarrow> scope (do {
       scope (address_row e p);
       q \<leftarrow> scope (port_row e p);
       status_column e q;
       State_Monad.return q
     });
     footer e alive enabled q
   })"

subsection \<open>What a frame can do to a panel\<close>

lemma balanced_panel_parts [draw_intros]:
  "balanced (port_row e p)" "balanced (panel_render e alive enabled p)"
  unfolding port_row_def panel_render_def by (intro draw_intros)+

text \<open>Editing changes nothing but the local address and its field.\<close>

lemma port_row_panel:
  assumes "run_state (port_row e p) u = (q, u')"
  shows "q = p\<lparr>panel_local := panel_local q, edit_local := edit_local q\<rparr>"
  using assms
  by (cases "edit_local p")
    (auto simp: port_row_def port_view_def port_edit_def draw_simps Let_def split: if_splits)

lemma port_row_disabled:
  assumes "egui_ok e" "run_state (port_row e p) u = (q, u')" "\<not> ui_enabled u"
  shows "q = p"
  using assms(2,3)
  by (cases "edit_local p")
    (auto simp: port_row_def port_view_def port_edit_def draw_simps Let_def egui_disabled[OF assms(1)])

text \<open>The button reacts only in an enabled panel whose address is not being edited.\<close>

lemma footer_cases:
  assumes "egui_ok e" "run_state (footer e alive enabled p) u = (r, u')"
  shows "r = Some (p, []) \<or>
    (ui_enabled u \<and> enabled \<and> edit_local p = None \<and> panel_state p \<noteq> PanelDisconnecting
     \<and> r = button_clicked alive p)"
proof -
  define ws where "ws = (case panel_error p of Some err \<Rightarrow> [(ErrorLabel err, ui_enabled u)] | None \<Rightarrow> [])
    @ (if 100 < (case panel_ping p of Some ms \<Rightarrow> ms | None \<Rightarrow> 0) then [(Label LATENCY_HINT, ui_enabled u)] else [])"
  define en where "en = (ui_enabled u \<and> enabled \<and> edit_local p = None \<and> panel_state p \<noteq> PanelDisconnecting)"
  define ds where "ds = ui_drawn u @ ws @ [(Button (button_text (panel_state p)), en)]"
  have run: "r = (if resp_clicked (e ds) then button_clicked alive p else Some (p, []))"
    using assms(2) by (auto simp: footer_def draw_simps ds_def ws_def en_def split: option.splits if_splits)
  show ?thesis
  proof (cases "resp_clicked (e ds)")
    case True
    then have en using egui_disabled[OF assms(1), of ds] by (cases en) (auto simp: ds_def)
    then show ?thesis using run True by (simp add: en_def)
  qed (use run in simp)
qed

text \<open>
  Without a controller everything is drawn as before, but an event that would be sent is a panic.
\<close>

definition gone :: "('a \<times> gui_event list) option \<Rightarrow> ('a \<times> gui_event list) option" where
  "gone r = (case r of Some (x, []) \<Rightarrow> Some (x, []) | _ \<Rightarrow> None)"

lemma gone_simps [simp]: "gone None = None" "gone (Some (x, [])) = Some (x, [])"
  "gone (Some (x, ev # evs)) = None"
  by (simp_all add: gone_def)

lemma button_clicked_gone: "button_clicked False p = gone (button_clicked True p)"
  by (cases "panel_state p") (simp_all add: button_clicked_def Let_def)

lemma footer_gone:
  "run_state (footer e False enabled p) u =
     (case run_state (footer e True enabled p) u of (r, u') \<Rightarrow> (gone r, u'))"
  by (auto simp: footer_def draw_simps button_clicked_gone split: prod.splits option.splits if_splits)

lemma panel_render_gone:
  "run_state (panel_render e False enabled p) u =
     (case run_state (panel_render e True enabled p) u of (r, u') \<Rightarrow> (gone r, u'))"
  unfolding panel_render_def run_scope[of "_ \<bind> _"]
  by (simp add: footer_gone split: prod.splits)

text \<open>
  A frame with a panel: either its button is not clicked, and then at most its address changes and
  nothing is sent; or it is.
\<close>

definition port_change :: "server_panel \<Rightarrow> server_panel \<Rightarrow> bool" where
  "port_change p q \<longleftrightarrow> q = p\<lparr>panel_local := panel_local q, edit_local := edit_local q\<rparr>"

lemma port_change_state: "port_change p q \<Longrightarrow> panel_state q = panel_state p"
  unfolding port_change_def by (metis server_panel.select_convs(5) server_panel.surjective
      server_panel.update_convs(3,4))

lemma panel_render_cases:
  assumes "egui_ok e" "run_state (panel_render e alive enabled p) u = (r, u')"
  obtains
    (idle) q where "r = Some (q, [])" "port_change p q" "\<not> (ui_enabled u \<and> enabled) \<Longrightarrow> q = p"
  | (click) q where "ui_enabled u" "enabled" "port_change p q" "edit_local q = None"
      "panel_state q \<noteq> PanelDisconnecting" "r = button_clicked alive q"
proof -
  define u1 where "u1 = (if enabled then u else u\<lparr>ui_enabled := False\<rparr>)"
  have u1: "ui_enabled u1 = (ui_enabled u \<and> enabled)" by (simp add: u1_def)
  obtain u2 where u2: "run_state (scope (address_row e p)) u1 = ((), u2)" by (metis surj_pair old.unit.exhaust)
  obtain q u3 where u3: "run_state (scope (port_row e p)) u2 = (q, u3)" by (metis surj_pair)
  obtain u4 where u4: "run_state (status_column e q) u3 = ((), u4)" by (metis surj_pair old.unit.exhaust)
  define u5 where "u5 = u4\<lparr>ui_enabled := ui_enabled u1\<rparr>"
  obtain r' u6 where u6: "run_state (footer e alive enabled q) u5 = (r', u6)" by (metis surj_pair)
  have r: "r = r'"
    using assms(2) u2 u3 u4 u6
    by (auto simp: panel_render_def run_scope[where m = "_ \<bind> _"] run_disable_if u1_def u5_def split: if_splits)
  have en2: "ui_enabled u2 = ui_enabled u1" by (rule balancedD[OF _ u2]) (intro draw_intros)
  have row: "run_state (port_row e p) u2 = (q, snd (run_state (port_row e p) u2))"
    using u3 by (auto simp: run_scope split: prod.splits)
  have q: "port_change p q" unfolding port_change_def by (rule port_row_panel[OF row])
  have dis: "q = p" if "\<not> (ui_enabled u \<and> enabled)"
    using port_row_disabled[OF assms(1) row] that en2 u1 by simp
  with footer_cases[OF assms(1) u6] idle[of q] click[of q] q r u1 show ?thesis
    by (auto simp: u5_def)
qed

end
