(* ===== verification/Help_Popup.thy ===== *)
theory Help_Popup
  imports Gui_State Ui
begin

text \<open>
  The window to report a problem, \<^verbatim>\<open>client-gui/src/help_popup.rs\<close>, and the licence window,
  \<^verbatim>\<open>eula.rs\<close>. A report is sent by ehttp in the background; its answer is put into a promise that
  the frames look at.
\<close>

subsection \<open>State\<close>

datatype promise = Pending | Ready "str + unit"

record help_popup =
  help_open :: bool
  help_email :: str
  help_text :: str
  help_promise :: "promise option"
  help_error :: "str option"

definition help_default :: help_popup where
  "help_default = \<lparr>help_open = False, help_email = [], help_text = [], help_promise = None,
     help_error = None\<rparr>"

definition open_help :: "help_popup \<Rightarrow> help_popup" where
  "open_help h = h\<lparr>help_open := True\<rparr>"

text \<open>\<open>platform\<close> and \<open>version\<close> are constants of the build.\<close>

record feedback =
  fb_email :: str
  fb_text :: str
  fb_target :: str
  fb_version :: str

definition feedback_new :: "str \<Rightarrow> str \<Rightarrow> str \<Rightarrow> str \<Rightarrow> feedback" where
  "feedback_new platform version email txt =
     \<lparr>fb_email = email, fb_text = txt, fb_target = platform, fb_version = version\<rparr>"

definition REPORT_PROBLEM :: str where
  "REPORT_PROBLEM = str_lit ''https://api.craftip.net/v1/feedback''"

text \<open>
  The callback of the request: an error of ehttp, a body that is no text, or a text, which has to
  be \<^verbatim>\<open>ok\<close>.
\<close>

definition fetch_result :: "str + str option \<Rightarrow> str + unit" where
  "fetch_result response = (case response of
     Inl err \<Rightarrow> Inl err
   | Inr None \<Rightarrow> Inl (str_lit ''Error: Got nothing from server'')
   | Inr (Some resp) \<Rightarrow> if resp \<noteq> str_lit ''ok'' then Inl resp else Inr ())"

definition fetch_done :: "str + str option \<Rightarrow> help_popup \<Rightarrow> help_popup" where
  "fetch_done response h = (if help_promise h = Some Pending
     then h\<lparr>help_promise := Some (Ready (fetch_result response))\<rparr> else h)"

subsection \<open>Drawing\<close>

definition HELP_INTRO :: str where
  "HELP_INTRO = str_lit ''This program is still in its early stages. If you have a problem or suggestion, feel free to write it here!''"

text \<open>The answer to a report, as a frame finds it; also says whether the window closes.\<close>

definition take_answer :: "help_popup \<Rightarrow> help_popup \<times> bool" where
  "take_answer h = (case help_promise h of
     Some (Ready (Inr u)) \<Rightarrow> (h\<lparr>help_email := [], help_text := [], help_promise := None\<rparr>, True)
   | Some (Ready (Inl err)) \<Rightarrow> (h\<lparr>help_error := Some err, help_promise := None\<rparr>, False)
   | _ \<Rightarrow> (h, False))"

definition help_fields ::
  "egui \<Rightarrow> str \<Rightarrow> str \<Rightarrow> help_popup \<Rightarrow> (help_popup \<times> feedback list) draw" where
  "help_fields e platform version h = do {
     disable_if (help_promise h \<noteq> None);
     show_widget e (Label (str_lit ''Email for response (optional):''));
     em \<leftarrow> text_field e (help_email h);
     show_widget e (Label (str_lit ''Comment:''));
     tx \<leftarrow> text_field e (help_text h);
     send \<leftarrow> clicked e (Button (str_lit ''Send''));
     let h = h\<lparr>help_email := em, help_text := tx\<rparr>;
     State_Monad.return (if send
       then (h\<lparr>help_error := None, help_promise := Some Pending\<rparr>, [feedback_new platform version em tx])
       else (h, []))
   }"

definition help_answer :: "egui \<Rightarrow> help_popup \<Rightarrow> (help_popup \<times> bool) draw" where
  "help_answer e h = do {
     (if help_promise h = Some Pending then show_widget e Spinner else skip);
     (case help_error (fst (take_answer h)) of
        Some err \<Rightarrow> show_widget e (ErrorLabel (if err = [] then str_lit ''Error'' else err))
      | None \<Rightarrow> skip);
     State_Monad.return (take_answer h)
   }"

definition help_body ::
  "egui \<Rightarrow> str \<Rightarrow> str \<Rightarrow> help_popup \<Rightarrow> (help_popup \<times> bool \<times> feedback list) draw" where
  "help_body e platform version h = do {
     show_widget e (Label HELP_INTRO);
     show_widget e (Label []);
     (h, sent) \<leftarrow> help_fields e platform version h;
     (h, close) \<leftarrow> help_answer e h;
     State_Monad.return (h, close, sent)
   }"

text \<open>
  \<^verbatim>\<open>render\<close>: egui runs the body of the window only while it is open, and clears \<open>open\<close> when its
  close button is clicked.
\<close>

definition help_render ::
  "egui \<Rightarrow> str \<Rightarrow> str \<Rightarrow> help_popup \<Rightarrow> (help_popup \<times> feedback list) draw" where
  "help_render e platform version h0 =
    (if \<not> help_open h0 then State_Monad.return (h0\<lparr>help_open := False\<rparr>, [])
     else window (do {
       x \<leftarrow> clicked e (Window (str_lit ''Report a problem''));
       (h, close, sent) \<leftarrow> help_body e platform version (h0\<lparr>help_open := False\<rparr>);
       State_Monad.return (h\<lparr>help_open := \<not> x \<and> \<not> close\<rparr>, sent)
     }))"

definition accept_eula :: "egui \<Rightarrow> bool \<Rightarrow> bool draw" where
  "accept_eula e accepted = window (do {
     show_widget e (Label (str_lit ''To run a Minecraft Server, you have'' @ [0x0A] @ str_lit ''to accept the ''));
     show_widget e (Hyperlink (str_lit ''Minecraft EULA'') (str_lit ''https://aka.ms/MinecraftEULA''));
     show_widget e (Label (str_lit ''.''));
     c \<leftarrow> clicked e (Button (str_lit ''Accept''));
     State_Monad.return (accepted \<or> c)
   })"

lemma balanced_help [draw_intros]: "balanced (help_render e platform version h)"
  unfolding help_render_def by (intro draw_intros)

lemma balanced_eula [draw_intros]: "balanced (accept_eula e a)"
  unfolding accept_eula_def by (intro draw_intros)

subsection \<open>What a frame does to a report\<close>

lemma help_fields_waiting:
  assumes "egui_ok e" "help_promise h \<noteq> None"
    and "run_state (help_fields e platform version h) u = ((h', sent), u')"
  shows "h' = h \<and> sent = []"
  using assms(2,3) by (auto simp: help_fields_def draw_simps Let_def egui_disabled[OF assms(1)])

lemma help_fields_free:
  assumes "run_state (help_fields e platform version h) u = ((h', sent), u')"
  shows "\<exists>em tx. (h' = h\<lparr>help_email := em, help_text := tx\<rparr> \<and> sent = [])
    \<or> (h' = h\<lparr>help_email := em, help_text := tx, help_error := None, help_promise := Some Pending\<rparr>
        \<and> sent = [feedback_new platform version em tx])"
  using assms by (simp add: help_fields_def draw_simps Let_def split: if_splits) blast+

lemma run_help_answer: "fst (run_state (help_answer e h) u) = take_answer h"
  by (simp add: help_answer_def draw_simps split: option.splits)

lemma help_body_fields:
  assumes "run_state (help_body e platform version h) u = ((h', close, sent), u')"
  obtains h1 u1 u2 where "run_state (help_fields e platform version h) u1 = ((h1, sent), u2)"
    "(h', close) = take_answer h1"
proof -
  obtain u1 where u1: "run_state (help_body e platform version h) u =
    run_state (help_fields e platform version h \<bind> (\<lambda>(h, sent). help_answer e h \<bind>
      (\<lambda>(h, close). State_Monad.return (h, close, sent)))) u1"
    unfolding help_body_def by (simp add: run_show)
  obtain h1 s1 u2 where f: "run_state (help_fields e platform version h) u1 = ((h1, s1), u2)"
    by (metis prod.collapse)
  obtain h2 c2 u3 where t: "run_state (help_answer e h1) u2 = ((h2, c2), u3)" by (metis prod.collapse)
  have "s1 = sent" "(h', close) = (h2, c2)" using assms u1 f t by simp_all
  with that[OF f[unfolded \<open>s1 = sent\<close>]] t run_help_answer[of e h1 u2] show ?thesis by simp
qed

text \<open>A frame with the window: it only sends when nothing is on its way.\<close>

lemma help_render_cases:
  assumes "egui_ok e" "run_state (help_render e platform version h) u = ((h', sent), u')"
  obtains
    (closed) "\<not> help_open h" "h' = h" "sent = []"
  | (waiting) close where "help_open h" "help_promise h \<noteq> None" "sent = []"
      "h' = (fst (take_answer h))\<lparr>help_open := close\<rparr>" "snd (take_answer h) \<Longrightarrow> \<not> close"
  | (typing) em tx op where "help_open h" "help_promise h = None" "sent = []"
      "h' = h\<lparr>help_email := em, help_text := tx, help_open := op\<rparr>"
  | (sending) em tx op where "help_open h" "help_promise h = None"
      "sent = [feedback_new platform version em tx]"
      "h' = h\<lparr>help_email := em, help_text := tx, help_error := None, help_promise := Some Pending,
               help_open := op\<rparr>"
proof (cases "help_open h")
  case False
  then have "h' = h\<lparr>help_open := False\<rparr>" "sent = []"
    using assms(2) by (simp_all add: help_render_def)
  moreover have "h\<lparr>help_open := False\<rparr> = h" using False by (cases h) simp
  ultimately show ?thesis using False by (intro closed) simp_all
next
  case True
  obtain x u1 h1 close u2 where
    b: "run_state (help_body e platform version (h\<lparr>help_open := False\<rparr>)) u1 = ((h1, close, sent), u2)"
    and h': "h' = h1\<lparr>help_open := \<not> x \<and> \<not> close\<rparr>"
    using assms(2) True by (auto simp: help_render_def draw_simps split: prod.splits)
  have ta: "take_answer (h\<lparr>help_open := False\<rparr>) = ((fst (take_answer h))\<lparr>help_open := False\<rparr>, snd (take_answer h))"
    by (auto simp: take_answer_def split: option.splits promise.splits sum.splits)
  obtain h2 u3 u4 where f: "run_state (help_fields e platform version (h\<lparr>help_open := False\<rparr>)) u3 = ((h2, sent), u4)"
    "(h1, close) = take_answer h2" by (rule help_body_fields[OF b])
  show ?thesis
  proof (cases "help_promise h = None")
    case None: True
    from help_fields_free[OF f(1)] obtain em tx where
      "h2 = h\<lparr>help_open := False, help_email := em, help_text := tx\<rparr> \<and> sent = []
       \<or> h2 = h\<lparr>help_open := False, help_email := em, help_text := tx, help_error := None, help_promise := Some Pending\<rparr>
          \<and> sent = [feedback_new platform version em tx]" by blast
    then show ?thesis
    proof (elim disjE conjE)
      assume "h2 = h\<lparr>help_open := False, help_email := em, help_text := tx\<rparr>" "sent = []"
      with f(2) None h' True show ?thesis by (intro typing[where em = em and tx = tx and op = "\<not> x"]) (simp_all add: take_answer_def)
    next
      assume "h2 = h\<lparr>help_open := False, help_email := em, help_text := tx, help_error := None, help_promise := Some Pending\<rparr>"
        "sent = [feedback_new platform version em tx]"
      with f(2) None h' True show ?thesis by (intro sending[where em = em and tx = tx and op = "\<not> x"]) (simp_all add: take_answer_def)
    qed
  next
    case False
    have "h2 = h\<lparr>help_open := False\<rparr> \<and> sent = []"
      using help_fields_waiting[OF assms(1) _ f(1)] False by simp
    with f(2) ta False True h' show ?thesis by (intro waiting[where close = "\<not> x \<and> \<not> close"]) simp_all
  qed
qed

subsection \<open>Runs\<close>

text \<open>
  Frames, answers of the server and clicks on the menu in any order; a run keeps the reports that
  were sent and the answers that came back.
\<close>

datatype help_event = HelpFrame egui | HelpAnswered "str + str option" | HelpOpened

type_synonym help_world = "help_popup \<times> feedback list \<times> (str + str option) list"

definition help_frame :: "egui \<Rightarrow> str \<Rightarrow> str \<Rightarrow> help_popup \<Rightarrow> help_popup \<times> feedback list" where
  "help_frame e platform version h = fst (run_state (help_render e platform version h) ui_init)"

fun help_step :: "str \<Rightarrow> str \<Rightarrow> help_event \<Rightarrow> help_world \<Rightarrow> help_world" where
  "help_step platform version (HelpFrame e) (h, sent, answers) =
     (case help_frame e platform version h of (h', fs) \<Rightarrow> (h', sent @ fs, answers))"
| "help_step platform version (HelpAnswered response) (h, sent, answers) =
     (fetch_done response h, sent,
      if help_promise h = Some Pending then answers @ [response] else answers)"
| "help_step platform version HelpOpened (h, sent, answers) = (open_help h, sent, answers)"

definition help_run :: "str \<Rightarrow> str \<Rightarrow> help_event list \<Rightarrow> help_world \<Rightarrow> help_world" where
  "help_run platform version = fold (help_step platform version)"

definition outstanding :: "help_popup \<Rightarrow> nat" where
  "outstanding h = (if help_promise h = Some Pending then 1 else 0)"

fun help_inv :: "help_world \<Rightarrow> bool" where
  "help_inv (h, sent, answers) \<longleftrightarrow> length sent = length answers + outstanding h"

lemma take_answer_outstanding: "outstanding (fst (take_answer h)) = outstanding h"
  by (auto simp: take_answer_def outstanding_def split: option.splits promise.splits sum.splits)

lemma outstanding_open [simp]: "outstanding (h\<lparr>help_open := b\<rparr>) = outstanding h"
  by (simp add: outstanding_def)

lemma help_frame_inv:
  assumes "egui_ok e" "help_frame e platform version h = (h', fs)"
  shows "outstanding h' = outstanding h + length fs"
proof -
  obtain u' where r: "run_state (help_render e platform version h) ui_init = ((h', fs), u')"
    using assms(2) by (metis help_frame_def prod.collapse)
  show ?thesis
    using assms(1) r by (cases rule: help_render_cases)
      (simp_all add: take_answer_outstanding, simp_all add: outstanding_def)
qed

lemma help_step_inv:
  assumes "help_inv w" "\<And>e. st = HelpFrame e \<Longrightarrow> egui_ok e"
  shows "help_inv (help_step platform version st w)"
proof (cases w)
  case (fields h sent answers)
  show ?thesis
  proof (cases st)
    case (HelpFrame e)
    then show ?thesis
      using assms help_frame_inv[of e platform version h] by (auto simp: fields split: prod.splits)
  next
    case (HelpAnswered response)
    then show ?thesis using assms(1) by (auto simp: fields fetch_done_def outstanding_def)
  next
    case HelpOpened
    then show ?thesis using assms(1) by (simp add: fields open_help_def)
  qed
qed

lemma help_run_inv:
  "help_inv w \<Longrightarrow> (\<And>e. HelpFrame e \<in> set sts \<Longrightarrow> egui_ok e) \<Longrightarrow> help_inv (help_run platform version sts w)"
proof (induction sts arbitrary: w)
  case (Cons st sts)
  have "help_inv (help_step platform version st w)"
    using Cons.prems by (intro help_step_inv) auto
  then show ?case using Cons by (simp add: help_run_def)
qed (simp add: help_run_def)

text \<open>A frame that finds the answer of the server.\<close>

lemma help_frame_answer:
  assumes "egui_ok e" "help_open h" "help_promise h = Some (Ready res)"
    "help_frame e platform version h = (h', fs)"
  shows "fs = [] \<and> help_promise h' = None \<and>
    (case res of
       Inl err \<Rightarrow> help_email h' = help_email h \<and> help_text h' = help_text h \<and> help_error h' = Some err
     | Inr u \<Rightarrow> help_email h' = [] \<and> help_text h' = [] \<and> \<not> help_open h')"
proof -
  obtain u' where r: "run_state (help_render e platform version h) ui_init = ((h', fs), u')"
    using assms(4) by (metis help_frame_def prod.collapse)
  show ?thesis
    using assms(1) r by (cases rule: help_render_cases)
      (use assms(2,3) in \<open>auto simp: take_answer_def split: sum.splits\<close>)
qed

text \<open>
  C38. Reports of problems: whatever the user types and clicks, when the server answers and how
  often the window is opened and closed in between, at most one report is on its way, and every
  earlier one has had its answer. The frame that finds a failure shows it and keeps what the user
  wrote; the one that finds the \<^verbatim>\<open>ok\<close> clears the fields and closes the window.
\<close>

theorem help_reports:
  assumes "help_run platform version sts (help_default, [], []) = (h, sent, answers)"
    and "\<And>e'. HelpFrame e' \<in> set (HelpFrame e # sts) \<Longrightarrow> egui_ok e'"
    and "help_frame e platform version h = (h', fs)"
  shows "length sent = length answers + (if help_promise h = Some Pending then 1 else 0)
    \<and> (\<forall>err. help_open h \<and> help_promise h = Some (Ready (Inl err)) \<longrightarrow>
         fs = [] \<and> help_email h' = help_email h \<and> help_text h' = help_text h \<and> help_error h' = Some err)
    \<and> (help_open h \<and> help_promise h = Some (Ready (Inr ())) \<longrightarrow>
         fs = [] \<and> help_email h' = [] \<and> help_text h' = [] \<and> \<not> help_open h')"
proof -
  have "help_inv (h, sent, answers)"
    using help_run_inv[of "(help_default, [], [])" sts platform version] assms(1,2)
    by (simp add: outstanding_def help_default_def)
  moreover have "egui_ok e" using assms(2) by simp
  ultimately show ?thesis
    using help_frame_answer[OF _ _ _ assms(3)] by (fastforce simp: outstanding_def)
qed

text \<open>A report whose sending fails with the text \<open>!\<close>.\<close>

definition sample_report :: "help_event list" where
  "sample_report = [HelpOpened, HelpFrame (click_nth (Some 7)), HelpAnswered (Inl [0x21])]"

lemma sample_report_run:
  "help_run [] [] sample_report (help_default, [], []) =
     (help_default\<lparr>help_open := True, help_promise := Some (Ready (Inl [0x21]))\<rparr>,
      [feedback_new [] [] [] []], [Inl [0x21]])"
  by (simp add: sample_report_def help_run_def help_default_def open_help_def help_frame_def
      help_render_def help_body_def help_fields_def help_answer_def take_answer_def draw_simps ui_init_def
      click_nth_def fetch_done_def fetch_result_def Let_def)

theorem help_reports_witness:
  "\<exists>h sent answers h' fs. help_run [] [] sample_report (help_default, [], []) = (h, sent, answers)
     \<and> help_frame (click_nth None) [] [] h = (h', fs)
     \<and> length sent = 1 \<and> length answers = 1 \<and> fs = [] \<and> help_error h' = Some [0x21]"
proof -
  let ?h = "help_default\<lparr>help_open := True, help_promise := Some (Ready (Inl [0x21]))\<rparr>"
  obtain h' fs where f: "help_frame (click_nth None) [] [] ?h = (h', fs)" by (metis surj_pair)
  have "egui_ok e'" if "HelpFrame e' \<in> set (HelpFrame (click_nth None) # sample_report)" for e'
    using that by (auto simp: sample_report_def click_nth_ok)
  from help_reports[OF sample_report_run this f] f sample_report_run show ?thesis by fastforce
qed

end
