(* ===== verification/Updater_Gui.thy ===== *)
theory Updater_Gui
  imports Gui_State Ui
begin

text \<open>
  How the program updates itself: \<^verbatim>\<open>Updater::update\<close> and \<^verbatim>\<open>restart\<close> with their error reports
  (\<^verbatim>\<open>updater.rs\<close>, \<^verbatim>\<open>reporter.rs\<close>), the two threads that run them, and the line of the window that
  shows their progress (\<^verbatim>\<open>client-gui/src/updater_gui.rs\<close>).
\<close>

subsection \<open>Error reports\<close>

record update_report =
  rep_version :: str
  rep_target :: str
  rep_error :: str

definition UPDATE_ERROR_REPORT_URL :: str where
  "UPDATE_ERROR_REPORT_URL = str_lit ''https://api.craftip.net/v1/client/reporter/update_error''"

text \<open>
  What is posted; the answer of the server is only printed. \<open>debug\<close> is the debug text of an error
  and \<open>platform\<close> the platform the program was built for.
\<close>

definition report_update_error ::
  "(updater_error \<Rightarrow> str) \<Rightarrow> str \<Rightarrow> updater_error \<Rightarrow> str \<Rightarrow> update_report" where
  "report_update_error debug platform err current_version =
     \<lparr>rep_version = current_version, rep_target = platform, rep_error = debug err\<rparr>"

text \<open>The end of \<^verbatim>\<open>update\<close> and of \<^verbatim>\<open>restart\<close>: an error is reported and returned.\<close>

definition updater_update ::
  "'v update_api \<Rightarrow> (updater_error \<Rightarrow> str) \<Rightarrow> str \<Rightarrow> updater \<Rightarrow> update_env
     \<Rightarrow> ((updater_error + bytes) \<times> update_report list) option" where
  "updater_update api debug platform u env = map_option (\<lambda>res. (res, case res of
       Inl err \<Rightarrow> [report_update_error debug platform err (u_version u)]
     | Inr exe \<Rightarrow> [])) (update api u env)"

text \<open>
  \<^verbatim>\<open>exec\<close> replaces the process (on Windows it starts another one and exits), or it returns with an
  error: \<open>None\<close> is a restart from which nothing returns.
\<close>

definition updater_restart ::
  "(updater_error \<Rightarrow> str) \<Rightarrow> str \<Rightarrow> updater \<Rightarrow> bool \<Rightarrow> bool
     \<Rightarrow> (updater_error \<times> update_report list) option" where
  "updater_restart debug platform u current_exe_ok exec_ok =
    (if current_exe_ok \<and> exec_ok then None
     else Some (RestartFailed, [report_update_error debug platform RestartFailed (u_version u)]))"

subsection \<open>The threads\<close>

datatype thread_end =
    ThreadReturned bool
  | ThreadPanicked
  | ProcessReplaced
  | StillDownloading

text \<open>
  A run of a thread: what it sent to the window, the executable it installed, and its reports.
\<close>

record update_log =
  ul_sent :: "update_state list"
  ul_installed :: "bytes option"
  ul_reports :: "update_report list"
  ul_end :: thread_end

record thread_env =
  te_response :: release_response
  te_update :: update_env
  te_current_exe :: bool
  te_exec :: bool

definition stop_with :: "update_state list \<Rightarrow> thread_end \<Rightarrow> update_log" where
  "stop_with msgs en = \<lparr>ul_sent = msgs, ul_installed = None, ul_reports = [], ul_end = en\<rparr>"

text \<open>
  \<^verbatim>\<open>updater_no_consent\<close>, the thread that runs at each start of the program. It gives no value back.
\<close>

definition updater_no_consent ::
  "'v update_api \<Rightarrow> (updater_error \<Rightarrow> str) \<Rightarrow> str \<Rightarrow> str \<Rightarrow> thread_env \<Rightarrow> update_log" where
  "updater_no_consent api debug platform current env =
    (case updater_new api current platform (te_response env) of
       None \<Rightarrow> stop_with [] ThreadPanicked
     | Some (Inr None) \<Rightarrow> stop_with [UpToDate] (ThreadReturned True)
     | Some (Inl e) \<Rightarrow> stop_with [UpdateFailed e] (ThreadReturned True)
     | Some (Inr (Some u)) \<Rightarrow>
        (case updater_update api debug platform u (te_update env) of
           None \<Rightarrow> stop_with [Updating] StillDownloading
         | Some (Inl e, reps) \<Rightarrow> \<lparr>ul_sent = [Updating, UpdateFailed e], ul_installed = None,
             ul_reports = reps, ul_end = ThreadReturned True\<rparr>
         | Some (Inr exe, reps) \<Rightarrow>
            (case updater_restart debug platform u (te_current_exe env) (te_exec env) of
               None \<Rightarrow> \<lparr>ul_sent = [Updating], ul_installed = Some exe, ul_reports = reps,
                 ul_end = ProcessReplaced\<rparr>
             | Some (e, reps') \<Rightarrow> \<lparr>ul_sent = [Updating, UpdateFailed e], ul_installed = Some exe,
                 ul_reports = reps @ reps', ul_end = ThreadReturned True\<rparr>)))"

text \<open>
  \<^verbatim>\<open>updater_background_thread\<close> asks first: \<open>answer\<close> is what \<^verbatim>\<open>blocking_recv\<close> gives, \<open>None\<close> when the window
  is gone. A restart that fails is unwrapped.
\<close>

definition updater_background_thread ::
  "'v update_api \<Rightarrow> (updater_error \<Rightarrow> str) \<Rightarrow> str \<Rightarrow> str \<Rightarrow> bool option \<Rightarrow> thread_env \<Rightarrow> update_log" where
  "updater_background_thread api debug platform current answer env =
    (case updater_new api current platform (te_response env) of
       None \<Rightarrow> stop_with [] ThreadPanicked
     | Some (Inr None) \<Rightarrow> stop_with [UpToDate] (ThreadReturned True)
     | Some (Inl e) \<Rightarrow> stop_with [UpdateFailed e] (ThreadReturned False)
     | Some (Inr (Some u)) \<Rightarrow>
        (let found = NewVersionFound (get_update_info u);
             res = (case answer of Some b \<Rightarrow> b | None \<Rightarrow> False)
         in if \<not> res then stop_with [found] (ThreadReturned True)
            else (case updater_update api debug platform u (te_update env) of
               None \<Rightarrow> stop_with [found, Updating] StillDownloading
             | Some (Inl e, reps) \<Rightarrow> \<lparr>ul_sent = [found, Updating, UpdateFailed e],
                 ul_installed = None, ul_reports = reps, ul_end = ThreadReturned True\<rparr>
             | Some (Inr exe, reps) \<Rightarrow>
                (case updater_restart debug platform u (te_current_exe env) (te_exec env) of
                   None \<Rightarrow> \<lparr>ul_sent = [found, Updating], ul_installed = Some exe,
                     ul_reports = reps, ul_end = ProcessReplaced\<rparr>
                 | Some (e, reps') \<Rightarrow> \<lparr>ul_sent = [found, Updating], ul_installed = Some exe,
                     ul_reports = reps @ reps', ul_end = ThreadPanicked\<rparr>))))"

subsection \<open>The headline\<close>

text \<open>
  The version of the program, which copies the hash of its commit when it is clicked, and the
  progress; the result is whether the thread is told to go on.
\<close>

definition show_updater_error :: "updater_error \<Rightarrow> str" where
  "show_updater_error e = (case e of
     RequestError \<Rightarrow> str_lit ''HTTP Request failed''
   | ParsingError \<Rightarrow> str_lit ''Parsing error''
   | CouldNotParseVersion \<Rightarrow> str_lit ''Could not parse version''
   | TargetNotFound \<Rightarrow> str_lit ''OS architecture not available''
   | UpdateIoError \<Rightarrow> str_lit ''Could not write/read''
   | Base64DecodeError \<Rightarrow> str_lit ''Could not decode base64''
   | SignatureMatchFailed \<Rightarrow> str_lit ''Signature match failed''
   | DecompressionFailed \<Rightarrow> str_lit ''Decompression Failed''
   | ReplaceFailed \<Rightarrow> str_lit ''Could not replace program''
   | RestartFailed \<Rightarrow> str_lit ''Restart failed'')"

definition updater_gui_headline :: "egui \<Rightarrow> str \<Rightarrow> str \<Rightarrow> update_state \<Rightarrow> bool draw" where
  "updater_gui_headline e version git_hash status = do {
     copy_button e (Label (str_lit ''v'' @ version)) git_hash;
     case status of
       UpdateFailed err \<Rightarrow> do {
         show_widget e (ErrorLabel (str_lit ''Updater: '' @ show_updater_error err));
         State_Monad.return False }
     | CheckingForUpdate \<Rightarrow> do {
         show_widget e (Label (str_lit ''Checking for update...''));
         State_Monad.return False }
     | UpToDate \<Rightarrow> State_Monad.return False
     | NewVersionFound info \<Rightarrow> do {
         c \<leftarrow> clicked e (Button (str_lit ''Update''));
         show_widget e (Label (str_lit ''A new version '' @ info_version info @ str_lit '' is available!''));
         State_Monad.return c }
     | Updating \<Rightarrow> do {
         show_widget e (Label (str_lit ''Updating...''));
         State_Monad.return False }
   }"

lemma balanced_headline [draw_intros]: "balanced (updater_gui_headline e version git_hash status)"
  by (cases status) (auto simp: updater_gui_headline_def intro!: draw_intros)

subsection \<open>What the threads do\<close>

lemma updater_update_Some:
  "updater_update api debug platform u env = Some (res, reps) \<longleftrightarrow> update api u env = Some res
     \<and> reps = (case res of Inl err \<Rightarrow> [report_update_error debug platform err (u_version u)] | Inr exe \<Rightarrow> [])"
  by (auto simp: updater_update_def)

lemma updater_update_None:
  "updater_update api debug platform u env = None \<longleftrightarrow> update api u env = None"
  by (simp add: updater_update_def)

lemma updater_restart_Some:
  "updater_restart debug platform u a b = Some x \<Longrightarrow>
     x = (RestartFailed, [report_update_error debug platform RestartFailed (u_version u)])"
  by (simp add: updater_restart_def split: if_splits)

lemmas thread_simps = updater_no_consent_def updater_background_thread_def stop_with_def Let_def
  updater_update_Some updater_update_None

text \<open>Both threads act on the release that \<^verbatim>\<open>Updater::new\<close> found, and only on that.\<close>

lemma thread_log_cases:
  assumes "log = updater_no_consent api debug platform current env
    \<or> log = updater_background_thread api debug platform current answer env"
  obtains
    (none) "ul_installed log = None" "ul_reports log = []" "Updating \<notin> set (ul_sent log)"
      "\<And>b. ul_end log = ThreadReturned b \<Longrightarrow> ul_sent log \<noteq> []" "ul_end log \<noteq> ProcessReplaced"
  | (running) "ul_installed log = None" "ul_reports log = []" "ul_end log = StillDownloading"
  | (failed) u e where "updater_new api current platform (te_response env) = Some (Inr (Some u))"
      "ul_installed log = None" "ul_reports log = [report_update_error debug platform e (u_version u)]"
      "last (ul_sent log) = UpdateFailed e" "ul_sent log \<noteq> []" "ul_end log = ThreadReturned True"
  | (installed) u exe where "updater_new api current platform (te_response env) = Some (Inr (Some u))"
      "update api u (te_update env) = Some (Inr exe)" "ul_installed log = Some exe"
      "Updating \<in> set (ul_sent log)"
      "ul_end log = ProcessReplaced \<and> ul_reports log = []
       \<or> ul_reports log = [report_update_error debug platform RestartFailed (u_version u)]
         \<and> (ul_end log = ThreadPanicked
            \<or> ul_end log = ThreadReturned True \<and> last (ul_sent log) = UpdateFailed RestartFailed)"
proof (cases "updater_new api current platform (te_response env)")
  case None
  then show ?thesis using assms by (intro none) (auto simp: thread_simps)
next
  case (Some found)
  show ?thesis
  proof (cases found)
    case (Inl e)
    then show ?thesis using assms Some by (intro none) (auto simp: thread_simps)
  next
    case (Inr mu)
    show ?thesis
    proof (cases "mu = None \<or> Updating \<notin> set (ul_sent log)")
      case True
      then show ?thesis using assms Some Inr
        by (intro none) (auto simp: thread_simps split: option.splits prod.splits sum.splits if_splits)
    next
      case False
      then obtain u where u: "mu = Some u" and upd: "Updating \<in> set (ul_sent log)" by (cases mu) auto
      have new: "updater_new api current platform (te_response env) = Some (Inr (Some u))"
        by (simp add: Some Inr u)
      show ?thesis
      proof (cases "update api u (te_update env)")
        case None
        then show ?thesis using assms new upd by (intro running)
            (auto simp: thread_simps split: option.splits prod.splits sum.splits if_splits)
      next
        case (Some res)
        show ?thesis
        proof (cases res)
          case (Inl e)
          with Some show ?thesis using assms new upd by (intro failed[of u e])
              (auto simp: thread_simps split: option.splits prod.splits sum.splits if_splits)
        next
          case (Inr exe)
          with Some show ?thesis using assms new upd by (intro installed[of u exe])
              (auto simp: thread_simps split: option.splits prod.splits sum.splits if_splits
                dest: updater_restart_Some)
        qed
      qed
    qed
  qed
qed

lemma background_consent:
  "ul_installed (updater_background_thread api debug platform current answer env) \<noteq> None \<Longrightarrow>
     answer = Some True"
  by (auto simp: thread_simps split: option.splits sum.splits if_splits)

text \<open>
  A thread panics in two places: in \<^verbatim>\<open>Updater::new\<close>, when the own version does not parse, and, in the
  thread that asks, at the \<^verbatim>\<open>unwrap\<close> of a restart that failed.
\<close>

lemma background_panics:
  "ul_end (updater_background_thread api debug platform current answer env) = ThreadPanicked \<longleftrightarrow>
     updater_new api current platform (te_response env) = None
     \<or> ul_installed (updater_background_thread api debug platform current answer env) \<noteq> None
       \<and> \<not> (te_current_exe env \<and> te_exec env)"
  "ul_end (updater_background_thread api debug platform current answer env) = ThreadPanicked \<Longrightarrow>
     ul_sent (updater_background_thread api debug platform current answer env) \<noteq> [] \<Longrightarrow>
     last (ul_sent (updater_background_thread api debug platform current answer env)) = Updating"
  by (auto simp: thread_simps updater_restart_def split: option.splits sum.splits prod.splits if_splits)

lemma no_consent_panics:
  "ul_end (updater_no_consent api debug platform current env) = ThreadPanicked \<longleftrightarrow>
     updater_new api current platform (te_response env) = None"
  "ul_end (updater_no_consent api debug platform current env) = ThreadPanicked \<Longrightarrow>
     ul_sent (updater_no_consent api debug platform current env) = []"
  by (auto simp: thread_simps updater_restart_def split: option.splits sum.splits prod.splits if_splits)

text \<open>The rule of both threads that C13 is about, without the case of a panic.\<close>

definition update_thread_ok :: "'v update_api \<Rightarrow> str \<Rightarrow> str \<Rightarrow> thread_env \<Rightarrow> update_log \<Rightarrow> bool" where
  "update_thread_ok api platform current env log \<longleftrightarrow>
     (\<forall>exe. ul_installed log = Some exe \<longrightarrow> Updating \<in> set (ul_sent log)
      \<and> (\<exists>u archive unpacked signature running new.
            updater_new api current platform (te_response env) = Some (Inr (Some u))
          \<and> xz_decode api archive = Some unpacked
          \<and> (exe = unpacked \<or> (\<exists>m. up_room (ue_unpack (te_update env)) = Some m
              \<and> m < length unpacked \<and> length unpacked \<le> m + 8192 \<and> exe = take m unpacked))
          \<and> ed_verify api DISTRIBUTION_PUBLIC_KEY
              (get_bytes_for_signature (sha512 api archive) (u_version u)) signature
          \<and> version_parse api current = Some running \<and> version_parse api (u_version u) = Some new
          \<and> \<not> version_ge api running new))
    \<and> (ul_end log = ProcessReplaced \<longrightarrow> ul_installed log \<noteq> None \<and> ul_reports log = [])
    \<and> (\<forall>b. ul_end log = ThreadReturned b \<longrightarrow> ul_sent log \<noteq> [] \<and> last (ul_sent log) \<noteq> Updating)
    \<and> (\<forall>r \<in> set (ul_reports log). \<exists>u. rep_version r = u_version u
        \<and> updater_new api current platform (te_response env) = Some (Inr (Some u)))"

lemma update_thread_rule:
  assumes "update_api_ok api"
    and "log = updater_no_consent api debug platform current env
       \<or> log = updater_background_thread api debug platform current answer env"
  shows "update_thread_ok api platform current env log"
  using assms(2)
proof (cases rule: thread_log_cases)
  case none
  then show ?thesis using last_in_set unfolding update_thread_ok_def by fastforce
next
  case running
  then show ?thesis by (simp add: update_thread_ok_def)
next
  case (failed u e)
  then show ?thesis by (auto simp: report_update_error_def update_thread_ok_def)
next
  case (installed u exe)
  have "\<exists>archive unpacked signature running new.
      xz_decode api archive = Some unpacked
      \<and> (exe = unpacked \<or> (\<exists>m. up_room (ue_unpack (te_update env)) = Some m
          \<and> m < length unpacked \<and> length unpacked \<le> m + 8192 \<and> exe = take m unpacked))
      \<and> ed_verify api DISTRIBUTION_PUBLIC_KEY
          (get_bytes_for_signature (sha512 api archive) (u_version u)) signature
      \<and> version_parse api current = Some running \<and> version_parse api (u_version u) = Some new
      \<and> \<not> version_ge api running new"
    using update_signed[OF assms(1) installed(1,2)] by blast
  moreover have "last (ul_sent log) \<noteq> Updating \<and> ul_sent log \<noteq> []" if "ul_end log = ThreadReturned b" for b
    using installed(4,5) that by auto
  moreover have "rep_version r = u_version u" if "r \<in> set (ul_reports log)" for r
    using installed(5) that by (auto simp: report_update_error_def)
  moreover have "ul_reports log = []" if "ul_end log = ProcessReplaced"
    using installed(5) that by auto
  ultimately show ?thesis
    unfolding update_thread_ok_def using installed(1,3,4) by (metis option.inject option.distinct(1))
qed

text \<open>
  C13. The threads that update the program. An executable is only installed when the release is a
  newer one and its archive is signed (it is what the archive unpacks to, or that cut off in the last
  buffer when its flush failed); then the window was told that the update runs, and, in the thread
  that asks first, the user agreed. The process is only replaced after an installation and without an
  error. A thread that returns has told the window something else than \<open>Updating\<close> as its last word,
  so the headline does not stay there. A thread panics exactly when the own version does not parse,
  and then the window is told nothing, and, in the thread that asks, when the restart fails after an
  installation, and then the window stays at \<open>Updating\<close> for ever. Reports name the version of the
  release, not the one that is running and failed.
\<close>

theorem update_threads:
  assumes "update_api_ok api"
    and "silent = updater_no_consent api debug platform current env"
    and "asking = updater_background_thread api debug platform current answer env"
  shows "update_thread_ok api platform current env silent
    \<and> update_thread_ok api platform current env asking
    \<and> (ul_installed asking \<noteq> None \<longrightarrow> answer = Some True)
    \<and> (ul_end silent = ThreadPanicked \<longleftrightarrow> updater_new api current platform (te_response env) = None)
    \<and> (ul_end silent = ThreadPanicked \<longrightarrow> ul_sent silent = [])
    \<and> (ul_end asking = ThreadPanicked \<longleftrightarrow> updater_new api current platform (te_response env) = None
        \<or> ul_installed asking \<noteq> None \<and> \<not> (te_current_exe env \<and> te_exec env))
    \<and> (ul_end asking = ThreadPanicked \<longrightarrow> ul_sent asking = [] \<or> last (ul_sent asking) = Updating)"
proof (intro conjI)
  show "update_thread_ok api platform current env silent"
    "update_thread_ok api platform current env asking"
    using update_thread_rule assms by blast+
  show "ul_installed asking \<noteq> None \<longrightarrow> answer = Some True"
    unfolding assms(3) using background_consent by blast
  show "ul_end silent = ThreadPanicked \<longleftrightarrow> updater_new api current platform (te_response env) = None"
    "ul_end silent = ThreadPanicked \<longrightarrow> ul_sent silent = []"
    unfolding assms(2) using no_consent_panics by blast+
  show "ul_end asking = ThreadPanicked \<longleftrightarrow> updater_new api current platform (te_response env) = None
      \<or> ul_installed asking \<noteq> None \<and> \<not> (te_current_exe env \<and> te_exec env)"
    "ul_end asking = ThreadPanicked \<longrightarrow> ul_sent asking = [] \<or> last (ul_sent asking) = Updating"
    unfolding assms(3) using background_panics by blast+
qed

text \<open>An update whose archive is signed and whose restart fails.\<close>

definition sample_thread_env :: thread_env where
  "sample_thread_env =
    \<lparr>te_response = Release (sample_release [7, 8]), te_update = smooth [[0xFD, 7, 8]],
     te_current_exe = True, te_exec = False\<rparr>"

abbreviation sample_silent_log :: update_log where
  "sample_silent_log \<equiv> updater_no_consent sample_update_api (\<lambda>e. [1]) [5] [9] sample_thread_env"

abbreviation sample_asking_log :: update_log where
  "sample_asking_log \<equiv>
     updater_background_thread sample_update_api (\<lambda>e. [1]) [5] [9] (Some True) sample_thread_env"

theorem update_threads_witness:
  "ul_installed sample_silent_log = Some [7, 8] \<and> ul_installed sample_asking_log = Some [7, 8]
    \<and> update_thread_ok sample_update_api [5] [9] sample_thread_env sample_silent_log
    \<and> ul_end sample_silent_log \<noteq> ThreadPanicked \<and> ul_end sample_asking_log = ThreadPanicked
    \<and> last (ul_sent sample_asking_log) = Updating"
proof -
  have env: "te_response sample_thread_env = Release (sample_release [7, 8])"
    "te_update sample_thread_env = smooth [[0xFD, 7, 8]]"
    "te_current_exe sample_thread_env" "\<not> te_exec sample_thread_env"
    by (simp_all add: sample_thread_env_def)
  have log: "ul_installed sample_silent_log = Some [7, 8]" "ul_installed sample_asking_log = Some [7, 8]"
    "ul_sent sample_asking_log \<noteq> []"
    by (simp_all add: updater_no_consent_def updater_background_thread_def sample_signed_new
        updater_update_def env sample_signed_update updater_restart_def Let_def)
  show ?thesis
    using update_threads[OF sample_update_api_ok refl refl, where debug = "\<lambda>e. [1]" and platform = "[5]"
        and current = "[9]" and env = sample_thread_env and answer = "Some True"]
      log env sample_signed_new[of "[7, 8]"] by simp
qed

end
