(* ===== verification/Gui_Window.thy ===== *)
theory Gui_Window
  imports Server_Panel Help_Popup Updater_Gui
begin

text \<open>
  The window of the graphical client, \<^verbatim>\<open>MyApp\<close> of \<^verbatim>\<open>client-gui/src/main.rs\<close>: what it reads from the
  storage when it starts, one frame, and what it saves. The storage and serde\_json are parameters.
\<close>

subsection \<open>State and storage\<close>

record my_app =
  app_state :: gui_state
  app_frames :: nat
  app_help :: help_popup
  app_eula :: bool

record servers_json =
  servers_to_json :: "server list \<Rightarrow> str"
  servers_from_json :: "str \<Rightarrow> server list option"

definition servers_json_ok :: "servers_json \<Rightarrow> bool" where
  "servers_json_ok json \<longleftrightarrow> (\<forall>s. servers_from_json json (servers_to_json json s) = Some s)"

type_synonym storage = "str \<Rightarrow> str option"

text \<open>
  \<^verbatim>\<open>MyApp::new\<close>: a panel for each stored server, or for one with the key \<open>fresh\<close> that has just been
  generated. \<open>None\<close> is the panic on stored text that is not a list of servers.
\<close>

definition app_new :: "servers_json \<Rightarrow> storage \<Rightarrow> server \<Rightarrow> my_app option" where
  "app_new json storage fresh =
    (case (case storage (str_lit ''servers'') of
        Some txt \<Rightarrow> servers_from_json json txt
      | None \<Rightarrow> Some [fresh]) of
       None \<Rightarrow> None
     | Some srvs \<Rightarrow> Some \<lparr>app_state = gui_new\<lparr>gs_servers := Some (map panel_of_server srvs)\<rparr>,
         app_frames = 0, app_help = help_default,
         app_eula = (map_option (\<lambda>s. s = str_lit ''true'') (storage (str_lit ''eula_accepted'')) = Some True)\<rparr>)"

text \<open>
  \<^verbatim>\<open>save\<close>; \<open>None\<close> is the panic when there are no servers, or when the lock of the state is \<open>poisoned\<close>.
\<close>

definition app_save :: "servers_json \<Rightarrow> bool \<Rightarrow> my_app \<Rightarrow> storage \<Rightarrow> storage option" where
  "app_save json poisoned app storage = (if poisoned then None else map_option (\<lambda>ps. storage
     (str_lit ''servers'' \<mapsto> servers_to_json json (map server_of_panel ps),
      str_lit ''eula_accepted'' \<mapsto> (if app_eula app then str_lit ''true'' else str_lit ''false'')))
     (gs_servers (app_state app)))"

subsection \<open>A frame\<close>

record build_info =
  bi_platform :: str
  bi_version :: str
  bi_git_hash :: str

text \<open>
  The panels in turn, as they are after the frame, and the events they sent; \<open>already_connected\<close> is
  computed before the first of them is drawn.
\<close>

primrec render_panels ::
  "egui \<Rightarrow> bool \<Rightarrow> bool \<Rightarrow> server_panel list \<Rightarrow> (server_panel list \<times> gui_event list) option draw" where
  "render_panels e alive already_connected [] = State_Monad.return (Some ([], []))"
| "render_panels e alive already_connected (p # ps) = do {
     r \<leftarrow> panel_render e alive (\<not> already_connected \<or> panel_state p \<noteq> PanelDisconnected) p;
     (case r of
        None \<Rightarrow> State_Monad.return None
      | Some (q, evs) \<Rightarrow> do {
          r' \<leftarrow> render_panels e alive already_connected ps;
          State_Monad.return (map_option (\<lambda>(qs, evs'). (q # qs, evs @ evs')) r')
        })
   }"

definition render_servers ::
  "egui \<Rightarrow> bool \<Rightarrow> server_panel list option \<Rightarrow> (server_panel list option \<times> gui_event list) option draw" where
  "render_servers e alive srvs = (case srvs of
     None \<Rightarrow> do { show_widget e Spinner; State_Monad.return (Some (None, [])) }
   | Some ps \<Rightarrow> do {
       r \<leftarrow> render_panels e alive (list_ex active ps) ps;
       (if ps = [] then show_widget e (Label (str_lit ''No servers found'')) else skip);
       State_Monad.return (map_option (\<lambda>(qs, evs). (Some qs, evs)) r)
     })"

text \<open>The menu; the result is whether help was asked for and whether the update was started.\<close>

definition menu_bar :: "egui \<Rightarrow> build_info \<Rightarrow> gui_state \<Rightarrow> (bool \<times> bool) draw" where
  "menu_bar e info gs = scope (do {
     show_widget e (Heading (str_lit ''CraftIP''));
     (if gs_loading gs then show_widget e Spinner else skip);
     help \<leftarrow> clicked e (Button (str_lit ''Report a problem''));
     go \<leftarrow> scope (updater_gui_headline e (bi_version info) (bi_git_hash info) (gs_update_status gs));
     State_Monad.return (help, go)
   })"

definition error_line :: "egui \<Rightarrow> str option \<Rightarrow> str option draw" where
  "error_line e err = (case err of
     None \<Rightarrow> State_Monad.return None
   | Some t \<Rightarrow> do {
       show_widget e (ErrorLabel t);
       ok \<leftarrow> clicked e (Button (str_lit ''OK''));
       State_Monad.return (if ok then None else err)
     })"

text \<open>
  \<^verbatim>\<open>update\<close>: the events go to the controller, the reports to the server of the project, and
  \<open>fo_update\<close> tells the updater thread to go on. \<open>None\<close> is a panic.
\<close>

record frame_out =
  fo_app :: my_app
  fo_events :: "gui_event list"
  fo_reports :: "feedback list"
  fo_update :: bool

text \<open>
  What is drawn over the rest: the licence, until it has been accepted, and the help window.
\<close>

definition app_overlay :: "egui \<Rightarrow> build_info \<Rightarrow> my_app \<Rightarrow> (bool \<times> help_popup \<times> feedback list) draw" where
  "app_overlay e info app = do {
     eula \<leftarrow> (if \<not> app_eula app then accept_eula e (app_eula app) else State_Monad.return True);
     (help, reports) \<leftarrow> help_render e (bi_platform info) (bi_version info) (app_help app);
     State_Monad.return (eula, help, reports)
   }"

definition app_draw :: "egui \<Rightarrow> build_info \<Rightarrow> bool \<Rightarrow> my_app \<Rightarrow> frame_out option draw" where
  "app_draw e info alive app = do {
     (eula, help, reports) \<leftarrow> app_overlay e info app;
     disable_if (help_open help \<or> \<not> eula);
     (ask, go) \<leftarrow> menu_bar e info (app_state app);
     r \<leftarrow> render_servers e alive (gs_servers (app_state app));
     err \<leftarrow> error_line e (gs_error (app_state app));
     State_Monad.return (map_option (\<lambda>(srvs, evs).
       \<lparr>fo_app = app\<lparr>app_state := (app_state app)\<lparr>gs_servers := srvs, gs_error := err\<rparr>,
                      app_frames := app_frames app + 1,
                      app_help := (if ask then open_help help else help), app_eula := eula\<rparr>,
        fo_events = evs, fo_reports = reports, fo_update = go\<rparr>) r)
   }"

text \<open>
  The lock of the state is taken for the whole frame; when a task has panicked while it held the
  lock, it is \<open>poisoned\<close> and the \<^verbatim>\<open>unwrap\<close> panics. The controller receives events while it is \<open>alive\<close>.
\<close>

definition app_frame :: "egui \<Rightarrow> build_info \<Rightarrow> bool \<Rightarrow> bool \<Rightarrow> my_app \<Rightarrow> frame_out option" where
  "app_frame e info poisoned alive app =
     (if poisoned then None else fst (run_state (scope (app_draw e info alive app)) ui_init))"

subsection \<open>What a frame does to the panels\<close>

lemma button_clicked_Some:
  assumes "panel_state q \<noteq> PanelDisconnecting"
  obtains p' ev where "button_clicked True q = Some (p', [ev])"
    "panel_state p' = (if panel_state q = PanelDisconnected then PanelConnecting 0 else PanelDisconnecting)"
    "(\<exists>srv. ev = ConnectTo srv) \<longleftrightarrow> panel_state q = PanelDisconnected"
proof -
  have "\<exists>p' ev. button_clicked True q = Some (p', [ev]) \<and>
    panel_state p' = (if panel_state q = PanelDisconnected then PanelConnecting 0 else PanelDisconnecting)
    \<and> ((\<exists>srv. ev = ConnectTo srv) \<longleftrightarrow> panel_state q = PanelDisconnected)"
    using assms by (cases "panel_state q") (simp_all add: button_clicked_def Let_def)
  with that show ?thesis by blast
qed

lemma port_change_refl [simp]: "port_change p p"
  by (simp add: port_change_def)

text \<open>
  What a frame does to the panels, and the events it sends. A panel whose button is not pressed
  changes at most its port and sends nothing. A button that is pressed sends one event; it was not
  waiting for a disconnect, its port was not being edited, and if a server was active when the frame
  began (\<open>connected\<close>), it is that of an active panel. In particular the \<^verbatim>\<open>unreachable!\<close> is unreachable.
\<close>

inductive panels_drawn ::
  "bool \<Rightarrow> server_panel list \<Rightarrow> server_panel list \<Rightarrow> gui_event list \<Rightarrow> bool" for connected where
  none: "panels_drawn connected [] [] []"
| idle: "port_change p q \<Longrightarrow> panels_drawn connected ps qs evs
    \<Longrightarrow> panels_drawn connected (p # ps) (q # qs) evs"
| press: "port_change p q \<Longrightarrow> edit_local q = None \<Longrightarrow> panel_state q \<noteq> PanelDisconnecting
    \<Longrightarrow> (connected \<Longrightarrow> active p) \<Longrightarrow> button_clicked True q = Some (p', [ev])
    \<Longrightarrow> panels_drawn connected ps qs evs \<Longrightarrow> panels_drawn connected (p # ps) (p' # qs) (ev # evs)"

lemma panels_drawn_refl: "panels_drawn connected ps ps []"
  by (induction ps) (auto intro: panels_drawn.intros)

lemma render_panels_cases:
  assumes "egui_ok e"
  shows "\<exists>qs evs u'. run_state (render_panels e True ac ps) u = (Some (qs, evs), u')
    \<and> panels_drawn ac ps qs evs \<and> (ui_enabled u \<or> qs = ps \<and> evs = [])"
proof (induction ps arbitrary: u)
  case Nil
  then show ?case by (simp add: panels_drawn.none)
next
  case (Cons p ps)
  let ?en = "\<not> ac \<or> panel_state p \<noteq> PanelDisconnected"
  obtain r u1 where r: "run_state (panel_render e True ?en p) u = (r, u1)" by (metis surj_pair)
  have en1: "ui_enabled u1 = ui_enabled u" by (rule balancedD[OF _ r]) (intro draw_intros)
  obtain qs evs u2 where r2: "run_state (render_panels e True ac ps) u1 = (Some (qs, evs), u2)"
    and rest: "panels_drawn ac ps qs evs" "ui_enabled u \<or> qs = ps \<and> evs = []"
    using Cons.IH[of u1] en1 by auto
  from assms r show ?case
  proof (cases rule: panel_render_cases)
    case (idle q)
    have "run_state (render_panels e True ac (p # ps)) u = (Some (q # qs, evs), u2)"
      using r r2 by (simp add: idle(1))
    with rest idle(2,3) show ?thesis by (auto intro: panels_drawn.idle)
  next
    case (click q)
    obtain p' ev where b: "button_clicked True q = Some (p', [ev])"
      using button_clicked_Some[OF click(5)] by blast
    have "run_state (render_panels e True ac (p # ps)) u = (Some (p' # qs, ev # evs), u2)"
      using r r2 by (simp add: click(6) b)
    moreover have "panels_drawn ac (p # ps) (p' # qs) (ev # evs)"
      using click(2) by (intro panels_drawn.press[OF click(3-5) _ b rest(1)]) (auto simp: active_def)
    ultimately show ?thesis using click(1) by blast
  qed
qed

lemma render_panels_gone:
  "fst (run_state (render_panels e False ac ps) u) = gone (fst (run_state (render_panels e True ac ps) u))
   \<and> (fst (run_state (render_panels e False ac ps) u) \<noteq> None \<longrightarrow>
        run_state (render_panels e False ac ps) u = run_state (render_panels e True ac ps) u)"
proof (induction ps arbitrary: u)
  case (Cons p ps)
  let ?en = "ac \<longrightarrow> panel_state p \<noteq> PanelDisconnected"
  obtain r u1 where r: "run_state (panel_render e True ?en p) u = (r, u1)" by (metis surj_pair)
  obtain r2 u2 where r2: "run_state (render_panels e True ac ps) u1 = (r2, u2)" by (metis surj_pair)
  obtain r3 u3 where r3: "run_state (render_panels e False ac ps) u1 = (r3, u3)" by (metis surj_pair)
  have ih: "r3 = gone r2" "r3 \<noteq> None \<Longrightarrow> r3 = r2 \<and> u3 = u2" using Cons.IH[of u1] r2 r3 by auto
  show ?case
  proof (cases "\<exists>q. r = Some (q, [])")
    case True
    then obtain q where q: "r = Some (q, [])" by blast
    have T: "run_state (render_panels e True ac (p # ps)) u = (map_option (\<lambda>(qs, evs). (q # qs, evs)) r2, u2)"
      by (simp add: r r2 q)
    have F: "run_state (render_panels e False ac (p # ps)) u = (map_option (\<lambda>(qs, evs). (q # qs, evs)) r3, u3)"
      by (simp add: panel_render_gone r r3 q)
    have "gone (map_option (\<lambda>(qs, evs). (q # qs, evs)) r2) = map_option (\<lambda>(qs, evs). (q # qs, evs)) (gone r2)"
      by (cases r2) (auto simp: gone_def split: list.splits)
    with ih show ?thesis unfolding T F by auto
  next
    case False
    have "gone (fst (run_state (render_panels e True ac (p # ps)) u)) = None"
    proof (cases r)
      case (Some x)
      with False obtain q ev evs where "r = Some (q, ev # evs)" by (metis neq_Nil_conv prod.collapse)
      then show ?thesis by (cases r2) (auto simp: r r2)
    qed (simp add: r)
    moreover have "gone r = None"
      using False by (auto simp: gone_def split: option.splits prod.splits list.splits)
    then have "run_state (render_panels e False ac (p # ps)) u = (None, u1)"
      by (simp add: panel_render_gone r)
    ultimately show ?thesis by simp
  qed
qed (simp add: gone_def)

lemma balanced_menu [draw_intros]: "balanced (menu_bar e info gs)"
  unfolding menu_bar_def by (intro draw_intros)

lemma render_servers_cases:
  assumes "egui_ok e"
  shows "\<exists>qs evs u'. run_state (render_servers e True (Some ps)) u = (Some (Some qs, evs), u')
    \<and> panels_drawn (list_ex active ps) ps qs evs \<and> (ui_enabled u \<or> qs = ps \<and> evs = [])
    \<and> fst (run_state (render_servers e False (Some ps)) u) = gone (Some (Some qs, evs))
    \<and> (evs = [] \<longrightarrow> run_state (render_servers e False (Some ps)) u = (Some (Some qs, evs), u'))"
proof -
  obtain qs evs u1 where r: "run_state (render_panels e True (list_ex active ps) ps) u = (Some (qs, evs), u1)"
    and c: "panels_drawn (list_ex active ps) ps qs evs" "ui_enabled u \<or> qs = ps \<and> evs = []"
    using render_panels_cases[OF assms] by blast
  define none where "none = (if ps = [] then show_widget e (Label (str_lit ''No servers found'')) else skip)"
  obtain u2 where u2: "run_state none u1 = ((), u2)" by (cases "run_state none u1") simp
  have run: "run_state (render_servers e True (Some ps)) u = (Some (Some qs, evs), u2)"
    by (simp only: render_servers_def option.case none_def[symmetric] run_state_bind r u2 prod.case run_state_return option.map)
  obtain r3 u3 where r3: "run_state (render_panels e False (list_ex active ps) ps) u = (r3, u3)"
    by (metis surj_pair)
  obtain u4 where u4: "run_state none u3 = ((), u4)" by (cases "run_state none u3") simp
  have g: "r3 = gone (Some (qs, evs))" "r3 \<noteq> None \<Longrightarrow> r3 = Some (qs, evs) \<and> u3 = u1"
    using render_panels_gone[of e "list_ex active ps" ps u] r r3 by auto
  have run': "run_state (render_servers e False (Some ps)) u = (map_option (\<lambda>(qs, evs). (Some qs, evs)) r3, u4)"
    by (simp only: render_servers_def option.case none_def[symmetric] run_state_bind r3 u4 prod.case run_state_return)
  show ?thesis
    using run run' c g u2 u4 by (cases evs) auto
qed

text \<open>A whole frame, with the controller and without it.\<close>

lemma app_frame_cases:
  assumes "egui_ok e" "gs_servers (app_state app) = Some ps"
    and "fst (run_state (app_overlay e info app) ui_init) = (eula, hp, reports)"
  shows "\<exists>out qs. app_frame e info False True app = Some out
    \<and> gs_servers (app_state (fo_app out)) = Some qs
    \<and> panels_drawn (list_ex active ps) ps qs (fo_events out)
    \<and> app_eula (fo_app out) = eula
    \<and> (help_open hp \<or> \<not> eula \<longrightarrow> qs = ps \<and> fo_events out = [])
    \<and> app_frame e info False False app = (if fo_events out = [] then Some out else None)"
proof -
  obtain u2 where r2: "run_state (app_overlay e info app) ui_init = ((eula, hp, reports), u2)"
    using assms(3) by (metis prod.collapse)
  define u3 where "u3 = (if help_open hp \<or> \<not> eula then u2\<lparr>ui_enabled := False\<rparr> else u2)"
  obtain ask go u4 where r4: "run_state (menu_bar e info (app_state app)) u3 = ((ask, go), u4)" by (metis surj_pair)
  obtain qs evs u5 where r5: "run_state (render_servers e True (Some ps)) u4 = (Some (Some qs, evs), u5)"
    and c: "panels_drawn (list_ex active ps) ps qs evs" "ui_enabled u4 \<or> qs = ps \<and> evs = []"
    and g: "fst (run_state (render_servers e False (Some ps)) u4) = gone (Some (Some qs, evs))"
      "evs = [] \<longrightarrow> run_state (render_servers e False (Some ps)) u4 = (Some (Some qs, evs), u5)"
    using render_servers_cases[OF assms(1)] by blast
  obtain err u6 where r6: "run_state (error_line e (gs_error (app_state app))) u5 = (err, u6)" by (metis surj_pair)
  define out where "out = \<lparr>fo_app = app\<lparr>app_state := (app_state app)\<lparr>gs_servers := Some qs, gs_error := err\<rparr>,
      app_frames := app_frames app + 1, app_help := (if ask then open_help hp else hp), app_eula := eula\<rparr>,
    fo_events = evs, fo_reports = reports, fo_update = go\<rparr>"
  have dis: "run_state (disable_if (help_open hp \<or> \<not> eula)) u2 = ((), u3)"
    by (simp add: run_disable_if u3_def)
  note steps = app_frame_def app_draw_def run_scope run_state_bind r2 dis r4 assms(2)
  have run: "app_frame e info False True app = Some out"
    by (simp add: steps r5 r6 out_def)
  have run': "app_frame e info False False app = (if evs = [] then Some out else None)"
  proof (cases evs)
    case Nil
    with g(2) show ?thesis by (simp add: steps r6 out_def)
  next
    case (Cons ev evs')
    with g(1) obtain u7 where "run_state (render_servers e False (Some ps)) u4 = (None, u7)"
      by (metis gone_simps(3) prod.collapse)
    then show ?thesis by (simp add: steps Cons split: prod.splits)
  qed
  have en: "ui_enabled u4 \<Longrightarrow> \<not> help_open hp \<and> eula"
    using balancedD[OF balanced_menu r4] by (auto simp: u3_def split: if_splits)
  show ?thesis
    using run run' c en by (intro exI[of _ out] exI[of _ qs]) (auto simp: out_def)
qed

text \<open>The panels whose state a frame changes are those whose button was pressed, one event for each.\<close>

lemma panels_drawn_events:
  assumes "panels_drawn connected ps qs evs"
  shows "length qs = length ps
    \<and> length evs = length (filter (\<lambda>(p, q). panel_state q \<noteq> panel_state p) (zip ps qs))"
  using assms
proof induction
  case (idle p q ps qs evs)
  then show ?case by (simp add: port_change_state)
next
  case (press p q p' ev ps qs evs)
  obtain p1 ev1 where "button_clicked True q = Some (p1, [ev1])"
    "panel_state p1 = (if panel_state q = PanelDisconnected then PanelConnecting 0 else PanelDisconnecting)"
    using button_clicked_Some[OF press(3)] by blast
  with press(3,5) have "panel_state p' \<noteq> panel_state q" by (auto split: if_splits)
  with press show ?case by (simp add: port_change_state)
qed simp

text \<open>
  C17. What a frame of the window can do. When a task has panicked with the lock of the state, it
  panics. Otherwise, as long as the controller is there, it does not, whatever the user does, and the
  panels change as the rules of \<open>panels_drawn\<close> say: one event goes to the controller for each panel
  whose state changes. Nothing changes and nothing is sent when the licence has not been accepted, or
  when the help window stays open over the rest. Without the controller the frame panics exactly if
  an event would be sent.
\<close>

theorem frame_gated:
  assumes "egui_ok e" "gs_servers (app_state app) = Some ps"
    and "fst (run_state (app_overlay e info app) ui_init) = (eula, hp, reports)"
  shows "app_frame e info True alive app = None
    \<and> (\<exists>out qs. app_frame e info False True app = Some out \<and> gs_servers (app_state (fo_app out)) = Some qs
      \<and> panels_drawn (list_ex active ps) ps qs (fo_events out)
      \<and> length (fo_events out) = length (filter (\<lambda>(p, q). panel_state q \<noteq> panel_state p) (zip ps qs))
      \<and> (\<not> app_eula (fo_app out) \<or> help_open hp \<longrightarrow> qs = ps \<and> fo_events out = [])
      \<and> app_frame e info False False app = (if fo_events out = [] then Some out else None))"
proof -
  obtain out qs where o: "app_frame e info False True app = Some out"
    "gs_servers (app_state (fo_app out)) = Some qs"
    "panels_drawn (list_ex active ps) ps qs (fo_events out)" "app_eula (fo_app out) = eula"
    "help_open hp \<or> \<not> eula \<longrightarrow> qs = ps \<and> fo_events out = []"
    "app_frame e info False False app = (if fo_events out = [] then Some out else None)"
    using app_frame_cases[OF assms] by blast
  with panels_drawn_events[OF o(3)] show ?thesis
    by (intro conjI exI[of _ out] exI[of _ qs]) (auto simp: app_frame_def)
qed

subsection \<open>Storage\<close>

text \<open>
  What is saved is found again: a window that was saved starts with the same servers, keys and
  local addresses, each of them disconnected, and with the licence accepted exactly if it was.
  What was being edited, errors and pings are not kept.
\<close>

lemma save_restore:
  assumes "servers_json_ok json" "app_save json False app storage = Some storage'"
  shows "\<exists>app' ps. app_new json storage' fresh = Some app' \<and> gs_servers (app_state app) = Some ps
    \<and> gs_servers (app_state app') = Some (map (\<lambda>p. p\<lparr>edit_local := None, panel_state := PanelDisconnected,
          panel_ping := None, panel_error := None\<rparr>) ps)
    \<and> app_eula app' = app_eula app \<and> app_help app' = help_default"
proof -
  obtain ps where ps: "gs_servers (app_state app) = Some ps"
    and st: "storage' = storage(str_lit ''servers'' \<mapsto> servers_to_json json (map server_of_panel ps),
      str_lit ''eula_accepted'' \<mapsto> (if app_eula app then str_lit ''true'' else str_lit ''false''))"
    using assms(2) by (auto simp: app_save_def)
  have key: "str_lit ''servers'' \<noteq> str_lit ''eula_accepted''" "str_lit ''false'' \<noteq> str_lit ''true''"
    by (simp_all add: str_lit_Cons)
  have panel: "panel_of_server (server_of_panel p) = p\<lparr>edit_local := None, panel_state := PanelDisconnected,
      panel_ping := None, panel_error := None\<rparr>" for p
    by (simp add: panel_of_server_def server_of_panel_def)
  show ?thesis
    using assms(1) key by (simp add: app_new_def st ps servers_json_ok_def gui_new_def panel comp_def)
qed

subsection \<open>Samples\<close>

text \<open>A concrete text form of server lists: a byte before each byte and each server, and an end mark.\<close>

definition put_text :: "bytes \<Rightarrow> str" where
  "put_text bs = concat (map (\<lambda>b. [1, b]) bs) @ [0]"

fun get_text :: "str \<Rightarrow> (bytes \<times> str) option" where
  "get_text (x # rest) = (if x = 0 then Some ([], rest) else (case rest of
     [] \<Rightarrow> None
   | b # rest' \<Rightarrow> map_option (\<lambda>(bs, r). (b # bs, r)) (get_text rest')))"
| "get_text [] = None"

lemma get_put_text [simp]: "get_text (put_text bs @ rest) = Some (bs, rest)"
  by (induction bs) (simp_all add: put_text_def)

primrec put_servers :: "server list \<Rightarrow> str" where
  "put_servers [] = [0]"
| "put_servers (s # ss) = 1 # put_text (server_name s) @ put_text (server_local s)
     @ put_text (case server_auth s of Key k \<Rightarrow> private_key_bytes k) @ put_servers ss"

fun get_servers :: "nat \<Rightarrow> str \<Rightarrow> server list option" where
  "get_servers (Suc n) (x # rest) = (if x = 0 then (if rest = [] then Some [] else None)
     else (case get_text rest of None \<Rightarrow> None | Some (a, r1) \<Rightarrow>
       (case get_text r1 of None \<Rightarrow> None | Some (b, r2) \<Rightarrow>
         (case get_text r2 of None \<Rightarrow> None | Some (k, r3) \<Rightarrow>
           map_option (Cons \<lparr>server_name = a, server_local = b, server_auth = Key \<lparr>private_key_bytes = k\<rparr>\<rparr>)
             (get_servers n r3)))))"
| "get_servers n t = None"

definition sample_json :: servers_json where
  "sample_json = \<lparr>servers_to_json = put_servers, servers_from_json = (\<lambda>t. get_servers (length t) t)\<rparr>"

lemma get_put_servers: "length (put_servers ss) \<le> n \<Longrightarrow> get_servers n (put_servers ss) = Some ss"
proof (induction ss arbitrary: n)
  case Nil
  then show ?case by (cases n) simp_all
next
  case (Cons s ss)
  then obtain m where n: "n = Suc m" "length (put_servers ss) \<le> m" by (cases n) auto
  obtain k where k: "server_auth s = Key k" by (cases "server_auth s")
  have "\<lparr>server_name = server_name s, server_local = server_local s,
      server_auth = Key \<lparr>private_key_bytes = private_key_bytes k\<rparr>\<rparr> = s"
    using k by (cases s) simp
  with Cons.IH[OF n(2)] show ?case by (simp add: n(1) k)
qed

lemma sample_json_ok: "servers_json_ok sample_json"
  by (simp add: servers_json_ok_def sample_json_def get_put_servers)

definition sample_panel_server :: server where
  "sample_panel_server =
     \<lparr>server_name = [0x61], server_local = [0x31], server_auth = Key sample_key\<rparr>"

definition sample_app :: my_app where
  "sample_app = \<lparr>app_state = gui_new\<lparr>gs_servers := Some [panel_of_server sample_panel_server]\<rparr>,
     app_frames = 0, app_help = help_default, app_eula = True\<rparr>"

lemma sample_app_servers: "gs_servers (app_state sample_app) = Some [panel_of_server sample_panel_server]"
  by (simp add: sample_app_def)

definition sample_info :: build_info where
  "sample_info = \<lparr>bi_platform = [], bi_version = [0x31], bi_git_hash = []\<rparr>"

theorem frame_gated_witness:
  "\<exists>out qs. app_frame (click_nth (Some 14)) sample_info False True sample_app = Some out
    \<and> gs_servers (app_state (fo_app out)) = Some qs
    \<and> panels_drawn False [panel_of_server sample_panel_server] qs (fo_events out)"
proof -
  obtain eula hp reports where
    "fst (run_state (app_overlay (click_nth (Some 14)) sample_info sample_app) ui_init) = (eula, hp, reports)"
    by (metis prod_cases3)
  from frame_gated[OF click_nth_ok sample_app_servers this, of True] show ?thesis
    by (auto simp: active_def panel_of_server_def)
qed

end
