(* ===== verification/Backend.thy ===== *)
theory Backend
  imports Gui_State
begin

text \<open>
  \<^verbatim>\<open>client-gui/src/backend.rs\<close>: the controller, which takes events from the window, the client and
  the updater, and the connection loop, which keeps a client connected. Both change the state they
  share with the window; each change holds its lock from start to end.
\<close>

subsection \<open>The controller\<close>

text \<open>
  One turn of \<^verbatim>\<open>Controller::update\<close>: \<open>task\<close> is the client of the running connection task. A closed
  channel (\<open>None\<close>) of statistics or of the window ends the loop; one of the updater is unwrapped, as
  is the missing active server.
\<close>

datatype controller_event =
    StatsEvent "stats option"
  | UpdaterEvent "update_state option"
  | GuiEvent "gui_event option"

datatype controller_result =
    Continue gui_state "client option"
  | Break
  | ControllerPanic

definition on_active ::
  "(server_panel \<Rightarrow> server_panel) \<Rightarrow> gui_state \<Rightarrow> client option \<Rightarrow> controller_result" where
  "on_active f gs task = (case set_active_server f gs of
     None \<Rightarrow> ControllerPanic
   | Some gs' \<Rightarrow> Continue gs' task)"

definition connect_target :: "server \<Rightarrow> server" where
  "connect_target srv = (if 0x3A \<in> set (server_local srv) then srv
     else srv\<lparr>server_name := server_name srv @ [0x3A] @ server_local srv\<rparr>)"

definition controller_update ::
  "gui_state \<Rightarrow> client option \<Rightarrow> controller_event \<Rightarrow> controller_result" where
  "controller_update gs task ev = (case ev of
     StatsEvent None \<Rightarrow> Break
   | StatsEvent (Some (ClientsConnected n)) \<Rightarrow> on_active (\<lambda>s. s\<lparr>panel_state := PanelConnected n\<rparr>) gs task
   | StatsEvent (Some Connected) \<Rightarrow> Continue gs task
   | StatsEvent (Some (PingStat ms)) \<Rightarrow> on_active (\<lambda>s. s\<lparr>panel_ping := Some ms\<rparr>) gs task
   | UpdaterEvent None \<Rightarrow> ControllerPanic
   | UpdaterEvent (Some st) \<Rightarrow> Continue (set_updater_status st gs) task
   | GuiEvent None \<Rightarrow> Break
   | GuiEvent (Some (ConnectTo srv)) \<Rightarrow> Continue gs (Some (client_new (connect_target srv) (Some True)))
   | GuiEvent (Some DisconnectNow) \<Rightarrow>
       on_active (\<lambda>s. s\<lparr>panel_state := PanelDisconnected, panel_ping := None\<rparr>) gs None)"

subsection \<open>The connection loop\<close>

text \<open>
  An attempt: the results of \<^verbatim>\<open>connect\<close> and \<^verbatim>\<open>auth\<close>, \<open>None\<close> when five seconds were not enough, how
  many milliseconds they took together, and, if a session came about, how \<^verbatim>\<open>handle\<close> ended it.
\<close>

record attempt =
  at_connect :: "(client_error + unit) option"
  at_auth :: "(client_error + unit) option"
  at_elapsed :: nat
  at_handle :: "str + unit"

definition connection_result :: "attempt \<Rightarrow> client_error + unit" where
  "connection_result a = (case at_connect a of
     None \<Rightarrow> Inl ClientTimeout
   | Some (Inl e) \<Rightarrow> Inl e
   | Some (Inr u) \<Rightarrow> (case at_auth a of None \<Rightarrow> Inl ClientTimeout | Some r \<Rightarrow> r))"

text \<open>
  The two updates of the state in \<^verbatim>\<open>connection_loop\<close>: after an attempt to connect and to
  authenticate (\<open>attempt\<close> counts the failures before it), and after \<^verbatim>\<open>handle\<close> has failed. The
  first also gives the number of failures after it. \<open>show_error\<close> is the text of an error.
\<close>

definition after_attempt ::
  "(client_error \<Rightarrow> str) \<Rightarrow> nat \<Rightarrow> client_error + unit \<Rightarrow> gui_state \<Rightarrow> (gui_state \<times> nat) option" where
  "after_attempt show_error attempt res gs = (case res of
     Inr u \<Rightarrow> map_option (\<lambda>gs'. (gs', 0))
       (set_active_server (\<lambda>s. s\<lparr>panel_state := PanelConnected 0, panel_error := None\<rparr>) gs)
   | Inl e \<Rightarrow> map_option (\<lambda>gs'. (gs', attempt + 1))
       (set_active_server (\<lambda>s. s\<lparr>panel_error := Some (str_lit ''Error connecting: '' @ show_error e),
                                  panel_state := PanelConnecting attempt\<rparr>) gs))"

definition after_handle :: "str \<Rightarrow> nat \<Rightarrow> gui_state \<Rightarrow> gui_state option" where
  "after_handle err attempt gs =
     set_active_server (\<lambda>s. s\<lparr>panel_error := Some (str_lit ''Connection error: '' @ err),
                              panel_state := PanelConnecting attempt\<rparr>) gs"

text \<open>
  The loop: the failures so far and the milliseconds of the last attempt, which is as good as
  endless before the first one and after a session. Each turn sleeps for what is left of five
  seconds, then tries.
\<close>

definition DURATION_MAX :: nat where
  "DURATION_MAX = (2 ^ 64 - 1) * 1000 + 999"

record loop_state =
  ls_attempt :: nat
  ls_last :: nat

definition loop_init :: loop_state where
  "loop_init = \<lparr>ls_attempt = 0, ls_last = DURATION_MAX\<rparr>"

definition sleep_time :: "loop_state \<Rightarrow> nat" where
  "sleep_time ls = 5000 - ls_last ls"

datatype loop_end = LoopRunning loop_state | LoopReturned | LoopPanicked

fun connection_loop ::
  "(client_error \<Rightarrow> str) \<Rightarrow> loop_state \<Rightarrow> attempt list \<Rightarrow> gui_state \<Rightarrow> nat list \<times> gui_state \<times> loop_end" where
  "connection_loop show_error ls [] gs = ([], gs, LoopRunning ls)"
| "connection_loop show_error ls (a # as) gs =
    (let res = connection_result a;
         (sleeps, out) = (case after_attempt show_error (ls_attempt ls) res gs of
            None \<Rightarrow> ([], gs, LoopPanicked)
          | Some (gs1, n) \<Rightarrow>
             (case res of
                Inl e \<Rightarrow> connection_loop show_error \<lparr>ls_attempt = n, ls_last = at_elapsed a\<rparr> as gs1
              | Inr u \<Rightarrow>
                 (case at_handle a of
                    Inr u \<Rightarrow> ([], gs1, LoopReturned)
                  | Inl err \<Rightarrow>
                     (case after_handle err n gs1 of
                        None \<Rightarrow> ([], gs1, LoopPanicked)
                      | Some gs2 \<Rightarrow> connection_loop show_error
                          \<lparr>ls_attempt = n, ls_last = DURATION_MAX\<rparr> as gs2))))
     in (sleep_time ls # sleeps, out))"

subsection \<open>The active server\<close>

definition the_active :: "gui_state \<Rightarrow> server_panel option" where
  "the_active gs = (case gs_servers gs of None \<Rightarrow> None | Some ps \<Rightarrow> find active ps)"

lemma update_first_None: "update_first f ps = None \<longleftrightarrow> find active ps = None"
  by (induction ps) auto

lemma update_first_find:
  "update_first f ps = Some ps' \<Longrightarrow> find active ps = Some p \<Longrightarrow> active (f p) \<Longrightarrow> find active ps' = Some (f p)"
  by (induction ps arbitrary: ps') (auto split: if_splits)

lemma set_active_None: "set_active_server f gs = None \<longleftrightarrow> the_active gs = None"
  by (auto simp: set_active_server_def the_active_def update_first_None split: option.splits)

lemma set_active_Some:
  assumes "the_active gs = Some p" "active (f p)"
  obtains gs' where "set_active_server f gs = Some gs'" "the_active gs' = Some (f p)"
proof -
  obtain ps where ps: "gs_servers gs = Some ps" "find active ps = Some p"
    using assms(1) by (auto simp: the_active_def split: option.splits)
  then obtain ps' where ps': "update_first f ps = Some ps'"
    by (cases "update_first f ps") (auto simp: update_first_None)
  then show ?thesis
    using update_first_find[OF ps' ps(2) assms(2)] ps
    by (intro that[of "gs\<lparr>gs_servers := Some ps'\<rparr>"]) (simp_all add: set_active_server_def the_active_def)
qed

lemma after_attempt_active:
  assumes "the_active gs = Some p"
  obtains gs' q where "after_attempt show_error n res gs = Some (gs', case res of Inl e \<Rightarrow> n + 1 | Inr u \<Rightarrow> 0)"
    "the_active gs' = Some q"
    "panel_state q = (case res of Inl e \<Rightarrow> PanelConnecting n | Inr u \<Rightarrow> PanelConnected 0)"
    "panel_error q = (case res of Inl e \<Rightarrow> Some (str_lit ''Error connecting: '' @ show_error e) | Inr u \<Rightarrow> None)"
proof (cases res)
  case (Inl e)
  let ?f = "\<lambda>s. s\<lparr>panel_error := Some (str_lit ''Error connecting: '' @ show_error e), panel_state := PanelConnecting n\<rparr>"
  obtain gs' where "set_active_server ?f gs = Some gs'" "the_active gs' = Some (?f p)"
    by (rule set_active_Some[OF assms, of ?f]) (simp add: active_def)
  with Inl show ?thesis by (intro that[of gs' "?f p"]) (simp_all add: after_attempt_def)
next
  case (Inr u)
  let ?f = "\<lambda>s. s\<lparr>panel_state := PanelConnected 0, panel_error := None\<rparr>"
  obtain gs' where "set_active_server ?f gs = Some gs'" "the_active gs' = Some (?f p)"
    by (rule set_active_Some[OF assms, of ?f]) (simp add: active_def)
  with Inr show ?thesis by (intro that[of gs' "?f p"]) (simp_all add: after_attempt_def)
qed

lemma after_handle_active:
  assumes "the_active gs = Some p"
  obtains gs' q where "after_handle err n gs = Some gs'" "the_active gs' = Some q"
    "panel_state q = PanelConnecting n" "panel_error q = Some (str_lit ''Connection error: '' @ err)"
proof -
  let ?f = "\<lambda>s. s\<lparr>panel_error := Some (str_lit ''Connection error: '' @ err), panel_state := PanelConnecting n\<rparr>"
  obtain gs' where "set_active_server ?f gs = Some gs'" "the_active gs' = Some (?f p)"
    by (rule set_active_Some[OF assms, of ?f]) (simp add: active_def)
  then show ?thesis by (intro that[of gs' "?f p"]) (simp_all add: after_handle_def)
qed

subsection \<open>The loop as a whole\<close>

definition connected :: "attempt \<Rightarrow> bool" where
  "connected a \<longleftrightarrow> connection_result a = Inr ()"

definition failures :: "nat \<Rightarrow> attempt list \<Rightarrow> nat" where
  "failures = foldl (\<lambda>n a. if connected a then 0 else n + 1)"

definition pause_after :: "attempt \<Rightarrow> nat" where
  "pause_after a = (if connected a then 0 else 5000 - at_elapsed a)"

lemma failures_simps [simp]:
  "failures n [] = n" "failures n (a # as) = failures (if connected a then 0 else n + 1) as"
  by (simp_all add: failures_def)

lemma sleep_after [simp]:
  "5000 - DURATION_MAX = 0" "sleep_time \<lparr>ls_attempt = n, ls_last = k\<rparr> = 5000 - k"
  by (simp_all add: sleep_time_def DURATION_MAX_def)

lemma connection_loop_general:
  assumes "the_active gs = Some p" "connection_loop show_error ls as gs = (sleeps, gs', fin)"
  shows "fin \<noteq> LoopPanicked
    \<and> (fin = LoopReturned \<longleftrightarrow> (\<exists>a \<in> set as. connected a \<and> at_handle a = Inr ()))
    \<and> prefix sleeps (sleep_time ls # map pause_after as)
    \<and> (\<forall>ls'. fin = LoopRunning ls' \<longrightarrow> failures (ls_attempt ls) as = ls_attempt ls'
         \<and> length sleeps = length as
         \<and> (as \<noteq> [] \<longrightarrow> (\<exists>q. the_active gs' = Some q \<and> panel_state q = PanelConnecting (ls_attempt ls' - 1))))"
  using assms
proof (induction as arbitrary: ls gs p sleeps)
  case Nil
  then show ?case by auto
next
  case (Cons a as)
  define res where "res = connection_result a"
  obtain gs1 q1 where a1: "after_attempt show_error (ls_attempt ls) res gs
      = Some (gs1, case res of Inl e \<Rightarrow> ls_attempt ls + 1 | Inr u \<Rightarrow> 0)" "the_active gs1 = Some q1"
      "panel_state q1 = (case res of Inl e \<Rightarrow> PanelConnecting (ls_attempt ls) | Inr u \<Rightarrow> PanelConnected 0)"
    using after_attempt_active[OF Cons.prems(1)] by metis
  show ?case
  proof (cases res)
    case (Inl e)
    let ?ls = "\<lparr>ls_attempt = ls_attempt ls + 1, ls_last = at_elapsed a\<rparr>"
    have nc: "\<not> connected a" using Inl by (simp add: connected_def res_def)
    have cr: "connection_result a = Inl e" using Inl by (simp add: res_def)
    obtain sl g f where r0: "connection_loop show_error ?ls as gs1 = (sl, g, f)" by (metis prod_cases3)
    have "connection_loop show_error ls (a # as) gs = (sleep_time ls # sl, g, f)"
      using a1(1)[unfolded Inl] r0 by (simp add: cr)
    with Cons.prems(2) have eq: "sleeps = sleep_time ls # sl" "g = gs'" "f = fin" by simp_all
    note r = r0[unfolded eq(2,3)] eq(1)
    note IH = Cons.IH[OF a1(2) r(1)]
    have "\<exists>q. the_active gs' = Some q \<and> panel_state q = PanelConnecting (ls_attempt ls' - 1)"
      if "fin = LoopRunning ls'" for ls'
    proof (cases "as = []")
      case True
      with r(1) that a1(2,3) Inl show ?thesis by auto
    qed (use IH that in blast)
    then show ?thesis using IH nc r(2) by (simp add: pause_after_def)
  next
    case (Inr u)
    have c: "connected a" using Inr by (simp add: connected_def res_def)
    have cr: "connection_result a = Inr u" using Inr by (simp add: res_def)
    show ?thesis
    proof (cases "at_handle a")
      case (Inr u')
      then have "sleeps = [sleep_time ls]" "fin = LoopReturned"
        using Cons.prems(2) a1(1)[unfolded \<open>res = Inr u\<close>] by (simp_all add: cr)
      with c Inr show ?thesis by auto
    next
      case (Inl err)
      obtain gs2 q2 where a2: "after_handle err 0 gs1 = Some gs2" "the_active gs2 = Some q2"
        "panel_state q2 = PanelConnecting 0" using after_handle_active[OF a1(2)] by metis
      let ?ls = "\<lparr>ls_attempt = 0, ls_last = DURATION_MAX\<rparr>"
      obtain sl g f where r0: "connection_loop show_error ?ls as gs2 = (sl, g, f)" by (metis prod_cases3)
      have "connection_loop show_error ls (a # as) gs = (sleep_time ls # sl, g, f)"
        using a1(1)[unfolded \<open>res = Inr u\<close>] a2(1) r0 by (simp add: cr Inl)
      with Cons.prems(2) have eq: "sleeps = sleep_time ls # sl" "g = gs'" "f = fin" by simp_all
      note r = r0[unfolded eq(2,3)] eq(1)
      note IH = Cons.IH[OF a2(2) r(1)]
      have "\<exists>q. the_active gs' = Some q \<and> panel_state q = PanelConnecting (ls_attempt ls' - 1)"
        if "fin = LoopRunning ls'" for ls'
      proof (cases "as = []")
        case True
        with r(1) that a2(2,3) show ?thesis by auto
      qed (use IH that in blast)
      then show ?thesis using IH c r(2) Inl by (simp add: pause_after_def)
    qed
  qed
qed

text \<open>
  C16. The connection loop: as long as a server is active it does not panic; it ends exactly when a
  session ends without an error, and otherwise tries again for ever. Two attempts begin at least
  five seconds apart, except that the first one, and the one after a session, begin at once. The
  number the panel shows is that of the failures before the last one, counted from the last session.
\<close>

theorem connection_loop_spec:
  assumes "the_active gs = Some p" "connection_loop show_error loop_init as gs = (sleeps, gs', fin)"
  shows "fin \<noteq> LoopPanicked
    \<and> (fin = LoopReturned \<longleftrightarrow> (\<exists>a \<in> set as. connected a \<and> at_handle a = Inr ()))
    \<and> (\<forall>i. i < length sleeps \<longrightarrow> i \<le> length as \<and> sleeps ! i =
         (if i = 0 \<or> connected (as ! (i - 1)) then 0 else 5000 - at_elapsed (as ! (i - 1))))
    \<and> (\<forall>ls. fin = LoopRunning ls \<longrightarrow> length sleeps = length as \<and> ls_attempt ls = failures 0 as
         \<and> (as = [] \<or> (\<exists>q. the_active gs' = Some q \<and> panel_state q = PanelConnecting (failures 0 as - 1))))"
proof -
  note g = connection_loop_general[OF assms]
  have init: "sleep_time loop_init = 0" "ls_attempt loop_init = 0"
    by (simp_all add: loop_init_def sleep_time_def DURATION_MAX_def)
  have "i \<le> length as \<and> sleeps ! i =
      (if i = 0 \<or> connected (as ! (i - 1)) then 0 else 5000 - at_elapsed (as ! (i - 1)))"
    if i: "i < length sleeps" for i
  proof -
    have p: "prefix sleeps (0 # map pause_after as)" using g init by simp
    then have "sleeps ! i = (0 # map pause_after as) ! i" using i by (metis nth_append prefix_def)
    moreover have "length sleeps \<le> Suc (length as)" using prefix_length_le[OF p] by simp
    ultimately show ?thesis using i by (cases i) (auto simp: pause_after_def)
  qed
  moreover have "length sleeps = length as \<and> ls_attempt ls = failures 0 as
      \<and> (as = [] \<or> (\<exists>q. the_active gs' = Some q \<and> panel_state q = PanelConnecting (failures 0 as - 1)))"
    if "fin = LoopRunning ls" for ls
    using g that unfolding init by auto
  ultimately show ?thesis using g by (intro conjI allI impI) simp_all
qed

definition sample_attempts :: "attempt list" where
  "sample_attempts =
    [\<lparr>at_connect = None, at_auth = None, at_elapsed = 5001, at_handle = Inr ()\<rparr>,
     \<lparr>at_connect = Some (Inr ()), at_auth = Some (Inl ClientTimeout), at_elapsed = 1200, at_handle = Inr ()\<rparr>,
     \<lparr>at_connect = Some (Inr ()), at_auth = Some (Inr ()), at_elapsed = 30, at_handle = Inr ()\<rparr>]"

definition sample_connecting :: gui_state where
  "sample_connecting = gui_new\<lparr>gs_servers := Some [\<lparr>panel_server = [0x61], panel_auth = Key sample_key,
     panel_local = [0x31], edit_local = None, panel_state = PanelConnecting 0, panel_ping = None,
     panel_error = None\<rparr>]\<rparr>"

theorem connection_loop_spec_witness:
  "\<exists>gs'. connection_loop (\<lambda>e. []) loop_init sample_attempts sample_connecting = ([0, 0, 3800], gs', LoopReturned)"
proof -
  obtain sleeps gs' fin where r: "connection_loop (\<lambda>e. []) loop_init sample_attempts sample_connecting
      = (sleeps, gs', fin)" by (metis prod_cases3)
  have a: "the_active sample_connecting = Some (the (the_active sample_connecting))"
    by (simp add: the_active_def sample_connecting_def active_def)
  have c: "map connected sample_attempts = [False, False, True]"
    by (simp add: sample_attempts_def connected_def connection_result_def)
  have len: "length sleeps = 3"
    using r by (auto simp: sample_attempts_def connection_result_def after_attempt_def set_active_server_def
        sample_connecting_def active_def Let_def split: prod.splits)
  from connection_loop_spec[OF a r] have fin: "fin = LoopReturned"
    by (auto simp: sample_attempts_def connected_def connection_result_def)
  from connection_loop_spec[OF a r] len
  have "sleeps ! 0 = 0 \<and> sleeps ! 1 = 0 \<and> sleeps ! 2 = 3800"
    using c by (auto simp: sample_attempts_def numeral_2_eq_2)
  then have "sleeps = [0, 0, 3800]"
    using len by (intro nth_equalityI) (auto simp: less_Suc_eq numeral_3_eq_3 numeral_2_eq_2)
  with r fin show ?thesis by blast
qed

end
