(* ===== verification/Gui.thy ===== *)
theory Gui
  imports Gui_Window Backend
begin

text \<open>
  The graphical client as a whole: frames of the window (\<open>Gui_Window\<close>), turns of the controller and
  steps of the connection loops (\<open>Backend\<close>) in any order. They share the state of the window under
  a lock, and the window sends its events to the controller through a queue.
\<close>

subsection \<open>All tasks together\<close>

text \<open>
  \<open>gw_poisoned\<close>: a task has panicked while it held the lock of the state. \<open>gw_controller\<close>: the task of the
  controller still runs, and with it the receiving end of the queue.
\<close>

record gui_world =
  gw_app :: my_app
  gw_queue :: "gui_event list"
  gw_task :: "client option"
  gw_poisoned :: bool
  gw_controller :: bool

datatype gui_step =
    Frame egui
  | TakeEvent
  | TakeStats stats
  | TakeUpdate update_state
  | Attempt nat "client_error + unit"
  | HandleFailed str nat

definition with_state :: "gui_state \<Rightarrow> gui_world \<Rightarrow> gui_world" where
  "with_state gs w = w\<lparr>gw_app := (gw_app w)\<lparr>app_state := gs\<rparr>\<rparr>"

text \<open>The events for which the controller takes the lock.\<close>

definition takes_lock :: "controller_event \<Rightarrow> bool" where
  "takes_lock ev = (case ev of
     StatsEvent (Some (ClientsConnected n)) \<Rightarrow> True
   | StatsEvent (Some (PingStat ms)) \<Rightarrow> True
   | UpdaterEvent u \<Rightarrow> True
   | GuiEvent (Some DisconnectNow) \<Rightarrow> True
   | _ \<Rightarrow> False)"

text \<open>
  A turn of the controller. All its panics happen with the lock in its hands, or at the \<^verbatim>\<open>unwrap\<close> of a
  poisoned lock; they end it. \<^verbatim>\<open>Disconnect\<close> has stopped the connection task before it takes the lock.
\<close>

definition controller_panic :: "controller_event \<Rightarrow> gui_world \<Rightarrow> gui_world" where
  "controller_panic ev w = w\<lparr>gw_poisoned := True, gw_controller := False,
     gw_task := (if ev = GuiEvent (Some DisconnectNow) then None else gw_task w)\<rparr>"

definition controller_turn :: "controller_event \<Rightarrow> gui_world \<Rightarrow> gui_world" where
  "controller_turn ev w =
    (if \<not> gw_controller w then w
     else if gw_poisoned w \<and> takes_lock ev then controller_panic ev w
     else case controller_update (app_state (gw_app w)) (gw_task w) ev of
         Continue gs task \<Rightarrow> (with_state gs w)\<lparr>gw_task := task\<rparr>
       | Break \<Rightarrow> w\<lparr>gw_controller := False\<rparr>
       | ControllerPanic \<Rightarrow> controller_panic ev w)"

text \<open>
  A change of the state by a connection loop: with a poisoned lock the loop panics and changes
  nothing, and where there is no active server it panics with the lock in its hands.
\<close>

definition loop_change :: "(gui_state \<Rightarrow> gui_state option) \<Rightarrow> gui_world \<Rightarrow> gui_world" where
  "loop_change f w =
    (if gw_poisoned w then w
     else case f (app_state (gw_app w)) of
         None \<Rightarrow> w\<lparr>gw_poisoned := True\<rparr>
       | Some gs \<Rightarrow> with_state gs w)"

text \<open>
  One step of one of the tasks; \<open>None\<close> is a panic of the window, which is the end of the program. A
  task that panics only poisons the lock.
\<close>

definition gui_step :: "(client_error \<Rightarrow> str) \<Rightarrow> build_info \<Rightarrow> gui_step \<Rightarrow> gui_world \<Rightarrow> gui_world option" where
  "gui_step show_error info st w = (case st of
     Frame e \<Rightarrow> map_option (\<lambda>out. w\<lparr>gw_app := fo_app out, gw_queue := gw_queue w @ fo_events out\<rparr>)
       (app_frame e info (gw_poisoned w) (gw_controller w) (gw_app w))
   | TakeEvent \<Rightarrow> (case gw_queue w of
        [] \<Rightarrow> Some w
      | ev # q \<Rightarrow> Some (controller_turn (GuiEvent (Some ev)) (w\<lparr>gw_queue := q\<rparr>)))
   | TakeStats s \<Rightarrow> Some (controller_turn (StatsEvent (Some s)) w)
   | TakeUpdate u \<Rightarrow> Some (controller_turn (UpdaterEvent (Some u)) w)
   | Attempt n res \<Rightarrow> Some (loop_change (\<lambda>gs. map_option fst (after_attempt show_error n res gs)) w)
   | HandleFailed err n \<Rightarrow> Some (loop_change (after_handle err n) w))"

fun gui_run ::
  "(client_error \<Rightarrow> str) \<Rightarrow> build_info \<Rightarrow> gui_step list \<Rightarrow> gui_world \<Rightarrow> gui_world option" where
  "gui_run show_error info [] w = Some w"
| "gui_run show_error info (st # sts) w = (case gui_step show_error info st w of
     None \<Rightarrow> None
   | Some w' \<Rightarrow> gui_run show_error info sts w')"

definition gui_init :: "my_app \<Rightarrow> gui_world" where
  "gui_init app = \<lparr>gw_app = app, gw_queue = [], gw_task = None, gw_poisoned = False,
     gw_controller = True\<rparr>"

subsection \<open>How many servers are active\<close>

definition actives :: "gui_state \<Rightarrow> nat" where
  "actives gs = (case gs_servers gs of None \<Rightarrow> 0 | Some ps \<Rightarrow> length (filter active ps))"

lemma update_first_actives:
  "update_first f ps = Some ps' \<Longrightarrow> length (filter active ps') \<le> length (filter active ps)"
proof (induction ps arbitrary: ps')
  case (Cons p ps)
  then show ?case by (auto split: if_splits)
qed simp

lemma set_active_server_actives: "set_active_server f gs = Some gs' \<Longrightarrow> actives gs' \<le> actives gs"
  by (auto simp: set_active_server_def actives_def dest: update_first_actives split: option.splits)

lemma set_active_server_servers:
  "set_active_server f gs = Some gs' \<Longrightarrow> gs_servers gs' \<noteq> None \<and> gs_servers gs \<noteq> None"
  by (auto simp: set_active_server_def split: option.splits)

lemma port_change_active: "port_change p q \<Longrightarrow> active q = active p"
  by (simp add: active_def port_change_state)

definition connects :: "gui_event list \<Rightarrow> nat" where
  "connects evs = length (filter (\<lambda>ev. \<exists>srv. ev = ConnectTo srv) evs)"

text \<open>Every press of \<open>Connect\<close> activates a panel, and no other press does.\<close>

lemma panels_drawn_actives:
  assumes "panels_drawn ac ps qs evs"
  shows "length (filter active qs) = length (filter active ps) + connects evs
    \<and> (ac \<longrightarrow> connects evs = 0)"
  using assms
proof induction
  case (press p q p' ev ps qs evs)
  obtain p1 ev1 where b: "button_clicked True q = Some (p1, [ev1])"
    "panel_state p1 = (if panel_state q = PanelDisconnected then PanelConnecting 0 else PanelDisconnecting)"
    "(\<exists>srv. ev1 = ConnectTo srv) \<longleftrightarrow> panel_state q = PanelDisconnected"
    using button_clicked_Some[OF press(3)] by blast
  with press(5) have "active p'" "(\<exists>srv. ev = ConnectTo srv) \<longleftrightarrow> \<not> active p"
    using port_change_state[OF press(1)] by (auto simp: active_def)
  with press(4,7) show ?case by (auto simp: connects_def)
qed (simp_all add: connects_def port_change_active)

text \<open>
  The most presses of \<open>Connect\<close> that one frame of a run has: what a frame sends is what it adds to the
  queue.
\<close>

definition connects_sent :: "gui_world \<Rightarrow> gui_world \<Rightarrow> nat" where
  "connects_sent w w' = connects (drop (length (gw_queue w)) (gw_queue w'))"

fun most_connects :: "(client_error \<Rightarrow> str) \<Rightarrow> build_info \<Rightarrow> gui_step list \<Rightarrow> gui_world \<Rightarrow> nat" where
  "most_connects show_error info [] w = 0"
| "most_connects show_error info (st # sts) w = (case gui_step show_error info st w of
     None \<Rightarrow> 0
   | Some w' \<Rightarrow> max (connects_sent w w') (most_connects show_error info sts w'))"

lemma with_state_simps [simp]:
  "app_state (gw_app (with_state gs w)) = gs" "gw_queue (with_state gs w) = gw_queue w"
  by (simp_all add: with_state_def)

text \<open>No change but a frame activates a server, and a frame only one that sends \<open>Connect\<close> for it.\<close>

definition bounded_state :: "nat \<Rightarrow> gui_state \<Rightarrow> bool" where
  "bounded_state n gs \<longleftrightarrow> gs_servers gs \<noteq> None \<and> actives gs \<le> n"

definition bounded :: "nat \<Rightarrow> gui_world \<Rightarrow> bool" where
  "bounded n w \<longleftrightarrow> bounded_state n (app_state (gw_app w))"

lemma bounded_queue [simp]: "bounded n (w\<lparr>gw_queue := q\<rparr>) = bounded n w"
  by (simp add: bounded_def)

lemma bounded_set: "set_active_server f gs = Some gs' \<Longrightarrow> bounded_state n gs \<Longrightarrow> bounded_state n gs'"
  using set_active_server_actives[of f gs gs'] set_active_server_servers[of f gs gs']
  by (auto simp: bounded_state_def)

lemma bounded_controller:
  assumes "controller_update gs task ev = Continue gs' task'" "bounded_state n gs"
  shows "bounded_state n gs'"
proof -
  have "(\<exists>f. set_active_server f gs = Some gs') \<or> gs' = gs \<or> (\<exists>u. gs' = set_updater_status u gs)"
    using assms(1) by (auto simp: controller_update_def on_active_def
        split: controller_event.splits option.splits stats.splits gui_event.splits)
  moreover have "bounded_state n (set_updater_status u gs)" for u
    using assms(2) by (simp add: bounded_state_def set_updater_status_def actives_def)
  ultimately show ?thesis using assms(2) bounded_set by blast
qed

lemma bounded_turn: "bounded n w \<Longrightarrow> bounded n (controller_turn ev w)"
  by (auto simp: controller_turn_def controller_panic_def bounded_def dest: bounded_controller
      split: controller_result.splits)

lemma bounded_change:
  assumes "bounded n w" "\<And>gs gs'. f gs = Some gs' \<Longrightarrow> \<exists>g. set_active_server g gs = Some gs'"
  shows "bounded n (loop_change f w)"
proof (cases "f (app_state (gw_app w))")
  case (Some gs)
  with assms bounded_set show ?thesis by (fastforce simp: loop_change_def bounded_def)
qed (use assms(1) in \<open>simp add: loop_change_def bounded_def\<close>)

lemma loop_sets:
  "map_option fst (after_attempt show_error n res gs) = Some gs' \<Longrightarrow> \<exists>g. set_active_server g gs = Some gs'"
  "after_handle err n gs = Some gs' \<Longrightarrow> \<exists>g. set_active_server g gs = Some gs'"
  by (auto simp: after_attempt_def after_handle_def split: sum.splits)

lemma bounded_frame:
  assumes "egui_ok e" "app_frame e info poisoned alive app = Some out" "bounded_state n (app_state app)"
  shows "bounded_state (max n (connects (fo_events out))) (app_state (fo_app out))"
proof -
  obtain ps where ps: "gs_servers (app_state app) = Some ps" "length (filter active ps) \<le> n"
    using assms(3) by (auto simp: bounded_state_def actives_def)
  obtain eula hp reports where "fst (run_state (app_overlay e info app) ui_init) = (eula, hp, reports)"
    by (metis prod_cases3)
  from app_frame_cases[OF assms(1) ps(1) this] obtain out' qs where
    o: "app_frame e info False True app = Some out'" "gs_servers (app_state (fo_app out')) = Some qs"
    "panels_drawn (list_ex active ps) ps qs (fo_events out')"
    "app_frame e info False False app = (if fo_events out' = [] then Some out' else None)"
    by blast
  have "\<not> poisoned" using assms(2) by (auto simp: app_frame_def)
  with assms(2) o(1,4) have "out' = out" by (cases alive) (auto split: if_splits)
  moreover have "length (filter active ps) = 0" if "\<not> list_ex active ps"
    using that by (auto simp: list_ex_iff filter_empty_conv)
  ultimately show ?thesis
    using panels_drawn_actives[OF o(3)] o(2) ps(2)
    by (cases "list_ex active ps") (auto simp: bounded_state_def actives_def)
qed

lemma bounded_step:
  assumes "bounded n w" "gui_step show_error info st w = Some w'" "\<And>e. st = Frame e \<Longrightarrow> egui_ok e"
  shows "bounded (max n (connects_sent w w')) w'"
proof -
  have weaken: "bounded n w' \<Longrightarrow> ?thesis" by (auto simp: bounded_def bounded_state_def)
  show ?thesis
  proof (cases st)
    case (Frame e)
    then obtain out where
      "app_frame e info (gw_poisoned w) (gw_controller w) (gw_app w) = Some out"
      "w' = w\<lparr>gw_app := fo_app out, gw_queue := gw_queue w @ fo_events out\<rparr>"
      using assms(2) by (auto simp: gui_step_def)
    with bounded_frame assms(1,3) Frame show ?thesis by (simp add: bounded_def connects_sent_def)
  next
    case TakeEvent
    with assms(1,2) show ?thesis
      by (intro weaken) (auto simp: gui_step_def bounded_turn split: list.splits)
  next
    case (Attempt m res)
    have "bounded n (loop_change (\<lambda>gs. map_option fst (after_attempt show_error m res gs)) w)"
      by (rule bounded_change[OF assms(1)]) (rule loop_sets(1))
    with assms(2) Attempt show ?thesis by (intro weaken) (simp add: gui_step_def)
  next
    case (HandleFailed err m)
    have "bounded n (loop_change (after_handle err m) w)"
      by (rule bounded_change[OF assms(1)]) (rule loop_sets(2))
    with assms(2) HandleFailed show ?thesis by (intro weaken) (simp add: gui_step_def)
  next
    case (TakeStats s)
    with assms(1,2) show ?thesis by (intro weaken) (auto simp: gui_step_def bounded_turn)
  next
    case (TakeUpdate u)
    with assms(1,2) show ?thesis by (intro weaken) (auto simp: gui_step_def bounded_turn)
  qed
qed

lemma bounded_run:
  "gui_run show_error info sts w = Some w' \<Longrightarrow> bounded n w \<Longrightarrow> (\<And>e. Frame e \<in> set sts \<Longrightarrow> egui_ok e)
     \<Longrightarrow> bounded (max n (most_connects show_error info sts w)) w'"
proof (induction sts arbitrary: w n)
  case (Cons st sts)
  then obtain w1 where w1: "gui_step show_error info st w = Some w1" by (auto split: option.splits)
  have "bounded (max n (connects_sent w w1)) w1" using Cons.prems(2,3) by (intro bounded_step[OF _ w1]) auto
  from Cons.IH[OF _ this] Cons.prems(1,3) w1 show ?case by (simp add: max.assoc)
qed simp

lemma init_bounded:
  assumes "app_new json storage fresh = Some app"
  shows "bounded 0 (gui_init app)"
proof -
  have "\<not> active (panel_of_server srv)" for srv
    by (simp add: active_def panel_of_server_def)
  then have "filter active (map panel_of_server srvs) = []" for srvs
    by (simp add: filter_empty_conv)
  with assms show ?thesis
    by (auto simp: bounded_def gui_init_def app_new_def bounded_state_def actives_def
        \<open>\<And>srv. \<not> active (panel_of_server srv)\<close> split: option.splits simp del: filter_map)
qed

text \<open>
  C18. How many servers can be active at a time: from what the storage holds, whatever the user does in
  the frames, and however the controller, the connection loops and the updater fall in between, there
  are never more panels that are not disconnected than presses of \<open>Connect\<close> in a single frame. So
  with one press in a frame, however many frames there are, at most one server is active, and
  \<^verbatim>\<open>set_active_server\<close>, which takes the first such panel, cannot mean the wrong one. The bound is that of a
  single frame because \<^verbatim>\<open>already_connected\<close> is computed before the panels are drawn.
\<close>

theorem one_active_server:
  assumes "app_new json storage fresh = Some app"
    and "gui_run show_error info sts (gui_init app) = Some w"
    and "\<And>e. Frame e \<in> set sts \<Longrightarrow> egui_ok e"
  shows "actives (app_state (gw_app w)) \<le> most_connects show_error info sts (gui_init app)"
  using bounded_run[OF assms(2) init_bounded[OF assms(1)] assms(3)]
  by (simp add: bounded_def bounded_state_def)

subsection \<open>Messages that come too late\<close>

text \<open>The frames in which the user presses the button of the panel: it is the 15th or 16th widget.\<close>

definition press_connect :: gui_step where "press_connect = Frame (click_nth (Some 14))"

definition sample_state :: "server_state \<Rightarrow> gui_event list \<Rightarrow> nat \<Rightarrow> client option \<Rightarrow> gui_world" where
  "sample_state st q frames task = \<lparr>gw_app = sample_app\<lparr>app_frames := frames,
     app_state := gui_new\<lparr>gs_servers := Some [(panel_of_server sample_panel_server)\<lparr>panel_state := st\<rparr>]\<rparr>\<rparr>,
     gw_queue = q, gw_task = task, gw_poisoned = False, gw_controller = True\<rparr>"

lemma sample_init: "gui_init sample_app = sample_state PanelDisconnected [] 0 None"
  by (simp add: gui_init_def sample_state_def sample_app_def panel_of_server_def)

lemmas frame_simps = app_frame_def app_draw_def app_overlay_def menu_bar_def updater_gui_headline_def help_render_def
  render_servers_def error_line_def panel_render_def address_row_def port_row_def port_view_def
  status_column_def footer_def draw_simps click_nth_def ui_init_def

lemma sample_press_connect:
  "\<exists>srv. gui_step show_error sample_info press_connect (sample_state PanelDisconnected q f task)
     = Some (sample_state (PanelConnecting 0) (q @ [ConnectTo srv]) (f + 1) task)"
  by (simp add: gui_step_def press_connect_def sample_state_def sample_app_def sample_info_def frame_simps
      gui_new_def panel_of_server_def help_default_def active_def button_clicked_def Let_def)


lemmas sample_simps = gui_step_def sample_state_def sample_app_def gui_new_def panel_of_server_def
  controller_turn_def controller_panic_def loop_change_def takes_lock_def controller_update_def on_active_def set_active_server_def active_def with_state_def
  after_attempt_def

lemma sample_connect: "gui_step show_error sample_info TakeEvent (sample_state st (ConnectTo srv # q) f task)
    = Some (sample_state st q f (Some (client_new (connect_target srv) (Some True))))"
  by (simp add: sample_simps)


lemma sample_attempt: "st \<noteq> PanelDisconnected \<Longrightarrow>
    gui_step show_error sample_info (Attempt 0 (Inr ())) (sample_state st q f task)
    = Some (sample_state (PanelConnected 0) q f task)"
  by (simp add: sample_simps)



text \<open>The user connects, and the connection comes about.\<close>

definition up :: "gui_step list" where
  "up = [press_connect, TakeEvent, Attempt 0 (Inr ())]"


lemma sample_up: "\<exists>task. gui_run show_error sample_info up (gui_init sample_app)
    = Some (sample_state (PanelConnected 0) [] 1 task)"
proof -
  obtain srv where "gui_step show_error sample_info press_connect (sample_state PanelDisconnected [] 0 None)
      = Some (sample_state (PanelConnecting 0) [ConnectTo srv] 1 None)"
    using sample_press_connect[of show_error "[]" 0 None] by auto
  then show ?thesis by (auto simp: sample_init up_def sample_connect sample_attempt)
qed




subsection \<open>Two servers at once\<close>

text \<open>
  Two panels, from a storage with two servers, and a frame in which both \<open>Connect\<close> buttons react, one to
  the mouse and one to a key: both servers are then active.
\<close>

definition two_app :: my_app where
  "two_app = sample_app\<lparr>app_state := gui_new\<lparr>gs_servers := Some
     [panel_of_server sample_panel_server, panel_of_server sample_panel_server]\<rparr>\<rparr>"

lemma two_connects_two_active:
  "\<exists>w. gui_run show_error sample_info [Frame (click_all {14, 25})] (gui_init two_app) = Some w
     \<and> actives (app_state (gw_app w)) = 2"
  by (simp add: gui_init_def gui_step_def two_app_def sample_app_def sample_info_def frame_simps
      click_all_def gui_new_def panel_of_server_def help_default_def active_def button_clicked_def Let_def
      actives_def)

definition sample_storage :: storage where
  "sample_storage = Map.empty(str_lit ''servers'' \<mapsto> servers_to_json sample_json [sample_panel_server],
     str_lit ''eula_accepted'' \<mapsto> str_lit ''true'')"

lemma sample_app_new: "app_new sample_json sample_storage fresh = Some sample_app"
proof -
  have "str_lit ''servers'' \<noteq> str_lit ''eula_accepted''" by (simp add: str_lit_Cons)
  with sample_json_ok show ?thesis
    by (simp add: app_new_def sample_storage_def servers_json_ok_def sample_app_def)
qed

theorem one_active_server_witness:
  "\<exists>w. gui_run (\<lambda>e. []) sample_info up (gui_init sample_app) = Some w
     \<and> gs_servers (app_state (gw_app w)) \<noteq> None
     \<and> actives (app_state (gw_app w)) \<le> most_connects (\<lambda>e. []) sample_info up (gui_init sample_app)
     \<and> most_connects (\<lambda>e. []) sample_info up (gui_init sample_app) = 1"
proof -
  obtain task where run: "gui_run (\<lambda>e. []) sample_info up (gui_init sample_app)
      = Some (sample_state (PanelConnected 0) [] 1 task)"
    using sample_up by blast
  have "egui_ok e" if "Frame e \<in> set up" for e
    using that click_nth_ok by (auto simp: up_def press_connect_def)
  note bound = one_active_server[OF sample_app_new run this]
  obtain srv where "gui_step (\<lambda>e. []) sample_info press_connect (sample_state PanelDisconnected [] 0 None)
      = Some (sample_state (PanelConnecting 0) [ConnectTo srv] 1 None)"
    using sample_press_connect[of "\<lambda>e. []" "[]" 0 None] by auto
  moreover have "connects_sent (sample_state st q f t) (sample_state st' q' f' t') = connects (drop (length q) q')"
    for st q f t st' q' f' t' by (simp add: connects_sent_def sample_state_def)
  ultimately have "most_connects (\<lambda>e. []) sample_info up (gui_init sample_app) = 1"
    by (simp add: sample_init up_def sample_connect sample_attempt connects_def)
  with bound run show ?thesis by (auto simp: sample_state_def)
qed

end
