(* ===== verification/Server_Main.thy ===== *)
theory Server_Main
  imports Process_Socket Player_Arrival
begin

text \<open>
  The entry point of the proxy, \<^verbatim>\<open>server/src/main.rs\<close>: the accept loop and the task that publishes
  statistics; and all that shares the register, CraftIP clients, Minecraft clients and statistics,
  as one system.
\<close>

subsection \<open>Accepting connections\<close>

text \<open>The address to listen on: the first argument after the name of the program.\<close>

definition server_addr :: "str list \<Rightarrow> str" where
  "server_addr args = (if 1 < length args then args ! 1 else str_lit ''127.0.0.1:25565'')"

text \<open>
  The loop of \<^verbatim>\<open>main\<close> over the results of \<^verbatim>\<open>accept\<close>: each socket gets a task of its own, and an error
  leaves \<^verbatim>\<open>main\<close> through the question mark. The result is the sockets that got a task, and whether
  the loop goes on.
\<close>

fun accept_loop :: "'socket option list \<Rightarrow> 'socket list \<times> bool" where
  "accept_loop [] = ([], True)"
| "accept_loop (None # rs) = ([], False)"
| "accept_loop (Some socket # rs) = (case accept_loop rs of (ss, go) \<Rightarrow> (socket # ss, go))"

definition server_main :: "bool \<Rightarrow> bool \<Rightarrow> bool \<Rightarrow> 'socket option list \<Rightarrow> 'socket list \<times> bool" where
  "server_main subscriber_ok bind_ok addr_ok accepts =
    (if \<not> subscriber_ok \<or> \<not> bind_ok \<or> \<not> addr_ok then ([], False) else accept_loop accepts)"

subsection \<open>Statistics\<close>

record stats_post =
  sp_auth :: str
  sp_clients :: nat
  sp_server :: nat

text \<open>
  One turn of \<^verbatim>\<open>stats_handler\<close>: \<open>r1\<close> is the register when the servers are counted and \<open>r2\<close> when the
  clients are, each under a lock of its own. The result is the counts that are remembered, whether
  they are logged, and what is posted where.
\<close>

definition stats_turn ::
  "str option \<Rightarrow> str option \<Rightarrow> nat \<times> nat \<Rightarrow> register \<Rightarrow> register
     \<Rightarrow> (nat \<times> nat) \<times> bool \<times> (str \<times> stats_post) option" where
  "stats_turn auth_env stats_url prev_counts r1 r2 =
    (let server_count = get_server_count r1;
         clients = get_client_count r2;
         logged = (prev_counts \<noteq> (server_count, clients))
     in (if logged then (server_count, clients) else prev_counts, logged,
         case (auth_env, stats_url) of
           (Some a, Some url) \<Rightarrow> Some (url, \<lparr>sp_auth = a, sp_clients = clients, sp_server = server_count\<rparr>)
         | _ \<Rightarrow> None))"

fun stats_handler ::
  "str option \<Rightarrow> str option \<Rightarrow> nat \<times> nat \<Rightarrow> (register \<times> register) list
     \<Rightarrow> (bool \<times> (str \<times> stats_post) option) list" where
  "stats_handler auth_env stats_url prev_counts [] = []"
| "stats_handler auth_env stats_url prev_counts ((r1, r2) # rs) =
     (case stats_turn auth_env stats_url prev_counts r1 r2 of
        (now, out) \<Rightarrow> out # stats_handler auth_env stats_url now rs)"

subsection \<open>Everything that shares the register\<close>

text \<open>
  A task that handles a Minecraft client is what is left of its operations on the register; it is
  named by the number of its channel.
\<close>

record server_sys =
  ss_sys :: system
  ss_players :: "channel \<rightharpoonup> register_op list"

definition server_init :: server_sys where
  "server_init = \<lparr>ss_sys = system_init, ss_players = Map.empty\<rparr>"

datatype server_label = ProxyLabel label | PlayerArrives mc_env | PlayerOp channel

definition on_register :: "(register \<Rightarrow> register) \<Rightarrow> server_sys \<Rightarrow> server_sys" where
  "on_register f s = s\<lparr>ss_sys := (ss_sys s)\<lparr>sys_register := f (sys_register (ss_sys s))\<rparr>\<rparr>"

text \<open>
  A player arrives: \<^verbatim>\<open>handle_minecraft_client\<close> looks up the host name in the register as it then is,
  and what it still has to do to the register (\<^verbatim>\<open>add_client\<close> before and \<^verbatim>\<open>remove_client\<close> after a client is
  served, or nothing) are steps of their own, between which all other tasks run.
\<close>

inductive server_step :: "ring_api \<Rightarrow> server_sys \<Rightarrow> server_label \<Rightarrow> server_sys \<Rightarrow> bool" for api where
  proxy: "sys_step api (ss_sys s) l sys' \<Longrightarrow> server_step api s (ProxyLabel l) (s\<lparr>ss_sys := sys'\<rparr>)"
| player_arrives: "handle_minecraft_client (sys_register (ss_sys s)) env = (res, ops, msgs)
    \<Longrightarrow> ss_players s (env_channel env) = None
    \<Longrightarrow> server_step api s (PlayerArrives env)
          (s\<lparr>ss_players := (ss_players s)(env_channel env := if ops = [] then None else Some ops)\<rparr>)"
| player_op: "ss_players s c = Some (oper # ops)
    \<Longrightarrow> server_step api s (PlayerOp c)
          (on_register (run_op oper)
            (s\<lparr>ss_players := (ss_players s)(c := if ops = [] then None else Some ops)\<rparr>))"

text \<open>A player is being served between the two operations of its task.\<close>

definition served_players :: "server_sys \<Rightarrow> channel set" where
  "served_players s = {c. ss_players s c = Some [RemoveClient]}"

inductive server_reach :: "ring_api \<Rightarrow> server_label list \<Rightarrow> server_sys \<Rightarrow> bool" for api where
  init: "server_reach api [] server_init"
| step: "server_reach api tr s \<Longrightarrow> server_step api s l s' \<Longrightarrow> server_reach api (tr @ [l]) s'"

inductive_cases server_step_ProxyE: "server_step api s (ProxyLabel l) s'"

subsection \<open>The counts\<close>

text \<open>A step of a CraftIP connection does not touch the count of Minecraft clients.\<close>

lemma add_server_count: "add_server r h c = Inr r' \<Longrightarrow> client_count r' = client_count r"
  by (auto simp: add_server_def split: if_splits)

lemma remove_server_count [simp]: "client_count (remove_server r h) = client_count r"
  by (simp add: remove_server_def)

lemma handle_start_count: "handle_start r pc c ok = (r', res, out) \<Longrightarrow> client_count r' = client_count r"
  by (auto simp: handle_start_def into_disconnected_def dest: add_server_count split: sum.splits if_splits)

lemma add_server_wf: "add_server r h c = Inr r' \<Longrightarrow> distinct (map fst (servers r)) \<Longrightarrow> distinct (map fst (servers r'))"
  by (auto simp: add_server_def distinct_update split: if_splits)

lemma handle_start_wf: "handle_start r pc c ok = (r', res, out) \<Longrightarrow> distinct (map fst (servers r))
    \<Longrightarrow> distinct (map fst (servers r'))"
  by (auto simp: handle_start_def into_disconnected_def add_server_def remove_server_def
      simp: distinct_update distinct_delete split: sum.splits if_splits)

lemma sys_step_register:
  assumes "sys_step api sys l sys'"
  shows "client_count (sys_register sys') = client_count (sys_register sys)"
    "distinct (map fst (servers (sys_register sys))) \<Longrightarrow> distinct (map fst (servers (sys_register sys')))"
  using assms
  by (induction rule: sys_step.induct)
    (auto simp: into_disconnected_def remove_server_def dest: handle_start_count handle_start_wf add_server_count add_server_wf
      intro: distinct_delete)

text \<open>What a task has still to do; none of it touches the entries of the servers.\<close>

lemma handle_minecraft_client_ops:
  "handle_minecraft_client r env = (res, ops, msgs) \<Longrightarrow> ops = [] \<or> ops = [AddClient, RemoveClient]"
  by (auto simp: handle_minecraft_client_def Let_def split: option.splits sum.splits prod.splits)

definition tasks_ok :: "server_sys \<Rightarrow> bool" where
  "tasks_ok s \<longleftrightarrow> (\<forall>c ops. ss_players s c = Some ops \<longrightarrow> ops \<in> {[AddClient, RemoveClient], [RemoveClient]})"

lemma tasks_ok_op:
  assumes "tasks_ok s" "ss_players s c = Some (oper # ops)"
  shows "oper = AddClient \<and> ops = [RemoveClient] \<or> oper = RemoveClient \<and> ops = []"
  using assms unfolding tasks_ok_def by fastforce

lemma tasks_ok_step:
  assumes "server_step api s l s'" "tasks_ok s"
  shows "tasks_ok s'"
  using assms
proof (cases rule: server_step.cases)
  case (player_arrives env res ops msgs)
  with assms(2) handle_minecraft_client_ops[OF player_arrives(3)] show ?thesis by (auto simp: tasks_ok_def)
next
  case (player_op c oper ops)
  with assms(2) tasks_ok_op[OF assms(2) player_op(3)] show ?thesis
    by (auto simp: tasks_ok_def on_register_def)
qed (auto simp: tasks_ok_def)

text \<open>How a step changes the players that are being served, and the count.\<close>

lemma players_step:
  assumes "server_step api s l s'" "tasks_ok s"
  shows "served_players s' = served_players s \<and> client_count (sys_register (ss_sys s')) = client_count (sys_register (ss_sys s))
    \<or> (\<exists>c. c \<notin> served_players s \<and> served_players s' = insert c (served_players s)
        \<and> sys_register (ss_sys s') = add_client (sys_register (ss_sys s)))
    \<or> (\<exists>c. c \<in> served_players s \<and> served_players s' = served_players s - {c}
        \<and> sys_register (ss_sys s') = remove_client (sys_register (ss_sys s)))"
  using assms
proof (cases rule: server_step.cases)
  case (proxy l' sys')
  then show ?thesis using sys_step_register(1)[OF proxy(3)] by (simp add: served_players_def)
next
  case (player_arrives env res ops msgs)
  then show ?thesis using handle_minecraft_client_ops[OF player_arrives(3)] by (auto simp: served_players_def)
next
  case (player_op c oper ops)
  from tasks_ok_op[OF assms(2) player_op(3)] show ?thesis
  proof (elim disjE conjE)
    assume "oper = AddClient" "ops = [RemoveClient]"
    with player_op show ?thesis by (intro disjI2 disjI1 exI[of _ c]) (auto simp: served_players_def on_register_def)
  next
    assume "oper = RemoveClient" "ops = []"
    with player_op show ?thesis by (intro disjI2 exI[of _ c]) (auto simp: served_players_def on_register_def)
  qed
qed

text \<open>Counting clients leaves the entries alone.\<close>

lemma count_entries:
  assumes "oper = AddClient \<or> oper = RemoveClient"
  shows "servers (run_op oper r) = servers r"
    and "consistent sys \<Longrightarrow> consistent (sys\<lparr>sys_register := run_op oper (sys_register sys)\<rparr>)"
proof -
  show entries: "servers (run_op oper r) = servers r" for r
    using assms by (auto simp: add_client_def remove_client_def)
  assume "consistent sys"
  then show "consistent (sys\<lparr>sys_register := run_op oper (sys_register sys)\<rparr>)"
    by (simp add: consistent_def owners_def get_server_def entries)
qed

lemma server_step_entries:
  assumes "server_step api s l s'" "tasks_ok s" "consistent (ss_sys s)"
    "distinct (map fst (servers (sys_register (ss_sys s))))"
  shows "consistent (ss_sys s')" "distinct (map fst (servers (sys_register (ss_sys s'))))"
proof -
  have "consistent (ss_sys s') \<and> distinct (map fst (servers (sys_register (ss_sys s'))))"
    using assms(1)
  proof (cases rule: server_step.cases)
    case (proxy l' sys')
    with assms(3,4) consistent_step[OF proxy(3)] sys_step_register(2)[OF proxy(3)] show ?thesis by simp
  next
    case (player_op c oper ops)
    from tasks_ok_op[OF assms(2) player_op(3)] have "oper = AddClient \<or> oper = RemoveClient" by blast
    from count_entries[OF this] player_op assms(3,4) show ?thesis
      by (simp add: on_register_def)
  qed (use assms(3,4) in simp)
  then show "consistent (ss_sys s')" "distinct (map fst (servers (sys_register (ss_sys s'))))" by simp_all
qed

lemma server_reach_inv:
  assumes "server_reach api tr s"
  shows "consistent (ss_sys s) \<and> distinct (map fst (servers (sys_register (ss_sys s)))) \<and> tasks_ok s
    \<and> finite (served_players s) \<and> card (served_players s) \<le> length tr
    \<and> (length tr \<le> USIZE_MAX \<longrightarrow> client_count (sys_register (ss_sys s)) = card (served_players s))"
  using assms
proof (induction rule: server_reach.induct)
  case init
  have "sys_reach api [] system_init" by (rule sys_reach.init)
  then show ?case using sys_reach_consistent
    by (fastforce simp: server_init_def system_init_def register_default_def tasks_ok_def served_players_def)
next
  case (step tr s l s')
  then have ih: "tasks_ok s" "consistent (ss_sys s)" "distinct (map fst (servers (sys_register (ss_sys s))))"
    by simp_all
  note entries = server_step_entries[OF step.hyps(2) ih] tasks_ok_step[OF step.hyps(2) ih(1)]
  have count: "finite (served_players s)" "card (served_players s) \<le> length tr"
    "length tr \<le> USIZE_MAX \<Longrightarrow> client_count (sys_register (ss_sys s)) = card (served_players s)"
    using step.IH by simp_all
  have "finite (served_players s') \<and> card (served_players s') \<le> length (tr @ [l])
    \<and> (length (tr @ [l]) \<le> USIZE_MAX \<longrightarrow> client_count (sys_register (ss_sys s')) = card (served_players s'))"
    using players_step[OF step.hyps(2) ih(1)]
  proof (elim disjE exE conjE)
    assume "served_players s' = served_players s"
      "client_count (sys_register (ss_sys s')) = client_count (sys_register (ss_sys s))"
    with count show ?thesis by simp
  next
    fix c
    assume "c \<notin> served_players s" "served_players s' = insert c (served_players s)"
      "sys_register (ss_sys s') = add_client (sys_register (ss_sys s))"
    with count show ?thesis by (simp add: add_client_def)
  next
    fix c
    assume "c \<in> served_players s" "served_players s' = served_players s - {c}"
      "sys_register (ss_sys s') = remove_client (sys_register (ss_sys s))"
    with count show ?thesis by (simp add: remove_client_def card_Diff_singleton)
  qed
  with entries show ?case by blast
qed

lemma serving_count_card:
  assumes "consistent sys" "distinct (map fst (servers (sys_register sys)))"
  shows "get_server_count (sys_register sys) = card {c. \<exists>pc s. sys_conns sys c = Serving pc s}"
proof -
  let ?al = "servers (sys_register sys)"
  have own: "(h, c) \<in> set ?al \<longleftrightarrow> (\<exists>pc s. sys_conns sys c = Serving pc s \<and> pc_hostname pc = h)" for h c
    using assms by (auto simp: consistent_def owners_def get_server_def)
  have "inj_on snd (set ?al)"
  proof (rule inj_onI)
    fix x y
    assume xy: "x \<in> set ?al" "y \<in> set ?al" "snd x = snd y"
    obtain h c h' where "x = (h, c)" "y = (h', c)" using xy(3) by (metis prod.collapse)
    with xy(1,2) own[of h c] own[of h' c] show "x = y" by auto
  qed
  then have "card (snd ` set ?al) = card (set ?al)" by (rule card_image)
  also have "card (set ?al) = length ?al"
    using assms(2) by (intro distinct_card) (simp add: distinct_map)
  finally have "card (snd ` set ?al) = length ?al" .
  moreover have "snd ` set ?al = {c. \<exists>pc s. sys_conns sys c = Serving pc s}"
    using own by (force simp: image_iff)
  ultimately show ?thesis by (simp add: get_server_count_def)
qed

lemma stats_turn_post:
  "stats_turn (Some auth_env) (Some url) prev_counts r1 r2 = (now, logged, post)
     \<Longrightarrow> post = Some (url, \<lparr>sp_auth = auth_env, sp_clients = get_client_count r2, sp_server = get_server_count r1\<rparr>)"
  by (auto simp: stats_turn_def Let_def)

text \<open>
  C26. What is published is what is the case: in any reachable state of the server, whatever CraftIP
  clients and players do, a turn of the statistics posts the number of connections that serve a
  host name and the number of players that are being served
  (those whose task has done its \<^verbatim>\<open>add_client\<close> and not yet its \<^verbatim>\<open>remove_client\<close>), and it logs exactly when one of the
  two differs from the last time. Without both variables of the environment nothing is posted.
\<close>

theorem published_counts:
  assumes "server_reach api tr s" "length tr \<le> USIZE_MAX"
    and "stats_turn auth_env url prev_counts (sys_register (ss_sys s)) (sys_register (ss_sys s)) = (now, logged, post)"
  shows "now = (card {c. \<exists>pc ses. sys_conns (ss_sys s) c = Serving pc ses}, card (served_players s))
    \<and> (logged \<longleftrightarrow> now \<noteq> prev_counts)
    \<and> post = (if auth_env \<noteq> None \<and> url \<noteq> None
        then Some (the url, \<lparr>sp_auth = the auth_env, sp_clients = snd now, sp_server = fst now\<rparr>) else None)"
proof -
  note inv = server_reach_inv[OF assms(1)]
  have "get_server_count (sys_register (ss_sys s)) = card {c. \<exists>pc ses. sys_conns (ss_sys s) c = Serving pc ses}"
    using serving_count_card inv by blast
  moreover have "get_client_count (sys_register (ss_sys s)) = card (served_players s)"
    using inv assms(2) by (simp add: get_client_count_def)
  ultimately show ?thesis
    using assms(3) by (auto simp: stats_turn_def Let_def split: option.splits if_splits)
qed

text \<open>A CraftIP client serves, and one player is being served.\<close>

lemma server_reach_proxy:
  "sys_reach api tr sys \<Longrightarrow> server_reach api (map ProxyLabel tr) (server_init\<lparr>ss_sys := sys\<rparr>)"
proof (induction rule: sys_reach.induct)
  case init
  have "server_init\<lparr>ss_sys := system_init\<rparr> = server_init" by (simp add: server_init_def)
  then show ?case using server_reach.init by simp
next
  case (step tr sys l sys')
  from server_step.proxy[of api "server_init\<lparr>ss_sys := sys\<rparr>" l sys'] step.hyps(2)
  have "server_step api (server_init\<lparr>ss_sys := sys\<rparr>) (ProxyLabel l) (server_init\<lparr>ss_sys := sys'\<rparr>)"
    by (simp add: server_init_def)
  with step.IH show ?case by (auto intro: server_reach.step)
qed

definition busy_server :: server_sys where
  "busy_server = \<lparr>ss_sys = sample_serving\<lparr>sys_register := add_client (sys_register sample_serving)\<rparr>,
     ss_players = [5 \<mapsto> [RemoveClient]]\<rparr>"

lemma busy_server_reach:
  "server_reach sample_api
     ((map ProxyLabel (sample_labels @ [Start 3 True]) @ [PlayerArrives arrival_env]) @ [PlayerOp 5]) busy_server"
proof -
  let ?s0 = "server_init\<lparr>ss_sys := sample_serving\<rparr>"
  let ?s1 = "?s0\<lparr>ss_players := [5 \<mapsto> [AddClient, RemoveClient]]\<rparr>"
  have env: "env_channel arrival_env = 5" by (simp add: arrival_env_def)
  obtain res msgs where "handle_minecraft_client (sys_register sample_serving) arrival_env
      = (res, [AddClient, RemoveClient], msgs)"
    using arrival_served by blast
  then have "server_step sample_api ?s0 (PlayerArrives arrival_env)
      (?s0\<lparr>ss_players := (ss_players ?s0)(env_channel arrival_env :=
         if [AddClient, RemoveClient] = [] then None else Some [AddClient, RemoveClient])\<rparr>)"
    by (intro server_step.player_arrives) (simp_all add: server_init_def)
  then have a: "server_step sample_api ?s0 (PlayerArrives arrival_env) ?s1"
    by (simp add: env server_init_def)
  have "server_step sample_api ?s1 (PlayerOp 5) (on_register (run_op AddClient)
      (?s1\<lparr>ss_players := (ss_players ?s1)(5 := if [RemoveClient] = [] then None else Some [RemoveClient])\<rparr>))"
    by (rule server_step.player_op) simp
  then have "server_step sample_api ?s1 (PlayerOp 5) busy_server"
    by (simp add: busy_server_def on_register_def server_init_def)
  with a server_reach_proxy[OF sample_reach_serving] show ?thesis
    by (blast intro: server_reach.step)
qed

theorem published_counts_witness:
  "\<exists>now logged post.
     stats_turn (Some [1]) (Some [2]) (0, 0) (sys_register (ss_sys busy_server)) (sys_register (ss_sys busy_server))
       = (now, logged, post) \<and> snd now = 1
     \<and> fst now = card {c. \<exists>pc ses. sys_conns (ss_sys busy_server) c = Serving pc ses}
     \<and> post = Some ([2], \<lparr>sp_auth = [1], sp_clients = snd now, sp_server = fst now\<rparr>)"
proof -
  obtain now logged post where t: "stats_turn (Some [1]) (Some [2]) (0, 0) (sys_register (ss_sys busy_server))
      (sys_register (ss_sys busy_server)) = (now, logged, post)" by (metis prod_cases3)
  have len: "length ((map ProxyLabel (sample_labels @ [Start 3 True]) @ [PlayerArrives arrival_env]) @ [PlayerOp 5])
      \<le> USIZE_MAX"
    by (simp add: USIZE_MAX_def sample_labels_def)
  have "served_players busy_server = {5}" by (auto simp: served_players_def busy_server_def split: if_splits)
  with published_counts[OF busy_server_reach len t] t show ?thesis by auto
qed

subsection \<open>Errors of the listener\<close>

lemma accept_error_stops:
  "accept_loop rs = (map the (takeWhile (\<lambda>r. r \<noteq> None) rs), None \<notin> set rs)"
  by (induction rs rule: accept_loop.induct) auto

end
