(* ===== verification/Client_Main.thy ===== *)
theory Client_Main
  imports Tunnel
begin

text \<open>
  The command line client, \<^verbatim>\<open>crates/client/src/main.rs\<close>: its key file and one session. bincode is
  the pair \<open>ser\<close>, \<open>deser\<close>; the file system and the network are inputs.
\<close>

subsection \<open>The key file\<close>

text \<open>
  The configuration directory and the file in it: \<open>kf_read\<close> is what \<^verbatim>\<open>fs::read\<close> gives, \<open>None\<close> for any
  error.
\<close>

record key_fs =
  kf_home_ok :: bool
  kf_dir_exists :: bool
  kf_create_ok :: bool
  kf_read :: "bytes option"
  kf_write_ok :: bool

text \<open>
  \<^verbatim>\<open>load_private_key\<close>: the key, and what was written to the file. \<open>None\<close> is one of the panics; what a
  run wrote before it is not told.
\<close>

definition load_private_key ::
  "ring_api \<Rightarrow> (server_private_key \<Rightarrow> bytes) \<Rightarrow> (bytes \<Rightarrow> server_private_key option) \<Rightarrow> bytes \<Rightarrow> key_fs
     \<Rightarrow> (server_private_key \<times> bytes option) option" where
  "load_private_key api ser deser rng fs =
    (if \<not> kf_home_ok fs then None
     else if \<not> kf_dir_exists fs \<and> \<not> kf_create_ok fs then None
     else case kf_read fs of
       Some key \<Rightarrow> map_option (\<lambda>k. (k, None)) (deser key)
     | None \<Rightarrow>
         (case private_key_default api rng of
            None \<Rightarrow> None
          | Some private_key \<Rightarrow>
             (let bs = ser private_key in
              if \<not> kf_write_ok fs then None
              else map_option (\<lambda>k. (k, Some bs)) (deser bs))))"

subsection \<open>A run\<close>

datatype cli_end = CliOk | CliPanicked

record cli_env =
  ce_args :: "str list"
  ce_rng :: bytes
  ce_fs :: key_fs
  ce_local_ok :: bool
  ce_proxy_ok :: bool
  ce_write_ok :: bool
  ce_send_ok :: "bool \<times> bool"
  ce_reply1 :: frame_event
  ce_reply2 :: frame_event
  ce_handle_ok :: bool

definition cli_local :: "str list \<Rightarrow> str" where
  "cli_local args = (if 1 < length args then args ! 1 else str_lit ''localhost:25565'')"

text \<open>
  \<^verbatim>\<open>main\<close>: an error to connect ends the program as a success; one of \<^verbatim>\<open>auth\<close> or of \<^verbatim>\<open>handle\<close> is unwrapped. The
  result has the server the client was started with, if it came so far.
\<close>

definition cli_main ::
  "ring_api \<Rightarrow> (server_private_key \<Rightarrow> bytes) \<Rightarrow> (bytes \<Rightarrow> server_private_key option) \<Rightarrow> cli_env
     \<Rightarrow> cli_end \<times> server option" where
  "cli_main api ser deser env =
    (case load_private_key api ser deser (ce_rng env) (ce_fs env) of
       None \<Rightarrow> (CliPanicked, None)
     | Some (private_key, written) \<Rightarrow>
        (case server_new_from_key api private_key of
           None \<Rightarrow> (CliPanicked, None)
         | Some srv \<Rightarrow>
            (let srv = srv\<lparr>server_local := cli_local (ce_args env)\<rparr>;
                 client = client_new srv None in
             case connect (ce_local_ok env) (ce_proxy_ok env) (ce_write_ok env) of
               Inl e \<Rightarrow> (CliOk, Some srv)
             | Inr bs \<Rightarrow>
                (case auth api client (ce_send_ok env) (ce_reply1 env) (ce_reply2 env) of
                   None \<Rightarrow> (CliPanicked, Some srv)
                 | Some (Inl e, sent) \<Rightarrow> (CliPanicked, Some srv)
                 | Some (Inr u, sent) \<Rightarrow>
                     (if ce_handle_ok env then CliOk else CliPanicked, Some srv)))))"

subsection \<open>The key stays\<close>

definition key_format_ok ::
  "(server_private_key \<Rightarrow> bytes) \<Rightarrow> (bytes \<Rightarrow> server_private_key option) \<Rightarrow> bool" where
  "key_format_ok ser deser \<longleftrightarrow> (\<forall>k. wf_private_key k \<longrightarrow> deser (ser k) = Some k)"

lemma private_key_default_wf: "private_key_default api rng = Some k \<Longrightarrow> wf_private_key k"
  by (auto simp: private_key_default_def wf_private_key_def split: option.splits if_splits)

lemma load_writes:
  "key_format_ok ser deser \<Longrightarrow> load_private_key api ser deser rng fs = Some (k, Some bs)
     \<Longrightarrow> wf_private_key k \<and> bs = ser k \<and> kf_read fs = None \<and> private_key_default api rng = Some k"
  by (auto simp: load_private_key_def Let_def key_format_ok_def dest: private_key_default_wf
      split: if_splits option.splits)

lemma load_keeps:
  "load_private_key api ser deser rng fs = Some (k, None) \<Longrightarrow> \<exists>bs. kf_read fs = Some bs \<and> deser bs = Some k"
  by (auto simp: load_private_key_def Let_def split: if_splits option.splits)

lemma cli_server:
  assumes "load_private_key api ser deser (ce_rng env) (ce_fs env) = Some (k, w)"
    and "server_new_from_key api k = Some srv"
  shows "snd (cli_main api ser deser env) = Some (srv\<lparr>server_local := cli_local (ce_args env)\<rparr>)"
  using assms by (simp add: cli_main_def Let_def split: sum.splits option.splits prod.splits)

text \<open>
  The address of a server survives a restart: after a run that could not read the key file has
  written a new key, every later run that reads the file starts a client with the same key and the
  same host name, whatever random numbers it draws, and writes nothing. The same random numbers
  give the key of the first run.
\<close>

lemma key_file_persists:
  assumes "key_format_ok ser deser"
    and "load_private_key api ser deser rng fs = Some (k, Some bs)"
    and "kf_home_ok (ce_fs env)" "kf_dir_exists (ce_fs env)" "kf_read (ce_fs env) = Some bs"
    and "server_new_from_key api k = Some srv"
  shows "load_private_key api ser deser (ce_rng env) (ce_fs env) = Some (k, None)
    \<and> snd (cli_main api ser deser env) = Some (srv\<lparr>server_local := cli_local (ce_args env)\<rparr>)
    \<and> private_key_default api rng = Some k"
proof -
  note w = load_writes[OF assms(1,2)]
  have "deser bs = Some k" using w assms(1) by (simp add: key_format_ok_def)
  then have "load_private_key api ser deser (ce_rng env) (ce_fs env) = Some (k, None)"
    using assms(3-5) by (simp add: load_private_key_def)
  with cli_server[OF this assms(6)] w show ?thesis by simp
qed

text \<open>An unreadable file costs the key: the new key replaces the old one, whose host name is lost.\<close>

lemma unreadable_key_replaced:
  assumes "key_format_ok ser deser" "kf_home_ok fs" "kf_dir_exists fs" "kf_write_ok fs"
    and "kf_read fs = None" "private_key_default api rng = Some k"
  shows "load_private_key api ser deser rng fs = Some (k, Some (ser k))"
  using assms private_key_default_wf[OF assms(6)]
  by (simp add: load_private_key_def key_format_ok_def Let_def)

definition sample_key_ser :: "server_private_key \<Rightarrow> bytes" where
  "sample_key_ser k = private_key_bytes k"

definition sample_key_deser :: "bytes \<Rightarrow> server_private_key option" where
  "sample_key_deser bs = (if length bs = 83 then Some \<lparr>private_key_bytes = bs\<rparr> else None)"

lemma sample_key_format: "key_format_ok sample_key_ser sample_key_deser"
  by (simp add: key_format_ok_def sample_key_ser_def sample_key_deser_def wf_private_key_def)

definition sample_fs :: "bytes option \<Rightarrow> key_fs" where
  "sample_fs content = \<lparr>kf_home_ok = True, kf_dir_exists = True, kf_create_ok = True,
     kf_read = content, kf_write_ok = True\<rparr>"

definition sample_cli :: cli_env where
  "sample_cli = \<lparr>ce_args = [], ce_rng = [1, 2, 3], ce_fs = sample_fs (Some (private_key_bytes sample_key)),
     ce_local_ok = True, ce_proxy_ok = True, ce_write_ok = True, ce_send_ok = (True, True),
     ce_reply1 = Eof, ce_reply2 = Eof, ce_handle_ok = True\<rparr>"

lemma sample_first_run:
  "load_private_key sample_api sample_key_ser sample_key_deser (replicate 83 7) (sample_fs None)
     = Some (sample_key, Some (private_key_bytes sample_key))"
proof -
  have "private_key_default sample_api (replicate 83 7) = Some sample_key"
    by (simp add: private_key_default_def sample_api_def sample_key_def)
  then show ?thesis
    using unreadable_key_replaced[OF sample_key_format, of "sample_fs None" sample_api "replicate 83 7"]
    by (simp add: sample_fs_def sample_key_ser_def)
qed

end
