(* ===== verification/Protocol_Tests.thy ===== *)
theory Protocol_Tests
  imports Minecraft_Wire Register
begin

text \<open>
  The unit tests of the protocol crate (\<^verbatim>\<open>crates/protocol/src/test.rs\<close>, and the test modules of
  \<^verbatim>\<open>socket_packet.rs\<close>, \<^verbatim>\<open>minecraft.rs\<close> and \<^verbatim>\<open>crypto.rs\<close>; also that of the server's \<^verbatim>\<open>register.rs\<close>) as predicates on the model: what the tests assert
  of the code holds of the definitions. What a test draws at random is an argument.
\<close>

subsection \<open>First packets\<close>

record test_hello_packet =
  test_name :: str
  test_packet :: minecraft_hello_packet
  test_data :: bytes

definition legacy_ping_vectors :: "test_hello_packet list" where
  "legacy_ping_vectors = [
    \<lparr>test_name = str_lit ''ping with long hostname'', test_packet = \<lparr>length_hello = 162, pkg_type = Legacy, id_hello = 0,
       version_hello = 73, hostname_hello = str_lit ''aaaaaaaaaaaaaaaaaaaaaaaaaaaaaaaaaaaaaaaaaaaaaaaaaaaaaaaaaaaaaaa'',
       forge = False, port = 25565\<rparr>, test_data =
     [254, 1, 250, 0, 11, 0, 77, 0, 67, 0, 124, 0, 80, 0, 105, 0, 110, 0, 103, 0, 72, 0, 111, 0,
      115, 0, 116, 0, 133, 73, 0, 63, 0, 97, 0, 97, 0, 97, 0, 97, 0, 97, 0, 97, 0, 97, 0, 97, 0,
      97, 0, 97, 0, 97, 0, 97, 0, 97, 0, 97, 0, 97, 0, 97, 0, 97, 0, 97, 0, 97, 0, 97, 0, 97, 0,
      97, 0, 97, 0, 97, 0, 97, 0, 97, 0, 97, 0, 97, 0, 97, 0, 97, 0, 97, 0, 97, 0, 97, 0, 97, 0,
      97, 0, 97, 0, 97, 0, 97, 0, 97, 0, 97, 0, 97, 0, 97, 0, 97, 0, 97, 0, 97, 0, 97, 0, 97, 0,
      97, 0, 97, 0, 97, 0, 97, 0, 97, 0, 97, 0, 97, 0, 97, 0, 97, 0, 97, 0, 97, 0, 97, 0, 97, 0,
      97, 0, 97, 0, 97, 0, 0, 99, 221]\<rparr>,
    \<lparr>test_name = str_lit ''ping with short hostname'', test_packet = \<lparr>length_hello = 40, pkg_type = Legacy, id_hello = 0,
       version_hello = 73, hostname_hello = str_lit ''hi'',
       forge = False, port = 25565\<rparr>, test_data =
     [254, 1, 250, 0, 11, 0, 77, 0, 67, 0, 124, 0, 80, 0, 105, 0, 110, 0, 103, 0, 72, 0, 111, 0,
      115, 0, 116, 0, 11, 73, 0, 2, 0, 104, 0, 105, 0, 0, 99, 221]\<rparr>]"

definition legacy_connect_vectors :: "test_hello_packet list" where
  "legacy_connect_vectors = [
    \<lparr>test_name = str_lit ''connect with long hostname'', test_packet = \<lparr>length_hello = 158, pkg_type = Legacy, id_hello = 0,
       version_hello = 73, hostname_hello = str_lit ''aaaaaaaaaaaaaaaaaaaaaaaaaaaaaaaaaaaaaaaaaaaaaaaaaaaaaaaaaaaaaaa'',
       forge = False, port = 25565\<rparr>, test_data =
     [2, 73, 0, 11, 0, 80, 0, 101, 0, 110, 0, 110, 0, 101, 0, 114, 0, 81, 0, 117, 0, 101, 0, 101,
      0, 110, 0, 63, 0, 97, 0, 97, 0, 97, 0, 97, 0, 97, 0, 97, 0, 97, 0, 97, 0, 97, 0, 97, 0, 97,
      0, 97, 0, 97, 0, 97, 0, 97, 0, 97, 0, 97, 0, 97, 0, 97, 0, 97, 0, 97, 0, 97, 0, 97, 0, 97, 0,
      97, 0, 97, 0, 97, 0, 97, 0, 97, 0, 97, 0, 97, 0, 97, 0, 97, 0, 97, 0, 97, 0, 97, 0, 97, 0,
      97, 0, 97, 0, 97, 0, 97, 0, 97, 0, 97, 0, 97, 0, 97, 0, 97, 0, 97, 0, 97, 0, 97, 0, 97, 0,
      97, 0, 97, 0, 97, 0, 97, 0, 97, 0, 97, 0, 97, 0, 97, 0, 97, 0, 97, 0, 97, 0, 97, 0, 97, 0, 0,
      99, 221]\<rparr>,
    \<lparr>test_name = str_lit ''connect with short hostname'', test_packet = \<lparr>length_hello = 50, pkg_type = Legacy, id_hello = 0,
       version_hello = 73, hostname_hello = str_lit ''localhost'',
       forge = False, port = 25565\<rparr>, test_data =
     [2, 73, 0, 11, 0, 80, 0, 101, 0, 110, 0, 110, 0, 101, 0, 114, 0, 81, 0, 117, 0, 101, 0, 101,
      0, 110, 0, 9, 0, 108, 0, 111, 0, 99, 0, 97, 0, 108, 0, 104, 0, 111, 0, 115, 0, 116, 0, 0, 99,
      221]\<rparr>,
    \<lparr>test_name = str_lit ''connect with too long buffer'', test_packet = \<lparr>length_hello = 50, pkg_type = Legacy, id_hello = 0,
       version_hello = 73, hostname_hello = str_lit ''localhost'',
       forge = False, port = 25565\<rparr>, test_data =
     [2, 73, 0, 11, 0, 80, 0, 101, 0, 110, 0, 110, 0, 101, 0, 114, 0, 81, 0, 117, 0, 101, 0, 101,
      0, 110, 0, 9, 0, 108, 0, 111, 0, 99, 0, 97, 0, 108, 0, 104, 0, 111, 0, 115, 0, 116, 0, 0, 99,
      221]\<rparr>]"

definition modern_vectors :: "test_hello_packet list" where
  "modern_vectors = [
    \<lparr>test_name = str_lit ''connect with new server'', test_packet = \<lparr>length_hello = 17, pkg_type = Connect, id_hello = 0,
       version_hello = 767, hostname_hello = str_lit ''localhost'',
       forge = False, port = 25564\<rparr>, test_data =
     [16, 0, 255, 5, 9, 108, 111, 99, 97, 108, 104, 111, 115, 116, 99, 220, 2]\<rparr>,
    \<lparr>test_name = str_lit ''Ping new server'', test_packet = \<lparr>length_hello = 17, pkg_type = Ping, id_hello = 0,
       version_hello = 767, hostname_hello = str_lit ''localhost'',
       forge = False, port = 25564\<rparr>, test_data =
     [16, 0, 255, 5, 9, 108, 111, 99, 97, 108, 104, 111, 115, 116, 99, 220, 1]\<rparr>,
    \<lparr>test_name = str_lit '''', test_packet = \<lparr>length_hello = 42, pkg_type = Connect, id_hello = 0,
       version_hello = 767, hostname_hello = str_lit ''1234abcd001992312312.t.craftip.net'',
       forge = False, port = 25565\<rparr>, test_data =
     [41, 0, 255, 5, 34, 49, 50, 51, 52, 97, 98, 99, 100, 48, 48, 49, 57, 57, 50, 51, 49, 50, 51,
      49, 50, 46, 116, 46, 99, 114, 97, 102, 116, 105, 112, 46, 110, 101, 116, 99, 221, 2]\<rparr>,
    \<lparr>test_name = str_lit ''Forge server ping'', test_packet = \<lparr>length_hello = 48, pkg_type = Ping, id_hello = 0,
       version_hello = 767, hostname_hello = str_lit ''1234abcd001992312312.t.craftip.net'',
       forge = True, port = 25565\<rparr>, test_data =
     [47, 0, 255, 5, 40, 49, 50, 51, 52, 97, 98, 99, 100, 48, 48, 49, 57, 57, 50, 51, 49, 50, 51,
      49, 50, 46, 116, 46, 99, 114, 97, 102, 116, 105, 112, 46, 110, 101, 116, 0, 70, 79, 82, 71,
      69, 99, 221, 1]\<rparr>,
    \<lparr>test_name = str_lit ''Forge server connect'', test_packet = \<lparr>length_hello = 48, pkg_type = Connect, id_hello = 0,
       version_hello = 767, hostname_hello = str_lit ''1234abcd001992312312.t.craftip.net'',
       forge = True, port = 25565\<rparr>, test_data =
     [47, 0, 255, 5, 40, 49, 50, 51, 52, 97, 98, 99, 100, 48, 48, 49, 57, 57, 50, 51, 49, 50, 51,
      49, 50, 46, 116, 46, 99, 114, 97, 102, 116, 105, 112, 46, 110, 101, 116, 0, 70, 79, 82, 71,
      69, 99, 221, 2]\<rparr>]"

text \<open>The loop of \<^verbatim>\<open>test_hello_packet_ping\<close>: no proper prefix is a packet yet, the whole is this packet.\<close>

definition test_hello_vector :: "test_hello_packet \<Rightarrow> bool" where
  "test_hello_vector test \<longleftrightarrow>
     list_all (\<lambda>len. hello_new (take len (test_data test)) = Incomplete) [0..<length (test_data test)]
   \<and> hello_new (test_data test) = Parsed (test_packet test)"

definition test_hello_packet_ping :: bool where
  "test_hello_packet_ping \<longleftrightarrow>
     list_all test_hello_vector (legacy_ping_vectors @ legacy_connect_vectors @ modern_vectors)"

text \<open>A packet that fills its data cannot have been read from less.\<close>

lemma test_hello_packetI:
  assumes "hello_new (test_data test) = Parsed (test_packet test)"
    and "length_hello (test_packet test) = length (test_data test)"
  shows "test_hello_vector test"
proof -
  have "hello_new (take len (test_data test)) = Incomplete" if "len < length (test_data test)" for len
  proof (rule ccontr)
    assume n: "hello_new (take len (test_data test)) \<noteq> Incomplete"
    have "hello_new (take len (test_data test)) \<le> Parsed (test_packet test)"
      using hello_new_mono_prefix[OF take_is_prefix] assms(1) by metis
    with n have "hello_new (take len (test_data test)) = Parsed (test_packet test)"
      by (metis outcome_le_decided)
    then have "length_hello (test_packet test) \<le> length (take len (test_data test))"
      using hello_length_bound by blast
    with that assms(2) show False by simp
  qed
  with assms(1) show ?thesis by (simp add: test_hello_vector_def list_all_iff)
qed

lemma from_utf16_ascii:
  assumes "list_all (\<lambda>b. unat b < 0x80) s"
  shows "from_utf16 (map ucast s) = Some s"
proof -
  have u: "unat (ucast b :: u16) = unat b" for b :: u8
  proof -
    have "unat b < 2 ^ 16" using unsigned_less[of b, where 'a = nat] by simp
    then show ?thesis by (simp add: unsigned_ucast_eq take_bit_nat_eq_self)
  qed
  have "decode_utf16 (map ucast s) = Some (map unat s)"
    using assms by (induction s) (auto simp: Let_def u)
  moreover have "utf8_encode (map unat s) = s"
    using assms by (induction s) (auto simp: utf8_encode_def utf8_char_def)
  ultimately show ?thesis by (simp add: from_utf16_def)
qed

lemma be_units_ascii: "be_units (map ucast s) = concat (map (\<lambda>b. [0, b]) s)"
proof -
  have "be_bytes 2 (ucast b :: u16) = [0, b]" for b :: u8
  proof -
    have "drop_bit 8 (ucast b :: u16) = 0" by (rule bit_word_eqI) (auto simp: bit_simps dest: bit_imp_le_length)
    moreover have "ucast (ucast b :: u16) = b" by (rule bit_word_eqI) (auto simp: bit_simps dest: bit_imp_le_length)
    ultimately show ?thesis by (simp add: numeral_2_eq_2)
  qed
  then show ?thesis by (simp add: be_units_def comp_def)
qed

definition ascii16 :: "str \<Rightarrow> u16 list" where
  "ascii16 s = map ucast s"

lemma legacy_ping_pass:
  assumes "test_data test = legacy_ping 73 (ascii16 s) 25565"
    and "list_all (\<lambda>b. unat b < 0x80) s" "length s < 2 ^ 14"
    and "test_packet test = \<lparr>length_hello = length (test_data test), pkg_type = Legacy, id_hello = 0,
      version_hello = 73, hostname_hello = s, forge = False, port = 25565\<rparr>"
  shows "test_hello_vector test"
proof (rule test_hello_packetI)
  show "hello_new (test_data test) = Parsed (test_packet test)"
    using legacy_ping_read[OF from_utf16_ascii[OF assms(2)], of 73 25565 "[]"] assms
    by (simp add: ascii16_def)
qed (simp add: assms(4))

lemma legacy_connect_pass:
  assumes "test_data test = legacy_connect 73 (ascii16 (str_lit ''PennerQueen'')) (ascii16 s) 25565"
    and "list_all (\<lambda>b. unat b < 0x80) s" "length s < 2 ^ 14"
    and "test_packet test = \<lparr>length_hello = length (test_data test), pkg_type = Legacy, id_hello = 0,
      version_hello = 73, hostname_hello = s, forge = False, port = 25565\<rparr>"
  shows "test_hello_vector test"
proof (rule test_hello_packetI)
  have u: "from_utf16 (map ucast (str_lit ''PennerQueen'')) = Some (str_lit ''PennerQueen'')"
    by (rule from_utf16_ascii) (simp add: str_lit_def)
  show "hello_new (test_data test) = Parsed (test_packet test)"
    using legacy_connect_read[OF u from_utf16_ascii[OF assms(2)], of 73 25565 "[]"] assms
    by (simp add: ascii16_def str_lit_def)
qed (simp add: assms(4))

lemma modern_pass:
  assumes "test_data test = handshake 767 s prt st" "st = 1 \<or> st = 2"
    and "list_all (\<lambda>b. unat b < 0x80) s" "length (handshake_body 767 s prt st) < 128"
    and "length s < 2 ^ 30"
    and "test_packet test = \<lparr>length_hello = length (test_data test),
      pkg_type = (if st = 1 then Ping else Connect), id_hello = 0, version_hello = 767,
      hostname_hello = strip_after_nul s, forge = ends_with s FORGE_STRING, port = ucast prt\<rparr>"
  shows "test_hello_vector test"
proof (rule test_hello_packetI)
  have v: "utf8_valid s" by (rule utf8_valid_ascii) (use assms(3) in \<open>simp add: list_all_iff\<close>)
  have "length (handshake 767 s prt st) = Suc (length (handshake_body 767 s prt st))"
    by (simp add: handshake_def put_varint_small[OF assms(4)])
  then show "hello_new (test_data test) = Parsed (test_packet test)"
    using handshake_read[OF v assms(5,2), of 767 prt "[]"] assms(1,2,4,6) by simp
qed (simp add: assms(6))

lemma be_bytes_numeral: "be_bytes (numeral k) w = be_bytes (pred_numeral k) (drop_bit 8 w) @ [ucast w]"
  by (simp add: numeral_eq_Suc)

lemma wire_numbers:
  "be_bytes 4 (25565 :: u32) = [0, 0, 99, 221]" "be_bytes 2 (133 :: u16) = [0, 133]"
  "be_bytes 2 (63 :: u16) = [0, 63]" "be_bytes (Suc 0) (73 :: u8) = [73]"
  "be_bytes 2 (11 :: u16) = [0, 11]" "be_bytes 2 (2 :: u16) = [0, 2]" "be_bytes 2 (9 :: u16) = [0, 9]"
  by (simp_all add: be_bytes_numeral)

lemma legacy_ping_ascii:
  "legacy_ping 73 (ascii16 s) 25565 = OLD_MINECRAFT_START @ be_bytes 2 (of_nat (7 + 2 * length s) :: u16)
     @ [73] @ be_bytes 2 (of_nat (length s) :: u16) @ concat (map (\<lambda>b. [0, b]) s) @ [0, 0, 99, 221]"
  by (simp add: legacy_ping_def ascii16_def be_units_ascii wire_numbers del: be_bytes.simps)

lemma legacy_connect_ascii:
  "legacy_connect 73 (ascii16 u) (ascii16 s) 25565 = [2, 73] @ be_bytes 2 (of_nat (length u) :: u16)
     @ concat (map (\<lambda>b. [0, b]) u) @ be_bytes 2 (of_nat (length s) :: u16)
     @ concat (map (\<lambda>b. [0, b]) s) @ [0, 0, 99, 221]"
  by (simp add: legacy_connect_def ascii16_def be_units_ascii wire_numbers del: be_bytes.simps)

lemma ping_vectors_pass: "list_all test_hello_vector legacy_ping_vectors"
proof -
  have "test_hello_vector (legacy_ping_vectors ! 0)"
    by (rule legacy_ping_pass[where s = "str_lit ''aaaaaaaaaaaaaaaaaaaaaaaaaaaaaaaaaaaaaaaaaaaaaaaaaaaaaaaaaaaaaaa''"])
       (simp_all add: legacy_ping_vectors_def legacy_ping_ascii OLD_MINECRAFT_START_def str_lit_def
         wire_numbers)
  moreover have "test_hello_vector (legacy_ping_vectors ! 1)"
    by (rule legacy_ping_pass[where s = "str_lit ''hi''"])
       (simp_all add: legacy_ping_vectors_def legacy_ping_ascii OLD_MINECRAFT_START_def str_lit_def
         wire_numbers)
  ultimately show ?thesis by (simp add: legacy_ping_vectors_def)
qed

lemma connect_vectors_pass: "list_all test_hello_vector legacy_connect_vectors"
proof -
  note s = legacy_connect_vectors_def legacy_connect_ascii str_lit_def wire_numbers
  have "test_hello_vector (legacy_connect_vectors ! 0)"
    by (rule legacy_connect_pass[where s = "str_lit ''aaaaaaaaaaaaaaaaaaaaaaaaaaaaaaaaaaaaaaaaaaaaaaaaaaaaaaaaaaaaaaa''"])
       (simp_all add: s)
  moreover have "test_hello_vector (legacy_connect_vectors ! 1)"
    by (rule legacy_connect_pass[where s = "str_lit ''localhost''"]) (simp_all add: s)
  moreover have "test_hello_vector (legacy_connect_vectors ! 2)"
    by (rule legacy_connect_pass[where s = "str_lit ''localhost''"]) (simp_all add: s)
  ultimately show ?thesis by (simp add: legacy_connect_vectors_def)
qed

lemma modern_vectors_pass: "list_all test_hello_vector modern_vectors"
proof -
  note s = modern_vectors_def str_lit_def handshake_def handshake_body_def put_utf8_string_def
    put_varint_def put_varint_loop_numeral be_bytes_numeral strip_after_nul_def ends_with_def FORGE_STRING_def
  have "test_hello_vector (modern_vectors ! 0)"
    by (rule modern_pass[where s = "str_lit ''localhost''" and prt = 25564 and st = 2]) (simp_all add: s)
  moreover have "test_hello_vector (modern_vectors ! 1)"
    by (rule modern_pass[where s = "str_lit ''localhost''" and prt = 25564 and st = 1]) (simp_all add: s)
  moreover have "test_hello_vector (modern_vectors ! 2)"
    by (rule modern_pass[where s = "str_lit ''1234abcd001992312312.t.craftip.net''" and prt = 25565 and st = 2])
       (simp_all add: s)
  moreover have "test_hello_vector (modern_vectors ! 3)"
    by (rule modern_pass[where s = "str_lit ''1234abcd001992312312.t.craftip.net'' @ [0] @ str_lit ''FORGE''" and prt = 25565 and st = 1])
       (simp_all add: s)
  moreover have "test_hello_vector (modern_vectors ! 4)"
    by (rule modern_pass[where s = "str_lit ''1234abcd001992312312.t.craftip.net'' @ [0] @ str_lit ''FORGE''" and prt = 25565 and st = 2])
       (simp_all add: s)
  ultimately show ?thesis by (simp add: modern_vectors_def)
qed

lemma hello_vectors_pass: test_hello_packet_ping
  by (simp add: test_hello_packet_ping_def ping_vectors_pass connect_vectors_pass modern_vectors_pass)

subsection \<open>Numbers and strings\<close>

record test_var_int =
  buffer_vi :: bytes
  value_vi :: "i32 \<times> nat"

definition varint_vectors :: "test_var_int list" where
  "varint_vectors = [
     \<lparr>buffer_vi = [0x00], value_vi = (0, 1)\<rparr>,
     \<lparr>buffer_vi = [0x01], value_vi = (1, 1)\<rparr>,
     \<lparr>buffer_vi = [0x7f], value_vi = (127, 1)\<rparr>,
     \<lparr>buffer_vi = [0x80, 0x01], value_vi = (128, 2)\<rparr>,
     \<lparr>buffer_vi = [0xff, 0xff, 0xff, 0xff, 0x07], value_vi = (2147483647, 5)\<rparr>,
     \<lparr>buffer_vi = [0xff, 0xff, 0xff, 0xff, 0x0f], value_vi = (- 1, 5)\<rparr>,
     \<lparr>buffer_vi = [0x80, 0x80, 0x80, 0x80, 0x08], value_vi = (- 2147483648, 5)\<rparr>]"

definition test_varint_one :: "test_var_int \<Rightarrow> bool" where
  "test_varint_one test \<longleftrightarrow>
     list_all (\<lambda>len. fst (get_varint (cursor_new (take len (buffer_vi test)))) = Incomplete)
       [0..<length (buffer_vi test)]
   \<and> (case get_varint (cursor_new (buffer_vi test)) of
        (Parsed res, cursor) \<Rightarrow> res = fst (value_vi test) \<and> remaining cursor = 0
      | _ \<Rightarrow> False)
   \<and> length (put_varint (fst (value_vi test)) []) = snd (value_vi test)
   \<and> put_varint (fst (value_vi test)) [] = buffer_vi test"

definition test_varint :: bool where
  "test_varint \<longleftrightarrow> list_all test_varint_one varint_vectors"

text \<open>The loop body of \<^verbatim>\<open>test_all_numbers\<close>, at one number.\<close>

definition test_number :: "i32 \<Rightarrow> bool" where
  "test_number i \<longleftrightarrow> fst (get_varint (cursor_new (put_varint i []))) = Parsed i"

definition test_utf8_str :: bool where
  "test_utf8_str \<longleftrightarrow>
     (let test = [2, 0x68, 0x69];
          cursor = put_utf8_string (str_lit ''hi'') []
      in cursor = test \<and> put_utf8_string (str_lit ''hi'') cursor = concat [test, test])"

text \<open>One round of \<^verbatim>\<open>test_random_bytes\<close>: no panic.\<close>

definition test_random_bytes :: "bytes \<Rightarrow> bool" where
  "test_random_bytes buf \<longleftrightarrow> hello_new buf \<noteq> Panicked"

lemma get_varint_written:
  "get_varint (cursor_new (put_varint v [])) =
     (Parsed v, \<lparr>cbuf = put_varint v [], cpos = length (put_varint v [])\<rparr>)"
  using get_put_varint[of "[]" v "[]"] by (simp add: cursor_new_def)

lemma test_numberI: "test_number i"
  by (simp add: test_number_def get_varint_written)

lemma utf8_str_pass: test_utf8_str
  by (simp add: test_utf8_str_def put_utf8_string_def put_varint_def put_varint_loop_numeral str_lit_def)

text \<open>A proper prefix of a written number has the continuation bit everywhere.\<close>

lemma varint_pass:
  assumes "put_varint v [] = buf" "length buf = n"
  shows "test_varint_one \<lparr>buffer_vi = buf, value_vi = (v, n)\<rparr>"
proof -
  have "fst (get_varint (cursor_new (take len buf))) = Incomplete" if "len < length buf" for len
  proof -
    let ?c = "cursor_new (take len buf)"
    have full: "get_varint (?c\<lparr>cbuf := cbuf ?c @ drop len buf\<rparr>) = (Parsed v, \<lparr>cbuf = buf, cpos = length buf\<rparr>)"
      using get_varint_written[of v] assms(1) by (simp add: cursor_new_def)
    have wf: "wf_cursor ?c" by simp
    obtain r c' where rd: "get_varint ?c = (r, c')" by (cases "get_varint ?c")
    note st = streaming_get_varint
    have "r \<noteq> Panicked" using safe_get_varint wf rd unfolding safe_def by (metis fst_conv)
    moreover have "cpos c' \<le> length (take len buf)"
      using streaming_bound[OF st wf rd] by (simp add: cursor_new_def)
    then have "r = Incomplete \<or> r = Panicked"
      using st wf rd full that unfolding streaming_def by (metis (no_types, lifting) cursor.ext_inject
        cursor.select_convs(2) cursor.surjective cursor.update_convs(1) fst_conv length_take less_imp_le_nat
        linorder_not_less min.absorb2 snd_conv)
    ultimately show ?thesis by (simp add: rd)
  qed
  then show ?thesis
    using assms get_varint_written[of v] by (simp add: test_varint_one_def list_all_iff remaining_def)
qed

lemma varint_vectors_pass: test_varint
proof -
  note s = put_varint_def put_varint_loop_numeral
  have neg: "(- 1 :: i32) = 4294967295" "(- 2147483648 :: i32) = 2147483648" by simp_all
  have "put_varint 4294967295 [] = [0xff, 0xff, 0xff, 0xff, 0x0f]" by (simp add: s)
  then have m1: "put_varint (- 1) [] = [0xff, 0xff, 0xff, 0xff, 0x0f]" by (simp only: neg)
  have "put_varint 2147483648 [] = [0x80, 0x80, 0x80, 0x80, 0x08]" by (simp add: s)
  then have m2: "put_varint (- 2147483648) [] = [0x80, 0x80, 0x80, 0x80, 0x08]" by (simp only: neg)
  have "test_varint_one \<lparr>buffer_vi = [0x00], value_vi = (0, 1)\<rparr>"
    "test_varint_one \<lparr>buffer_vi = [0x01], value_vi = (1, 1)\<rparr>"
    "test_varint_one \<lparr>buffer_vi = [0x7f], value_vi = (127, 1)\<rparr>"
    "test_varint_one \<lparr>buffer_vi = [0x80, 0x01], value_vi = (128, 2)\<rparr>"
    "test_varint_one \<lparr>buffer_vi = [0xff, 0xff, 0xff, 0xff, 0x07], value_vi = (2147483647, 5)\<rparr>"
    "test_varint_one \<lparr>buffer_vi = [0xff, 0xff, 0xff, 0xff, 0x0f], value_vi = (- 1, 5)\<rparr>"
    "test_varint_one \<lparr>buffer_vi = [0x80, 0x80, 0x80, 0x80, 0x08], value_vi = (- 2147483648, 5)\<rparr>"
    by (rule varint_pass, (simp only: m1 m2 | simp add: s), simp)+
  then show ?thesis by (simp only: test_varint_def varint_vectors_def list.pred_inject simp_thms)
qed

subsection \<open>Tunnel packets\<close>

definition create_packets :: "socket_packet list" where
  "create_packets =
     (let ping = ProxyPing 1;
          err = ProxyError (str_lit ''hi'');
          data = ProxyData \<lparr>data_client_id = 0x1234, data_bytes = str_lit ''12345''\<rparr>
      in [ping, data, err])"

text \<open>The first loop of \<^verbatim>\<open>encode_decode\<close>: the buffer, and how much each packet added; \<open>None\<close> is its \<^verbatim>\<open>unwrap\<close>.\<close>

fun encode_lengths ::
  "(socket_packet \<Rightarrow> bytes option) \<Rightarrow> socket_packet list \<Rightarrow> bytes \<Rightarrow> (bytes \<times> nat list) option" where
  "encode_lengths ser [] buf = Some (buf, [])"
| "encode_lengths ser (p # ps) buf = (case encode_into ser p buf of
     Inl e \<Rightarrow> None
   | Inr buf' \<Rightarrow> (case encode_lengths ser ps buf' of
       None \<Rightarrow> None
     | Some (b, lengths) \<Rightarrow> Some (b, (length buf' - length buf) # lengths)))"

text \<open>Its second loop, with the closing check that the buffer is empty.\<close>

fun decode_each ::
  "(bytes \<Rightarrow> socket_packet option) \<Rightarrow> socket_packet list \<Rightarrow> nat list \<Rightarrow> bytes \<Rightarrow> bool" where
  "decode_each deser (p # ps) (n # lengths) buf = (case decode_from deser buf of
     (Parsed q, rest) \<Rightarrow> p = q \<and> n = length buf - length rest \<and> decode_each deser ps lengths rest
   | _ \<Rightarrow> False)"
| "decode_each deser ps lengths buf = (ps = [] \<and> buf = [])"

definition encode_decode ::
  "(socket_packet \<Rightarrow> bytes option) \<Rightarrow> (bytes \<Rightarrow> socket_packet option) \<Rightarrow> socket_packet list \<Rightarrow> bool" where
  "encode_decode ser deser packets = (case encode_lengths ser packets [] of
     None \<Rightarrow> False
   | Some (buf, lengths) \<Rightarrow> decode_each deser packets lengths buf)"

text \<open>\<^verbatim>\<open>partial_decoding\<close>: where each packet ends, and what every prefix of the stream decodes to.\<close>

fun packet_indices ::
  "(socket_packet \<Rightarrow> bytes option) \<Rightarrow> socket_packet list \<Rightarrow> bytes \<Rightarrow> (bytes \<times> nat list) option" where
  "packet_indices ser [] buf = Some (buf, [])"
| "packet_indices ser (p # ps) buf = (case encode_into ser p buf of
     Inl e \<Rightarrow> None
   | Inr buf' \<Rightarrow> (case packet_indices ser ps buf' of
       None \<Rightarrow> None
     | Some (b, indices) \<Rightarrow> Some (b, length buf' # indices)))"

definition partial_decoding ::
  "(socket_packet \<Rightarrow> bytes option) \<Rightarrow> (bytes \<Rightarrow> socket_packet option) \<Rightarrow> socket_packet list \<Rightarrow> bool" where
  "partial_decoding ser deser packets = (case packet_indices ser packets [] of
     None \<Rightarrow> False
   | Some (buf, indices) \<Rightarrow>
       list_all (\<lambda>i. case drain deser (take i buf) of
           (parsed_packets, out, rest) \<Rightarrow> out = Incomplete
             \<and> parsed_packets = take (length (filter (\<lambda>e. e \<le> i) indices)) packets) [0..<Suc (length buf)]
     \<and> fst (drain deser buf) = packets)"

lemma sendable_encode:
  assumes "sendable ser deser p"
  shows "encode_into ser p buf = Inr (buf @ frame ser p)"
proof -
  have "\<exists>f. encode_into ser p [] = Inr f"
    using assms by (cases p) (auto simp: sendable_def encode_into_def Let_def split: option.splits)
  then show ?thesis using encode_into_frame by blast
qed

lemma encode_lengths_frames:
  "list_all (sendable ser deser) ps \<Longrightarrow> encode_lengths ser ps buf =
     Some (buf @ concat (map (frame ser) ps), map (length \<circ> frame ser) ps)"
  by (induction ps arbitrary: buf) (simp_all add: sendable_encode[of ser deser])

lemma decode_each_frames:
  "list_all (sendable ser deser) ps \<Longrightarrow>
     decode_each deser ps (map (length \<circ> frame ser) ps) (concat (map (frame ser) ps))"
  by (induction ps) (simp_all add: decode_frame)

lemma encode_decode_pass: "list_all (sendable ser deser) ps \<Longrightarrow> encode_decode ser deser ps"
  by (simp add: encode_decode_def encode_lengths_frames decode_each_frames)

lemma packet_indices_frames:
  "list_all (sendable ser deser) ps \<Longrightarrow> \<exists>ns. packet_indices ser ps buf =
     Some (buf @ concat (map (frame ser) ps), map (\<lambda>n. length buf + n) ns)
   \<and> (\<forall>i. drain deser (take i (concat (map (frame ser) ps)))
          = (take (length (filter (\<lambda>e. e \<le> i) ns)) ps, Incomplete,
             snd (snd (drain deser (take i (concat (map (frame ser) ps)))))))"
proof (induction ps arbitrary: buf)
  case Nil
  show ?case by (simp add: wire.dr_empty)
next
  case (Cons p ps)
  let ?f = "frame ser p" and ?rest = "concat (map (frame ser) ps)"
  have p: "sendable ser deser p" using Cons.prems by simp
  obtain ns where ns: "packet_indices ser ps (buf @ ?f) =
      Some ((buf @ ?f) @ ?rest, map (\<lambda>n. length (buf @ ?f) + n) ns)"
    and d: "\<And>i. drain deser (take i ?rest) = (take (length (filter (\<lambda>e. e \<le> i) ns)) ps, Incomplete,
         snd (snd (drain deser (take i ?rest))))"
    using Cons.IH[of "buf @ ?f"] Cons.prems by auto
  let ?ns = "length ?f # map (\<lambda>n. length ?f + n) ns"
  have "drain deser (take i (?f @ ?rest)) = (take (length (filter (\<lambda>e. e \<le> i) ?ns)) (p # ps), Incomplete,
      snd (snd (drain deser (take i (?f @ ?rest)))))" for i
  proof (cases "length ?f \<le> i")
    case True
    have "drain deser (take i (?f @ ?rest)) = (p # take (length (filter (\<lambda>e. e \<le> i - length ?f) ns)) ps,
        Incomplete, snd (snd (drain deser (take (i - length ?f) ?rest))))"
      using wire.dr_parsed[OF decode_frame[OF p, of "take (i - length ?f) ?rest"] d] True by simp
    moreover have "filter (\<lambda>e. e \<le> i) ?ns = length ?f # map (\<lambda>n. length ?f + n) (filter (\<lambda>e. e \<le> i - length ?f) ns)"
      using True by (auto simp: filter_map comp_def le_diff_conv2 add.commute intro!: filter_cong)
    ultimately show ?thesis by simp
  next
    case False
    then have "strict_prefix (take i ?f) ?f"
      by (metis length_take linorder_not_le min.absorb4 nat_less_le strict_prefix_def take_is_prefix)
    then have "drain deser (take i ?f) = ([], Incomplete, take i ?f)"
      by (intro wire.dr_stop) (simp_all add: decode_short[OF p])
    moreover have "filter (\<lambda>e. e \<le> i) ?ns = []" using False by (auto simp: filter_empty_conv)
    ultimately show ?thesis using False by simp
  qed
  then show ?case
    using ns by (intro exI[of _ ?ns]) (simp add: sendable_encode[OF p] comp_def add.assoc)
qed

lemma partial_decoding_pass:
  assumes "list_all (sendable ser deser) ps"
  shows "partial_decoding ser deser ps"
proof -
  let ?buf = "concat (map (frame ser) ps)"
  obtain ns where ns: "packet_indices ser ps [] = Some (?buf, ns)"
    and d: "\<And>i. drain deser (take i ?buf) = (take (length (filter (\<lambda>e. e \<le> i) ns)) ps, Incomplete,
         snd (snd (drain deser (take i ?buf))))"
    using packet_indices_frames[OF assms, of "[]"] by auto
  have "case drain deser (take i ?buf) of (parsed_packets, out, rest) \<Rightarrow> out = Incomplete
      \<and> parsed_packets = take (length (filter (\<lambda>e. e \<le> i) ns)) ps" for i
    by (subst d) simp
  then have "list_all (\<lambda>i. case drain deser (take i ?buf) of (parsed_packets, out, rest) \<Rightarrow> out = Incomplete
      \<and> parsed_packets = take (length (filter (\<lambda>e. e \<le> i) ns)) ps) [0..<Suc (length ?buf)]"
    by (simp only: list_all_iff) blast
  moreover have "fst (drain deser ?buf) = ps"
    using wire.dr_frames[OF assms, of "[]"] by (simp add: wire.dr_empty)
  ultimately show ?thesis by (simp only: partial_decoding_def ns option.case prod.case simp_thms)
qed

definition craft_minecraft_packet :: bool where
  "craft_minecraft_packet \<longleftrightarrow> from_packet_without_len (str_lit ''hello'') = [5] @ str_lit ''hello''"

text \<open>
  The serde code of \<^verbatim>\<open>MinecraftDataPacket\<close>, which the tunnel does not use: a packet is written as
  bytes and read as a vector of bytes. \<open>ser_bytes\<close> and \<open>deser_vec\<close> are what the format makes of the two.
\<close>

definition data_packet_serialize ::
  "(bytes \<Rightarrow> bytes option) \<Rightarrow> minecraft_data_packet \<Rightarrow> bytes option" where
  "data_packet_serialize ser_bytes p = ser_bytes p"

definition data_packet_deserialize ::
  "(bytes \<Rightarrow> bytes option) \<Rightarrow> bytes \<Rightarrow> minecraft_data_packet option" where
  "data_packet_deserialize deser_vec bs = (case deser_vec bs of None \<Rightarrow> None | Some v \<Rightarrow> Some v)"

definition test_serialization :: "(bytes \<Rightarrow> bytes option) \<Rightarrow> (bytes \<Rightarrow> bytes option) \<Rightarrow> bool" where
  "test_serialization ser_bytes deser_vec =
    (let pkg = str_lit ''Hello world'' in
     case data_packet_serialize ser_bytes pkg of
       None \<Rightarrow> False
     | Some serial \<Rightarrow> data_packet_deserialize deser_vec serial = Some pkg)"

text \<open>It passes with a format that reads what it wrote, such as eight bytes of length and the bytes.\<close>

definition sample_ser_bytes :: "bytes \<Rightarrow> bytes option" where
  "sample_ser_bytes bs = Some (rev (be_bytes 8 (of_nat (length bs) :: u64)) @ bs)"

definition sample_deser_vec :: "bytes \<Rightarrow> bytes option" where
  "sample_deser_vec bs = (if length bs < 8 then None else Some (drop 8 bs))"

lemma test_serialization_pass: "test_serialization sample_ser_bytes sample_deser_vec"
  by (simp add: test_serialization_def data_packet_serialize_def data_packet_deserialize_def sample_ser_bytes_def
      sample_deser_vec_def)

subsection \<open>Host names\<close>

definition it_works :: bool where
  "it_works \<longleftrightarrow>
     clean_up_hostname (str_lit ''random-123123.testawe.random.com'') = str_lit ''testawe.random.com''
   \<and> clean_up_hostname (str_lit ''random-ab12cd.testawe.random.com'') = str_lit ''testawe.random.com''
   \<and> clean_up_hostname (str_lit ''testawe.random.com'') = str_lit ''testawe.random.com''
   \<and> clean_up_hostname (str_lit ''randomtestawe.random.com'') = str_lit ''randomtestawe.random.com''
   \<and> clean_up_hostname (str_lit ''random-123123'') = []"

lemma it_works_pass: "it_works"
  unfolding it_works_def by code_simp

subsection \<open>Keys and signatures\<close>

text \<open>\<^verbatim>\<open>test\<close> of \<^verbatim>\<open>crypto.rs\<close>: the alphabet has 36 letters, and two new keys are different.\<close>

definition test_keys :: "ring_api \<Rightarrow> bytes \<Rightarrow> bytes \<Rightarrow> bool" where
  "test_keys api rng other_rng = (length BASE36_ENCODER_STRING = 36 \<and>
    (case (private_key_default api rng, private_key_default api other_rng) of
       (Some private, Some other_private) \<Rightarrow>
          private_key_to_string api other_private \<noteq> private_key_to_string api private
          \<and> get_public_key api private \<noteq> None
     | _ \<Rightarrow> False))"

lemma test_keys_pass:
  assumes "ring_ok api" "private_key_default api rng = Some private"
    and "private_key_default api other_rng = Some other" "other \<noteq> private"
    and "pkcs8_public api (private_key_bytes private) = Some pk"
  shows "test_keys api rng other_rng"
proof -
  have hex: "hex_decode api (hex_encode api bs) = Some bs" for bs using assms(1) by (simp add: ring_ok_def)
  then have "private_key_to_string api other \<noteq> private_key_to_string api private"
    unfolding private_key_to_string_def using assms(4)
    by (metis option.inject server_private_key.equality unit.exhaust)
  moreover have "length pk = 32" using assms(1,5) by (auto simp: ring_ok_def)
  then have "get_public_key api private \<noteq> None" using assms(5) by (simp add: get_public_key_def)
  ultimately show ?thesis using assms(2,3) by (simp add: test_keys_def BASE36_ENCODER_STRING_def)
qed

text \<open>\<^verbatim>\<open>test_signature\<close>: a new key and a challenge from the random source; \<open>False\<close> is also a panic.\<close>

definition test_signature :: "ring_api \<Rightarrow> bytes \<Rightarrow> bytes option \<Rightarrow> bool" where
  "test_signature api rng fill = (case private_key_default api rng of
     None \<Rightarrow> False
   | Some private \<Rightarrow> (case get_public_key api private of
       None \<Rightarrow> False
     | Some public \<Rightarrow> (case create_challenge fill of
         Inl e \<Rightarrow> False
       | Inr chal \<Rightarrow> (case sign api private chal of
           None \<Rightarrow> False
         | Some sig \<Rightarrow> verify api public chal sig))))"

definition test_signature_invalid :: "ring_api \<Rightarrow> bytes \<Rightarrow> bytes option \<Rightarrow> bytes \<Rightarrow> bool" where
  "test_signature_invalid api rng fill other_rng = (case private_key_default api rng of
     None \<Rightarrow> False
   | Some private \<Rightarrow> (case get_public_key api private of
       None \<Rightarrow> False
     | Some public \<Rightarrow> (case create_challenge fill of
         Inl e \<Rightarrow> False
       | Inr chal \<Rightarrow> (case sign api private chal of
           None \<Rightarrow> False
         | Some sig \<Rightarrow> \<not> verify api public chal (sig[0 := 1])
             \<and> (case private_key_default api other_rng of
                  None \<Rightarrow> False
                | Some other_private \<Rightarrow> (case sign api other_private chal of
                    None \<Rightarrow> False
                  | Some other_sig \<Rightarrow> \<not> verify api public chal other_sig))))))"

text \<open>
  \<^verbatim>\<open>get_hostname\<close>: the recorded key has the recorded host name. That is a fact about the hash and the
  key format, so of the model only this remains: it passes exactly when the hash of the public key
  starts with the recorded letters.
\<close>

definition recorded_key :: server_private_key where
  "recorded_key = \<lparr>private_key_bytes =
     [48, 81, 2, 1, 1, 48, 5, 6, 3, 43, 101, 112, 4, 34, 4, 32, 139, 81, 49, 130, 164,
      90, 45, 62, 101, 152, 49, 216, 87, 225, 252, 185, 112, 158, 0, 115, 53, 155, 73,
      37, 232, 159, 228, 230, 31, 180, 144, 103, 129, 33, 0, 192, 167, 235, 13, 200, 199,
      33, 242, 182, 72, 244, 223, 218, 48, 255, 38, 179, 46, 240, 69, 208, 131, 240, 87,
      53, 26, 24, 253, 144, 23, 112, 38]\<rparr>"

definition test_get_hostname :: "ring_api \<Rightarrow> bool" where
  "test_get_hostname api = (case get_public_key api recorded_key of
     None \<Rightarrow> False
   | Some public \<Rightarrow> get_hostname api public = str_lit ''3grfiewn7rkrpizi11dm.t.craftip.net'')"

lemma recorded_key_wf: "wf_private_key recorded_key"
  by (simp add: wf_private_key_def recorded_key_def)

lemma test_get_hostname_iff:
  assumes "pkcs8_public api (private_key_bytes recorded_key) = Some pk" "length pk = 32"
  shows "test_get_hostname api \<longleftrightarrow>
    take 20 (base_encode api BASE36_ENCODER_STRING (sha256 api (PREFIX @ pk))) = str_lit ''3grfiewn7rkrpizi11dm''"
proof -
  have "str_lit ''3grfiewn7rkrpizi11dm.t.craftip.net'' = str_lit ''3grfiewn7rkrpizi11dm'' @ KEY_SERVER_SUFFIX"
    by (simp add: str_lit_def KEY_SERVER_SUFFIX_def)
  then show ?thesis
    using assms by (simp add: test_get_hostname_def get_public_key_def get_hostname_def get_host_def HOSTNAME_LENGTH_def)
qed

lemma test_signature_pass:
  assumes "ring_ok api" "private_key_default api rng = Some private"
    and "pkcs8_public api (private_key_bytes private) = Some pk"
  shows "test_signature api rng (Some chal)"
proof -
  have "length pk = 32" using assms(1,3) by (auto simp: ring_ok_def)
  then have "get_public_key api private = Some \<lparr>public_key_bytes = pk\<rparr>"
    using assms(3) by (simp add: get_public_key_def)
  moreover from sign_verifies[OF assms(1) this] obtain s where
    "sign api private chal = Some s" "verify api \<lparr>public_key_bytes = pk\<rparr> chal s" by blast
  ultimately show ?thesis using assms(2) by (simp add: test_signature_def create_challenge_def)
qed

text \<open>\<^verbatim>\<open>test_signature_invalid\<close> fails whenever the signature happens to start with the byte 1.\<close>

lemma test_signature_invalid_flaky:
  assumes "ring_ok api" "private_key_default api rng = Some private"
    and "get_public_key api private = Some public" and "sign api private chal = Some (1 # t)"
  shows "\<not> test_signature_invalid api rng (Some chal) other_rng"
proof -
  obtain s where "sign api private chal = Some s" "verify api public chal s"
    using sign_verifies[OF assms(1,3)] by blast
  with assms show ?thesis by (simp add: test_signature_invalid_def create_challenge_def)
qed

subsection \<open>The tests of the codec and of the parser\<close>

text \<open>
  The assertions of the unit tests hold of the model: the ten recorded first packets are read as
  the test says and no proper prefix of one is, host names are cleaned up as recorded, the recorded variable-length
  integers and strings are written and read, any number survives \<^verbatim>\<open>test_all_numbers\<close>, any bytes
  \<^verbatim>\<open>test_random_bytes\<close>, and any list of packets that can be sent (the three of \<^verbatim>\<open>create_packets\<close> among
  them) passes \<^verbatim>\<open>encode_decode\<close> and \<^verbatim>\<open>partial_decoding\<close>.
\<close>

lemma codec_tests_pass:
  assumes "list_all (sendable ser deser) packets"
  shows "test_hello_packet_ping \<and> it_works \<and> test_varint \<and> test_number i \<and> test_utf8_str
    \<and> test_random_bytes buf \<and> craft_minecraft_packet
    \<and> encode_decode ser deser packets \<and> partial_decoding ser deser packets"
  using encode_decode_pass[OF assms] partial_decoding_pass[OF assms] hello_new_safe[of buf]
  by (simp add: hello_vectors_pass it_works_pass varint_vectors_pass test_numberI utf8_str_pass test_random_bytes_def
      craft_minecraft_packet_def from_packet_without_len_def put_varint_def put_varint_loop_numeral str_lit_def)

text \<open>The bincode format of an error message, beside those of \<open>sample_ser\<close>.\<close>

definition test_ser :: "socket_packet \<Rightarrow> bytes option" where
  "test_ser p = (case p of
     ProxyError s \<Rightarrow> Some ([7, 0, 0, 0] @ rev (be_bytes 8 (of_nat (length s) :: u64)) @ s)
   | _ \<Rightarrow> sample_ser p)"

definition test_deser :: "bytes \<Rightarrow> socket_packet option" where
  "test_deser bs = (if take 4 bs = [7, 0, 0, 0] then Some (ProxyError (drop 12 bs)) else sample_deser bs)"

lemma create_packets_pass:
  "encode_decode test_ser test_deser create_packets \<and> partial_decoding test_ser test_deser create_packets"
proof -
  have "sendable test_ser test_deser (ProxyPing 1)"
    using sample_sendable(1)[of 1] by (simp add: sendable_def test_ser_def test_deser_def sample_ser_def)
  then have "list_all (sendable test_ser test_deser) create_packets"
    by (simp add: create_packets_def Let_def) (simp add: sendable_def test_ser_def test_deser_def str_lit_def)
  from codec_tests_pass[OF this, of 0 "[]"] show ?thesis by blast
qed

end
